(* ===== verification/MU_Prelude.thy ===== *)
theory MU_Prelude
  imports Main "HOL-Library.Word"
begin

text \<open>
  Shared ground of the development: the machine types of the client and the server, the
  exceptions of both programs as values, byte strings and their literals, the C locale's
  character classes, decimal output, and the list lemmas that every codec proof uses.

  A \<^verbatim>\<open>std::string\<close>, a \<^verbatim>\<open>std::vector<uint8_t>\<close>, a \<^verbatim>\<open>std::array<uint8_t, N>\<close> and a Python
  \<^verbatim>\<open>bytes\<close> object are all lists of 8-bit words. The length of an array type is a premise or
  an invariant, stated where it is needed and shown to be kept.
  A \<^verbatim>\<open>size_t\<close> is a natural number: the sums of offsets and sizes the client forms are below
  \<open>2 ^ 33\<close>, so they do not wrap in the 64-bit build.
\<close>

unbundle bit_operations_syntax

named_theorems wire_simps \<open>lengths and slices of serialised data\<close>
named_theorems ctx_simps \<open>reads of the client state after its updates\<close>
named_theorems db_simps \<open>reads of the database after its updates\<close>

section \<open>Types\<close>

type_synonym byte = "8 word"
type_synonym u16 = "16 word"
type_synonym u32 = "32 word"
type_synonym bytes = "byte list"

text \<open>The addition of two \<^verbatim>\<open>size_t\<close>, which wraps.\<close>

definition size_add :: "nat \<Rightarrow> nat \<Rightarrow> nat" where
  "size_add a b = (a + b) mod 2 ^ 64"

lemma size_add_le: "size_add a b \<le> a + b"
  by (simp add: size_add_def)

lemma size_add_fits [simp]: "a + b \<le> n \<Longrightarrow> \<not> n < size_add a b"
  using size_add_le [of a b] by simp

lemma size_add_numeral [simp]:
  "size_add (numeral a) (numeral b) = (numeral a + numeral b) mod 18446744073709551616"
  "size_add 0 (numeral b) = numeral b mod 18446744073709551616"
  by (simp_all add: size_add_def)

lemma size_add_exact: "a + b < 2 ^ 64 \<Longrightarrow> size_add a b = a + b"
  by (simp add: size_add_def)

lemma size_add_wraps: "a < 2 ^ 64 \<Longrightarrow> b < 2 ^ 64 \<Longrightarrow> 2 ^ 64 \<le> a + b \<Longrightarrow> size_add a b = a + b - 2 ^ 64"
  by (simp add: size_add_def le_mod_geq)

text \<open>The exceptions the client throws or lets pass, with the argument of \<^verbatim>\<open>what()\<close>. \<open>Undefined\<close> is no
  exception: it marks the calls whose behaviour C++ leaves undefined (a read past the end of a buffer
  that a wrapped bounds check let through), about which the model says nothing more.\<close>

datatype exn =
    Runtime_error string
  | Logic_error string
  | Length_error string
  | Crypto_exception string
  | System_error string
  | Invalid_argument string
  | Out_of_range string
  | Undefined

text \<open>The exceptions of the Python server.\<close>

datatype py_exn =
    IntegrityError
  | OperationalError
  | UnicodeDecodeError
  | OverflowError
  | StructError
  | ConnectionError
  | ValueError
  | FileNotFoundError

text \<open>A byte string literal.\<close>

definition lit :: "string \<Rightarrow> bytes" where
  "lit s = map of_char s"

lemma length_lit [simp]: "length (lit s) = length s"
  by (simp add: lit_def)

lemma lit_append: "lit (s @ t) = lit s @ lit t"
  by (simp add: lit_def)

section \<open>Character classes of the C locale\<close>

definition isdigit :: "byte \<Rightarrow> bool" where
  "isdigit c \<longleftrightarrow> 48 \<le> c \<and> c \<le> 57"

definition isxdigit :: "byte \<Rightarrow> bool" where
  "isxdigit c \<longleftrightarrow> isdigit c \<or> 65 \<le> c \<and> c \<le> 70 \<or> 97 \<le> c \<and> c \<le> 102"

definition isspace :: "byte \<Rightarrow> bool" where
  "isspace c \<longleftrightarrow> c = 32 \<or> 9 \<le> c \<and> c \<le> 13"

definition tolower :: "byte \<Rightarrow> byte" where
  "tolower c = (if 65 \<le> c \<and> c \<le> 90 then c + 32 else c)"

text \<open>Decimal and two-digit hexadecimal output of an unsigned number, as an output stream
  prints it.\<close>

fun show_dec :: "nat \<Rightarrow> bytes" where
  "show_dec n = (if n < 10 then [of_nat (48 + n)] else show_dec (n div 10) @ [of_nat (48 + n mod 10)])"

declare show_dec.simps [simp del]

lemma show_dec_nonempty [simp]: "show_dec n \<noteq> []"
  by (subst show_dec.simps) simp

section \<open>Slices\<close>

text \<open>The bytes of \<open>xs\<close> from \<open>off\<close>, at most \<open>n\<close> of them: Python's
  \<^verbatim>\<open>xs[off:off+n]\<close>, and the range copies of the client where the range is in bounds.\<close>

definition bslice :: "nat \<Rightarrow> nat \<Rightarrow> 'a list \<Rightarrow> 'a list" where
  "bslice off n xs = take n (drop off xs)"

lemma length_bslice [wire_simps]: "length (bslice off n xs) = min n (length xs - off)"
  by (simp add: bslice_def)

lemma bslice_0 [wire_simps]: "bslice 0 n xs = take n xs"
  by (simp add: bslice_def)

lemma bslice_append [wire_simps]:
  "bslice off n (xs @ ys) =
     (if length xs \<le> off then bslice (off - length xs) n ys
      else if off + n \<le> length xs then bslice off n xs
      else drop off xs @ take (off + n - length xs) ys)"
  by (auto simp: bslice_def min_def add.commute)

lemma bslice_Cons [wire_simps]:
  "bslice off n (x # xs) =
     (case off of 0 \<Rightarrow> take n (x # xs) | Suc k \<Rightarrow> bslice k n xs)"
  by (cases off) (simp_all add: bslice_def)

lemma bslice_all [simp]: "length xs \<le> n \<Longrightarrow> bslice 0 n xs = xs"
  by (simp add: bslice_def)

lemma bslice_whole_suffix: "length xs = off + n \<Longrightarrow> bslice off n xs = drop off xs"
  by (simp add: bslice_def)

lemma bslice_drop: "bslice off n (drop k xs) = bslice (k + off) n xs"
  by (simp add: bslice_def add.commute)

lemma nth_eq_hd_bslice: "off < length xs \<Longrightarrow> bslice off 1 xs = [xs ! off]"
  by (simp add: bslice_def take_Suc_conv_app_nth drop_Suc Cons_nth_drop_Suc [symmetric])

lemma takeWhile_append_stop: "\<forall>x\<in>set xs. P x \<Longrightarrow> \<not> P y \<Longrightarrow> takeWhile P (xs @ y # ys) = xs"
  by (induction xs) auto

lemma take_pad: "length xs \<le> n \<Longrightarrow> take n (xs @ replicate n x) = xs @ replicate (n - length xs) x"
  by simp

lemma dropWhile_all: "dropWhile P xs = [] \<longleftrightarrow> (\<forall>x\<in>set xs. P x)"
  by (induction xs) auto

lemma find_first: "\<forall>k\<in>set pre. \<not> P k \<Longrightarrow> P l \<Longrightarrow> List.find P (pre @ l # rest) = Some l"
  by (induction pre) auto

end
