(* ===== verification/Protocol_Constants.thy ===== *)
theory Protocol_Constants
  imports MU_Prelude
begin

text \<open>
  The constants of \<^verbatim>\<open>Client/Constants.h\<close>, \<^verbatim>\<open>Client/MessageCodes.h\<close>, \<^verbatim>\<open>Client/Message.h\<close>,
  \<^verbatim>\<open>Client/ClientMenu.h\<close>, \<^verbatim>\<open>Client/Utilities.h\<close> and \<^verbatim>\<open>Server/request_handler.py\<close>. They are
  abbreviations, so the simplifier sees the numbers. A name that both programs use carries
  the prefix \<open>SRV_\<close> on the server's side; the names of the two C++ namespaces \<^verbatim>\<open>Code\<close> and
  \<^verbatim>\<open>MessageType\<close> carry \<open>Code_\<close> and \<open>MsgType_\<close>.
\<close>

section \<open>Client: Constants.h\<close>

abbreviation (input) CLIENT_ID_SIZE :: nat where "CLIENT_ID_SIZE \<equiv> 16"
abbreviation (input) UUID_HEX_LENGTH :: nat where "UUID_HEX_LENGTH \<equiv> 32"
abbreviation (input) NAME_SIZE :: nat where "NAME_SIZE \<equiv> 255"
abbreviation (input) MSG_ID_SIZE :: nat where "MSG_ID_SIZE \<equiv> 4"
abbreviation (input) HEADER_SIZE :: nat where "HEADER_SIZE \<equiv> 7"
abbreviation (input) PUBLIC_KEY_SIZE :: nat where "PUBLIC_KEY_SIZE \<equiv> 160"
abbreviation (input) TYPE_SIZE :: nat where "TYPE_SIZE \<equiv> 1"
abbreviation (input) MSG_SIZE :: nat where "MSG_SIZE \<equiv> 4"
abbreviation (input) SYMMETRIC_KEY_SIZE :: nat where "SYMMETRIC_KEY_SIZE \<equiv> 16"
abbreviation (input) PAYLOAD_OFFSET :: nat where "PAYLOAD_OFFSET \<equiv> 3"
abbreviation (input) RESPONSE_CODE_OFFSET :: nat where "RESPONSE_CODE_OFFSET \<equiv> 1"

abbreviation (input) UINT32_SIZE :: nat where "UINT32_SIZE \<equiv> 4"
abbreviation (input) CLIENT_VERSION :: byte where "CLIENT_VERSION \<equiv> 1"
abbreviation (input) INPUT_ERROR :: u16 where "INPUT_ERROR \<equiv> 65535"

section \<open>Client: MessageCodes.h\<close>

abbreviation (input) Code_REGISTER :: u16 where "Code_REGISTER \<equiv> 110"
abbreviation (input) Code_CLIENTS_LIST :: u16 where "Code_CLIENTS_LIST \<equiv> 120"
abbreviation (input) Code_PUBLIC_KEY :: u16 where "Code_PUBLIC_KEY \<equiv> 130"
abbreviation (input) Code_WAITING_MESSAGES :: u16 where "Code_WAITING_MESSAGES \<equiv> 140"
abbreviation (input) Code_SEND_TEXT :: u16 where "Code_SEND_TEXT \<equiv> 150"
abbreviation (input) Code_REQUEST_SYMMETRIC_KEY :: u16 where "Code_REQUEST_SYMMETRIC_KEY \<equiv> 151"
abbreviation (input) Code_SEND_SYMMETRIC_KEY :: u16 where "Code_SEND_SYMMETRIC_KEY \<equiv> 152"
abbreviation (input) Code_EXIT :: u16 where "Code_EXIT \<equiv> 0"

abbreviation (input) Code_REQUEST_REGISTER :: u16 where "Code_REQUEST_REGISTER \<equiv> 700"
abbreviation (input) Code_REQUEST_CLIENTS_LIST :: u16 where "Code_REQUEST_CLIENTS_LIST \<equiv> 701"
abbreviation (input) Code_REQUEST_PUBLIC_KEY :: u16 where "Code_REQUEST_PUBLIC_KEY \<equiv> 702"
abbreviation (input) Code_REQUEST_ALL_MESSAGES :: u16 where "Code_REQUEST_ALL_MESSAGES \<equiv> 703"
abbreviation (input) Code_REQUEST_WAITING_MESSAGES :: u16 where "Code_REQUEST_WAITING_MESSAGES \<equiv> 704"

abbreviation (input) Code_RESPONSE_REGISTER :: u16 where "Code_RESPONSE_REGISTER \<equiv> 2100"
abbreviation (input) Code_RESPONSE_CLIENT_LIST :: u16 where "Code_RESPONSE_CLIENT_LIST \<equiv> 2101"
abbreviation (input) Code_RESPONSE_PUBLIC_KEY :: u16 where "Code_RESPONSE_PUBLIC_KEY \<equiv> 2102"
abbreviation (input) Code_RESPONSE_MESSAGE_SENT :: u16 where "Code_RESPONSE_MESSAGE_SENT \<equiv> 2103"
abbreviation (input) Code_RESPONSE_WAITING_MESSAGES :: u16 where "Code_RESPONSE_WAITING_MESSAGES \<equiv> 2104"
abbreviation (input) Code_ERROR_GENERAL :: u16 where "Code_ERROR_GENERAL \<equiv> 9000"

abbreviation (input) MsgType_REQUEST_SYMMETRIC_KEY :: byte where "MsgType_REQUEST_SYMMETRIC_KEY \<equiv> 1"
abbreviation (input) MsgType_SEND_SYMMETRIC_KEY :: byte where "MsgType_SEND_SYMMETRIC_KEY \<equiv> 2"
abbreviation (input) MsgType_SEND_TEXT :: byte where "MsgType_SEND_TEXT \<equiv> 3"

section \<open>Server: request_handler.py\<close>

abbreviation (input) SRV_SERVER_VERSION :: nat where "SRV_SERVER_VERSION \<equiv> 2"
abbreviation (input) SRV_CLIENT_VERSION :: nat where "SRV_CLIENT_VERSION \<equiv> 1"
abbreviation (input) SRV_HEADER_SIZE :: nat where "SRV_HEADER_SIZE \<equiv> 23"
abbreviation (input) SRV_CODE_OFFSET :: nat where "SRV_CODE_OFFSET \<equiv> 17"
abbreviation (input) SRV_PAYLOAD_SIZE_OFFSET :: nat where "SRV_PAYLOAD_SIZE_OFFSET \<equiv> 19"
abbreviation (input) SRV_VERSION_OFFSET :: nat where "SRV_VERSION_OFFSET \<equiv> 16"
abbreviation (input) SRV_CODE_SIZE :: nat where "SRV_CODE_SIZE \<equiv> 2"
abbreviation (input) SRV_NAME_SIZE :: nat where "SRV_NAME_SIZE \<equiv> 255"
abbreviation (input) SRV_PUBLIC_KEY_SIZE :: nat where "SRV_PUBLIC_KEY_SIZE \<equiv> 160"
abbreviation (input) SRV_CLIENT_ID_SIZE :: nat where "SRV_CLIENT_ID_SIZE \<equiv> 16"
abbreviation (input) SRV_MESSAGE_TYPE_SIZE :: nat where "SRV_MESSAGE_TYPE_SIZE \<equiv> 1"
abbreviation (input) SRV_CONTENT_SIZE :: nat where "SRV_CONTENT_SIZE \<equiv> 4"
abbreviation (input) SRV_MESSAGE_ID :: nat where "SRV_MESSAGE_ID \<equiv> 4"
abbreviation (input) SRV_SYMMETRIC_KEY_REQUEST :: nat where "SRV_SYMMETRIC_KEY_REQUEST \<equiv> 1"
abbreviation (input) SRV_SYMMETRIC_KEY_SEND :: nat where "SRV_SYMMETRIC_KEY_SEND \<equiv> 2"
abbreviation (input) SRV_TEXT_MESSAGE :: nat where "SRV_TEXT_MESSAGE \<equiv> 3"
abbreviation (input) SRV_REQUEST_REGISTER :: nat where "SRV_REQUEST_REGISTER \<equiv> 700"
abbreviation (input) SRV_REQUEST_CLIENTS_LIST :: nat where "SRV_REQUEST_CLIENTS_LIST \<equiv> 701"
abbreviation (input) SRV_REQUEST_PUBLIC_KEY :: nat where "SRV_REQUEST_PUBLIC_KEY \<equiv> 702"
abbreviation (input) SRV_REQUEST_SEND_MESSAGE :: nat where "SRV_REQUEST_SEND_MESSAGE \<equiv> 703"
abbreviation (input) SRV_REQUEST_WAITING_MESSAGES :: nat where "SRV_REQUEST_WAITING_MESSAGES \<equiv> 704"
abbreviation (input) SRV_RESPONSE_REGISTER :: nat where "SRV_RESPONSE_REGISTER \<equiv> 2100"
abbreviation (input) SRV_RESPONSE_CLIENT_LIST :: nat where "SRV_RESPONSE_CLIENT_LIST \<equiv> 2101"
abbreviation (input) SRV_RESPONSE_PUBLIC_KEY :: nat where "SRV_RESPONSE_PUBLIC_KEY \<equiv> 2102"
abbreviation (input) SRV_RESPONSE_MESSAGE_SENT :: nat where "SRV_RESPONSE_MESSAGE_SENT \<equiv> 2103"
abbreviation (input) SRV_RESPONSE_WAITING_MESSAGES :: nat where "SRV_RESPONSE_WAITING_MESSAGES \<equiv> 2104"
abbreviation (input) SRV_ERROR_GENERAL :: nat where "SRV_ERROR_GENERAL \<equiv> 9000"

end
