(* ===== verification/Client_Utilities.thy ===== *)
theory Client_Utilities
  imports Protocol_Constants
begin

text \<open>
  \<^verbatim>\<open>Client/Utilities.cpp\<close>: hexadecimal client ids, little-endian numbers, username checks.
  The lemmas give the round trips of both encodings, what the validators accept, and the
  exact condition under which the readers throw.
\<close>

section \<open>Hexadecimal client ids\<close>

definition toLowerAscii :: "bytes \<Rightarrow> bytes" where
  "toLowerAscii s = map tolower s"

definition isValidHexUUID :: "bytes \<Rightarrow> bool" where
  "isValidHexUUID s \<longleftrightarrow> (if length s \<noteq> UUID_HEX_LENGTH then False else list_all isxdigit s)"

text \<open>The comparison of a \<^verbatim>\<open>char\<close> is signed in the code's build.\<close>

definition hexNibble :: "byte \<Rightarrow> byte" where
  "hexNibble c = (if sint c \<le> 57 then c - 48 else 10 + (c - 97))"

definition uuidHex32ToBytes16 :: "bytes \<Rightarrow> exn + bytes" where
  "uuidHex32ToBytes16 hex32 =
     (if \<not> isValidHexUUID hex32
      then Inl (Logic_error ''uuidHex32ToBytes16: invalid UUID hex string'')
      else let lowered = toLowerAscii hex32
           in Inr (map (\<lambda>i. push_bit 4 (hexNibble (lowered ! (2 * i))) OR hexNibble (lowered ! (2 * i + 1)))
                     [0..<CLIENT_ID_SIZE]))"

definition HEX :: bytes where
  "HEX = lit ''0123456789abcdef''"

definition bytesToHex :: "bytes \<Rightarrow> bytes" where
  "bytesToHex bs =
     concat (map (\<lambda>i. [HEX ! unat (drop_bit 4 (bs ! i) AND 0x0F), HEX ! unat (bs ! i AND 0x0F)])
               [0..<CLIENT_ID_SIZE])"

section \<open>Little-endian numbers\<close>

definition appendUint16LE :: "bytes \<Rightarrow> u16 \<Rightarrow> bytes" where
  "appendUint16LE buf value =
     buf @ [ucast (value AND 0xFF), ucast (drop_bit 8 value AND 0xFF)]"

definition appendUint32LE :: "bytes \<Rightarrow> u32 \<Rightarrow> bytes" where
  "appendUint32LE buf value =
     buf @ [ucast (value AND 0xFF), ucast (drop_bit 8 value AND 0xFF),
            ucast (drop_bit 16 value AND 0xFF), ucast (drop_bit 24 value AND 0xFF)]"

text \<open>The offset is a \<^verbatim>\<open>size_t\<close>: the sum in the check wraps, and an offset just below \<open>2 ^ 64\<close> passes it.
  Whether the four bytes are there is what the reads themselves need.\<close>

definition readUint32LE :: "bytes \<Rightarrow> nat \<Rightarrow> exn + u32" where
  "readUint32LE data offset =
     (if length data < size_add offset UINT32_SIZE then Inl (Runtime_error ''readUint32LE: not enough bytes'')
      else if length data < offset + UINT32_SIZE then Inl Undefined
      else Inr (ucast (data ! offset) OR push_bit 8 (ucast (data ! (offset + 1)))
                OR push_bit 16 (ucast (data ! (offset + 2)))
                OR push_bit 24 (ucast (data ! (offset + 3)))))"

section \<open>Usernames\<close>

definition isValidUsername :: "bytes \<Rightarrow> bool" where
  "isValidUsername name =
     (if name = [] \<or> NAME_SIZE \<le> length name then False else list_all (\<lambda>c. \<not> 127 < c) name)"

section \<open>Lemmas: numbers\<close>

lemma length_appendUint16LE [wire_simps]: "length (appendUint16LE buf v) = length buf + 2"
  by (simp add: appendUint16LE_def)

lemma length_appendUint32LE [wire_simps]: "length (appendUint32LE buf v) = length buf + 4"
  by (simp add: appendUint32LE_def)

lemma appendUint16LE_app: "appendUint16LE buf v = buf @ appendUint16LE [] v"
  by (simp add: appendUint16LE_def)

lemma appendUint32LE_app: "appendUint32LE buf v = buf @ appendUint32LE [] v"
  by (simp add: appendUint32LE_def)

lemma readUint32LE_in_range:
  "off + 4 \<le> length data \<Longrightarrow> readUint32LE data off = Inr (ucast (data ! off) OR push_bit 8 (ucast (data ! (off + 1)))
      OR push_bit 16 (ucast (data ! (off + 2))) OR push_bit 24 (ucast (data ! (off + 3))))"
  by (simp add: readUint32LE_def)

lemma readUint32LE_error_iff:
  "(\<exists>e. readUint32LE data off = Inl e) \<longleftrightarrow> length data < off + 4"
  by (simp add: readUint32LE_def)

lemma readUint32LE_throws:
  "length data < off + 4 \<Longrightarrow> off + 4 < 2 ^ 64 \<Longrightarrow> \<exists>m. readUint32LE data off = Inl (Runtime_error m)"
  by (simp add: readUint32LE_def size_add_exact)

text \<open>Reading at the boundary of two concatenated buffers.\<close>

lemma readUint32LE_append:
  assumes "length xs = off" and "4 \<le> length ys"
  shows "readUint32LE (xs @ ys) off = readUint32LE ys 0"
proof -
  have nth: "(xs @ ys) ! (off + n) = ys ! n" for n
    using assms nth_append_length_plus [of xs ys n] by simp
  have nth0: "(xs @ ys) ! off = ys ! 0"
    using nth [of 0] by simp
  show ?thesis
    using assms unfolding readUint32LE_def nth nth0 by (simp add: numeral_2_eq_2)
qed

lemma bytes_of_u16:
  "(ucast (ucast (v AND 0xFF) :: byte) OR push_bit 8 (ucast (ucast (drop_bit 8 v AND 0xFF) :: byte)) :: u16) = v"
proof -
  have m: "(0xFF :: u16) = mask 8" by (simp add: mask_eq_exp_minus_1)
  show ?thesis unfolding m
    by (rule bit_word_eqI) (auto simp: bit_simps not_less)
qed

lemma bytes_of_u32:
  "(ucast (ucast (v AND 0xFF) :: byte) OR push_bit 8 (ucast (ucast (drop_bit 8 v AND 0xFF) :: byte))
    OR push_bit 16 (ucast (ucast (drop_bit 16 v AND 0xFF) :: byte))
    OR push_bit 24 (ucast (ucast (drop_bit 24 v AND 0xFF) :: byte)) :: u32) = v"
proof -
  have m: "(0xFF :: u32) = mask 8" by (simp add: mask_eq_exp_minus_1)
  show ?thesis unfolding m
  proof (rule bit_word_eqI)
    fix n assume "n < LENGTH(32)"
    then consider "n < 8" | "8 \<le> n" "n < 16" | "16 \<le> n" "n < 24" | "24 \<le> n" "n < 32"
      by (simp, linarith)
    then show "bit (ucast (ucast (v AND mask 8) :: byte)
        OR push_bit 8 (ucast (ucast (drop_bit 8 v AND mask 8) :: byte))
        OR push_bit 16 (ucast (ucast (drop_bit 16 v AND mask 8) :: byte))
        OR push_bit 24 (ucast (ucast (drop_bit 24 v AND mask 8) :: byte)) :: u32) n = bit v n"
      by cases (simp_all add: bit_simps less_diff_conv2 not_less)
  qed
qed

lemma readUint32LE_appendUint32LE:
  "readUint32LE (appendUint32LE [] v @ rest) 0 = Inr v"
  by (simp add: readUint32LE_def appendUint32LE_def bytes_of_u32)

lemma readUint32LE_at:
  assumes "length xs = off"
  shows "readUint32LE (appendUint32LE xs v @ rest) off = Inr v"
proof -
  have "appendUint32LE xs v @ rest = xs @ (appendUint32LE [] v @ rest)"
    by (simp add: appendUint32LE_def)
  then show ?thesis
    using readUint32LE_append [OF assms] readUint32LE_appendUint32LE by (simp add: length_appendUint32LE)
qed

section \<open>Lemmas: hexadecimal ids\<close>

lemma upt_16: "[0..<16] = [0,1,2,3,4,5,6,7,8,9,10,11,12,13,14,15::nat]"
  by (simp add: upt_rec)

lemma length_16_cases:
  assumes "length (xs :: 'a list) = 16"
  shows "map (\<lambda>i. f (xs ! i)) [0..<16] = map f xs"
  using assms by (intro nth_equalityI) auto

lemma bytesToHex_alt:
  "length bs = 16 \<Longrightarrow>
   bytesToHex bs = concat (map (\<lambda>b. [HEX ! unat (drop_bit 4 b AND 0x0F), HEX ! unat (b AND 0x0F)]) bs)"
  using length_16_cases [of bs "\<lambda>b. [HEX ! unat (drop_bit 4 b AND 0x0F), HEX ! unat (b AND 0x0F)]"]
  by (simp add: bytesToHex_def)

lemma length_concat_pairs: "length (concat (map (\<lambda>b. [f b, g b]) bs)) = 2 * length bs"
  by (induction bs) auto

lemma nth_concat_pairs:
  "i < length bs \<Longrightarrow> concat (map (\<lambda>b. [f b, g b]) bs) ! (2 * i) = f (bs ! i)"
  "i < length bs \<Longrightarrow> concat (map (\<lambda>b. [f b, g b]) bs) ! (2 * i + 1) = g (bs ! i)"
proof (induction bs arbitrary: i)
  case Nil
  {
    case 1 then show ?case by simp
  next
    case 2 then show ?case by simp
  }
next
  case (Cons b bs)
  {
    case 1 with Cons show ?case by (cases i) auto
  next
    case 2 with Cons show ?case by (cases i) auto
  }
qed

lemma length_bytesToHex [simp]: "length (bytesToHex bs) = 32"
  by (simp add: bytesToHex_def upt_16)

text \<open>Facts about one nibble are checked over its sixteen values.\<close>

definition nibbles :: bytes where
  "nibbles = [0, 1, 2, 3, 4, 5, 6, 7, 8, 9, 10, 11, 12, 13, 14, 15]"

lemma nibble_in_nibbles:
  assumes "x \<le> (15 :: byte)"
  shows "x \<in> set nibbles"
proof -
  have "unat x \<le> unat (15 :: byte)" using assms by (simp only: word_le_nat_alt)
  then have "unat x \<in> set [0..<16]" by simp
  then have "(of_nat (unat x) :: byte) \<in> of_nat ` set [0..<16]" by (rule imageI)
  moreover have "(of_nat (unat x) :: byte) = x" by simp
  ultimately have "x \<in> of_nat ` set [0..<16]" by metis
  then show ?thesis by (simp only: upt_16 nibbles_def set_map [symmetric] list.map) simp
qed

lemma low_nibble: "(b :: byte) AND 0x0F \<in> set nibbles"
  by (rule nibble_in_nibbles) (rule word_and_le1)

lemma HEX_nibble_all:
  "\<forall>x \<in> set nibbles.
     hexNibble (HEX ! unat x) = x \<and> isxdigit (HEX ! unat x) \<and> tolower (HEX ! unat x) = HEX ! unat x
     \<and> HEX ! unat x \<noteq> 10 \<and> HEX ! unat x \<noteq> 13"
  by (simp add: nibbles_def HEX_def lit_def hexNibble_def tolower_def isxdigit_def isdigit_def)

lemmas HEX_nibble = HEX_nibble_all [THEN bspec, OF low_nibble]

lemma nibbles_join: "push_bit 4 (drop_bit 4 b AND 0x0F) OR (b AND 0x0F) = (b :: byte)"
proof -
  have m: "(0x0F :: byte) = mask 4" by (simp add: mask_eq_exp_minus_1)
  show ?thesis unfolding m
    by (rule bit_word_eqI) (auto simp: bit_simps not_less)
qed

lemma isValidHexUUID_bytesToHex:
  "length bs = 16 \<Longrightarrow> isValidHexUUID (bytesToHex bs)"
  by (auto simp: isValidHexUUID_def bytesToHex_alt list_all_iff HEX_nibble length_concat_pairs)

lemma uuidHex32ToBytes16_bytesToHex:
  assumes "length bs = 16"
  shows "uuidHex32ToBytes16 (bytesToHex bs) = Inr bs"
proof -
  let ?f = "\<lambda>b. HEX ! unat (drop_bit 4 b AND 0x0F)" and ?g = "\<lambda>b. HEX ! unat (b AND 0x0F)"
  have low: "toLowerAscii (bytesToHex bs) = concat (map (\<lambda>b. [tolower (?f b), tolower (?g b)]) bs)"
    by (simp add: toLowerAscii_def bytesToHex_alt assms map_concat o_def)
  have "map (\<lambda>i. push_bit 4 (hexNibble (toLowerAscii (bytesToHex bs) ! (2 * i))) OR
                 hexNibble (toLowerAscii (bytesToHex bs) ! (2 * i + 1))) [0..<16]
      = map (\<lambda>i. bs ! i) [0..<16]"
  proof (rule map_cong [OF refl])
    fix i assume "i \<in> set [0..<16]"
    then have i: "i < length bs" using assms by simp
    show "push_bit 4 (hexNibble (toLowerAscii (bytesToHex bs) ! (2 * i))) OR
          hexNibble (toLowerAscii (bytesToHex bs) ! (2 * i + 1)) = bs ! i"
      unfolding low nth_concat_pairs [OF i] by (simp only: HEX_nibble nibbles_join)
  qed
  also have "\<dots> = bs" using length_16_cases [OF assms, of "\<lambda>x. x"] by simp
  finally show ?thesis
    by (simp add: uuidHex32ToBytes16_def isValidHexUUID_bytesToHex assms Let_def)
qed

lemma bytesToHex_inj:
  "length a = 16 \<Longrightarrow> length b = 16 \<Longrightarrow> bytesToHex a = bytesToHex b \<longleftrightarrow> a = b"
  using uuidHex32ToBytes16_bytesToHex by (metis sum.inject(2))

lemma bytesToHex_no_newline:
  "length bs = 16 \<Longrightarrow> 10 \<notin> set (bytesToHex bs)"
  using HEX_nibble by (auto simp: bytesToHex_alt eq_commute [of "10"])

lemma uuidHex32ToBytes16_length:
  "uuidHex32ToBytes16 s = Inr bs \<Longrightarrow> length bs = 16"
  by (auto simp: uuidHex32ToBytes16_def Let_def split: if_splits)

lemma isValidUsername_iff:
  "isValidUsername name \<longleftrightarrow> name \<noteq> [] \<and> length name \<le> 254 \<and> (\<forall>c\<in>set name. c \<le> 127)"
  by (auto simp: isValidUsername_def list_all_iff not_less)

end
