(* ===== verification/Std_Map.thy ===== *)
theory Std_Map
  imports MU_Prelude "HOL-Library.List_Lexorder"
begin

text \<open>
  \<^verbatim>\<open>std::map\<close> as the client uses it: lookup by key, access that creates, update of an
  existing value, and iteration in ascending key order. The model is the sequence of
  entries the iteration visits. A client id is a list of bytes, and
  \<^verbatim>\<open>std::array\<close> compares lexicographically, as lists do here.

  The locale states what the client cache needs of an ordered map; it is interpreted on the
  association list.
\<close>

section \<open>Operations\<close>

fun map_find :: "('k::linorder \<times> 'v) list \<Rightarrow> 'k \<Rightarrow> 'v option" where
  "map_find [] k = None"
| "map_find ((a, v) # m) k = (if k = a then Some v else map_find m k)"

fun map_put :: "('k::linorder \<times> 'v) list \<Rightarrow> 'k \<Rightarrow> 'v \<Rightarrow> ('k \<times> 'v) list" where
  "map_put [] k x = [(k, x)]"
| "map_put ((a, v) # m) k x =
     (if k < a then (k, x) # (a, v) # m
      else if k = a then (k, x) # m
      else (a, v) # map_put m k x)"

definition map_ok :: "('k::linorder \<times> 'v) list \<Rightarrow> bool" where
  "map_ok m \<longleftrightarrow> sorted_wrt (<) (map fst m)"

section \<open>The interface of an ordered map\<close>

locale ordered_map =
  fixes find :: "'m \<Rightarrow> 'k::linorder \<Rightarrow> 'v option"
    and put :: "'m \<Rightarrow> 'k \<Rightarrow> 'v \<Rightarrow> 'm"
    and entries :: "'m \<Rightarrow> ('k \<times> 'v) list"
    and ok :: "'m \<Rightarrow> bool"
  assumes find_put: "ok m \<Longrightarrow> find (put m k x) j = (if j = k then Some x else find m j)"
    and ok_put: "ok m \<Longrightarrow> ok (put m k x)"
    and find_entries: "ok m \<Longrightarrow> find m k = Some x \<longleftrightarrow> (k, x) \<in> set (entries m)"
    and entries_sorted: "ok m \<Longrightarrow> sorted_wrt (<) (map fst (entries m))"
begin

lemma find_put_same: "ok m \<Longrightarrow> find (put m k x) k = Some x"
  by (simp add: find_put)

lemma find_put_other: "ok m \<Longrightarrow> j \<noteq> k \<Longrightarrow> find (put m k x) j = find m j"
  by (simp add: find_put)

lemma put_put: "ok m \<Longrightarrow> find (put (put m k x) k y) j = find (put m k y) j"
  by (simp add: find_put ok_put)

text \<open>Only the updated key can change the set of entries.\<close>

lemma entries_put:
  "ok m \<Longrightarrow> set (entries (put m k x)) = {(k, x)} \<union> {e \<in> set (entries m). fst e \<noteq> k}"
  by (auto simp: find_entries [symmetric] ok_put find_put split: if_splits)

lemma ball_entries_put:
  "ok m \<Longrightarrow> \<forall>e\<in>set (entries m). P e \<Longrightarrow> P (k, x) \<Longrightarrow> \<forall>e\<in>set (entries (put m k x)). P e"
  by (auto simp: entries_put)

text \<open>A linear search in iteration order finds an entry with the least matching key.\<close>

lemma search_Some:
  assumes "ok m" and "List.find (\<lambda>e. P (snd e)) (entries m) = Some (k, x)"
  shows "find m k = Some x" and "P x" and "find m j = Some y \<Longrightarrow> P y \<Longrightarrow> k \<le> j"
proof -
  from assms(2) obtain i where i: "i < length (entries m)" "P x" "(k, x) = entries m ! i"
    and before: "\<forall>n<i. \<not> P (snd (entries m ! n))"
    unfolding find_Some_iff by (metis snd_conv)
  from i show "find m k = Some x"
    by (metis assms(1) find_entries nth_mem)
  from i show "P x" by simp
  assume "find m j = Some y" "P y"
  then have "(j, y) \<in> set (entries m)"
    using assms(1) by (simp add: find_entries)
  then obtain n where n: "n < length (entries m)" "entries m ! n = (j, y)"
    by (auto simp: in_set_conv_nth)
  with before \<open>P y\<close> have "i \<le> n" by (metis not_less snd_conv)
  show "k \<le> j"
  proof (cases "i = n")
    case True
    with i n show ?thesis by simp
  next
    case False
    with \<open>i \<le> n\<close> have "i < n" by simp
    with sorted_wrt_nth_less [OF entries_sorted [OF assms(1)], of i n] n
    have "map fst (entries m) ! i < map fst (entries m) ! n" by simp
    with i n show ?thesis by (metis fst_conv less_imp_le nth_map)
  qed
qed

lemma search_None:
  "ok m \<Longrightarrow> List.find (\<lambda>e. P (snd e)) (entries m) = None \<longleftrightarrow> (\<forall>k x. find m k = Some x \<longrightarrow> \<not> P x)"
  by (auto simp: find_None_iff find_entries)

end

section \<open>The association list provides it\<close>

lemma map_find_Some: "map_ok m \<Longrightarrow> map_find m k = Some x \<longleftrightarrow> (k, x) \<in> set m"
  by (induction m k rule: map_find.induct) (auto simp: map_ok_def)

lemma map_find_put:
  "map_find (map_put m k x) j = (if j = k then Some x else map_find m j)"
  by (induction m k x rule: map_put.induct) auto

lemma keys_map_put: "set (map fst (map_put m k x)) = insert k (set (map fst m))"
  by (induction m k x rule: map_put.induct) auto

lemma map_ok_put: "map_ok m \<Longrightarrow> map_ok (map_put m k x)"
proof (induction m k x rule: map_put.induct)
  case (1 k x)
  then show ?case by (simp add: map_ok_def)
next
  case (2 a v m k x)
  have "set (map fst (map_put m k x)) = insert k (set (map fst m))"
    by (rule keys_map_put)
  with 2 show ?case
    by (fastforce simp: map_ok_def)
qed

interpretation sm: ordered_map map_find map_put "\<lambda>m. m" map_ok
  by unfold_locales (simp_all add: map_find_put map_ok_put map_find_Some, simp add: map_ok_def)

lemma map_ok_Nil [simp]: "map_ok []"
  by (simp add: map_ok_def)

end
