(* ===== verification/Client_Context.thy ===== *)
theory Client_Context
  imports Client_Utilities Std_Map
begin

text \<open>
  \<^verbatim>\<open>Client/ClientContext.h\<close> and \<^verbatim>\<open>ClientContext.cpp\<close>: the client's identity and its cache
  of other clients. Every method holds \<^verbatim>\<open>_friendsMutex\<close> for its whole body, so each is one
  atomic step on the cache; the model leaves the lock out.

  \<open>ctx_wf\<close> is the type of the C++ object (the array lengths, the order of the map) together
  with the link between a key of the map and the id stored in its value. The locale
  \<open>key_cache\<close> is the contract the response handlers rely on; it holds for public and for
  symmetric keys.
\<close>

section \<open>State\<close>

record friend_info =
  friendID :: bytes
  friendName :: bytes
  publicKey :: "bytes option"
  symmetricKey :: "bytes option"

record client_ctx =
  clientID :: bytes
  userName :: bytes
  privateKey :: bytes
  friends :: "(bytes \<times> friend_info) list"

definition default_friend :: friend_info where
  "default_friend = \<lparr>friendID = replicate CLIENT_ID_SIZE 0, friendName = [], publicKey = None, symmetricKey = None\<rparr>"

definition init_ctx :: client_ctx where
  "init_ctx = \<lparr>clientID = replicate CLIENT_ID_SIZE 0, userName = [], privateKey = [], friends = []\<rparr>"

section \<open>Operations\<close>

definition setClientID :: "bytes \<Rightarrow> client_ctx \<Rightarrow> client_ctx" where
  "setClientID cid c = c\<lparr>clientID := cid\<rparr>"

definition hasClientID :: "client_ctx \<Rightarrow> bool" where
  "hasClientID c \<longleftrightarrow> list_ex (\<lambda>b. b \<noteq> 0) (clientID c)"

definition setName :: "bytes \<Rightarrow> client_ctx \<Rightarrow> client_ctx" where
  "setName n c = c\<lparr>userName := n\<rparr>"

definition setPrivateKey :: "bytes \<Rightarrow> client_ctx \<Rightarrow> client_ctx" where
  "setPrivateKey k c = c\<lparr>privateKey := k\<rparr>"

text \<open>\<^verbatim>\<open>_friends[uuid]\<close> default-constructs the entry when there is none.\<close>

definition setFriendBase :: "bytes \<Rightarrow> bytes \<Rightarrow> client_ctx \<Rightarrow> client_ctx" where
  "setFriendBase uuid nm c =
     (let f = (case map_find (friends c) uuid of None \<Rightarrow> default_friend | Some f \<Rightarrow> f)
      in c\<lparr>friends := map_put (friends c) uuid (f\<lparr>friendID := uuid, friendName := nm\<rparr>)\<rparr>)"

definition tryGetFriendCopy :: "client_ctx \<Rightarrow> bytes \<Rightarrow> friend_info option" where
  "tryGetFriendCopy c uuid = map_find (friends c) uuid"

definition tryGetFriendIdByName :: "client_ctx \<Rightarrow> bytes \<Rightarrow> bytes option" where
  "tryGetFriendIdByName c targetName =
     map_option (\<lambda>kv. friendID (snd kv)) (List.find (\<lambda>kv. friendName (snd kv) = targetName) (friends c))"

definition setFriendPublicKey :: "bytes \<Rightarrow> bytes \<Rightarrow> client_ctx \<Rightarrow> client_ctx" where
  "setFriendPublicKey uuid pubKey c =
     (case map_find (friends c) uuid of
        None \<Rightarrow> c
      | Some f \<Rightarrow> c\<lparr>friends := map_put (friends c) uuid (f\<lparr>publicKey := Some pubKey\<rparr>)\<rparr>)"

definition setFriendSymmetricKey :: "bytes \<Rightarrow> bytes \<Rightarrow> client_ctx \<Rightarrow> client_ctx" where
  "setFriendSymmetricKey uuid symKey c =
     (case map_find (friends c) uuid of
        None \<Rightarrow> c
      | Some f \<Rightarrow> c\<lparr>friends := map_put (friends c) uuid (f\<lparr>symmetricKey := Some symKey\<rparr>)\<rparr>)"

definition canSendText :: "client_ctx \<Rightarrow> bytes \<Rightarrow> bool" where
  "canSendText c uuid = (case map_find (friends c) uuid of None \<Rightarrow> False | Some f \<Rightarrow> symmetricKey f \<noteq> None)"

definition canSendSymmetricKey :: "client_ctx \<Rightarrow> bytes \<Rightarrow> bool" where
  "canSendSymmetricKey c uuid = (case map_find (friends c) uuid of None \<Rightarrow> False | Some f \<Rightarrow> publicKey f \<noteq> None)"

lemmas ctx_defs = setClientID_def setName_def setPrivateKey_def setFriendBase_def
  tryGetFriendCopy_def setFriendPublicKey_def setFriendSymmetricKey_def

section \<open>Well-formedness\<close>

definition opt_len :: "nat \<Rightarrow> bytes option \<Rightarrow> bool" where
  "opt_len n k = (case k of None \<Rightarrow> True | Some b \<Rightarrow> length b = n)"

definition friend_wf :: "bytes \<times> friend_info \<Rightarrow> bool" where
  "friend_wf e \<longleftrightarrow> friendID (snd e) = fst e \<and> length (fst e) = CLIENT_ID_SIZE
     \<and> opt_len PUBLIC_KEY_SIZE (publicKey (snd e)) \<and> opt_len SYMMETRIC_KEY_SIZE (symmetricKey (snd e))"

definition ctx_wf :: "client_ctx \<Rightarrow> bool" where
  "ctx_wf c \<longleftrightarrow> length (clientID c) = CLIENT_ID_SIZE \<and> map_ok (friends c) \<and> list_all friend_wf (friends c)"

text \<open>What no operation of the client ever undoes: an entry of the cache stays, and so do
  the keys in it.\<close>

definition keeps_friends :: "client_ctx \<Rightarrow> client_ctx \<Rightarrow> bool" where
  "keeps_friends c d \<longleftrightarrow>
     (\<forall>k f. tryGetFriendCopy c k = Some f \<longrightarrow>
        (\<exists>g. tryGetFriendCopy d k = Some g \<and> (publicKey f \<noteq> None \<longrightarrow> publicKey g \<noteq> None)
             \<and> (symmetricKey f \<noteq> None \<longrightarrow> symmetricKey g \<noteq> None)))"

lemma opt_len_simps [simp]: "opt_len n None" "opt_len n (Some b) \<longleftrightarrow> length b = n"
  by (simp_all add: opt_len_def)

lemma ctx_wfD:
  assumes "ctx_wf c"
  shows "length (clientID c) = 16" and "map_ok (friends c)"
    and "map_find (friends c) k = Some f \<Longrightarrow> friend_wf (k, f)"
  using assms by (auto simp: ctx_wf_def map_find_Some list_all_iff)

lemma ctx_wf_init: "ctx_wf init_ctx"
  by (simp add: ctx_wf_def init_ctx_def)

lemma ctx_wf_put:
  assumes "ctx_wf c" and "friend_wf (k, f)"
  shows "ctx_wf (c\<lparr>friends := map_put (friends c) k f\<rparr>)"
  using assms sm.ball_entries_put [of "friends c" friend_wf k f]
  by (simp add: ctx_wf_def map_ok_put list_all_iff)

lemma ctx_wf_simple [ctx_simps]:
  "ctx_wf (setName n c) = ctx_wf c" "ctx_wf (setPrivateKey p c) = ctx_wf c"
  "ctx_wf c \<Longrightarrow> length i = 16 \<Longrightarrow> ctx_wf (setClientID i c)"
  by (simp_all add: ctx_wf_def ctx_defs)

lemma ctx_wf_setFriendBase:
  "ctx_wf c \<Longrightarrow> length k = 16 \<Longrightarrow> ctx_wf (setFriendBase k n c)"
  unfolding setFriendBase_def Let_def
  by (rule ctx_wf_put, assumption)
     (auto simp: friend_wf_def default_friend_def split: option.split dest: ctx_wfD(3))

lemma ctx_wf_setFriendPublicKey:
  "ctx_wf c \<Longrightarrow> length p = 160 \<Longrightarrow> ctx_wf (setFriendPublicKey k p c)"
  unfolding setFriendPublicKey_def
  by (auto split: option.split intro!: ctx_wf_put simp: friend_wf_def dest: ctx_wfD(3))

lemma ctx_wf_setFriendSymmetricKey:
  "ctx_wf c \<Longrightarrow> length p = 16 \<Longrightarrow> ctx_wf (setFriendSymmetricKey k p c)"
  unfolding setFriendSymmetricKey_def
  by (auto split: option.split intro!: ctx_wf_put simp: friend_wf_def dest: ctx_wfD(3))

section \<open>Reads after updates\<close>

lemma identity_simps [ctx_simps]:
  "clientID (setFriendBase k n c) = clientID c" "userName (setFriendBase k n c) = userName c"
  "privateKey (setFriendBase k n c) = privateKey c"
  "clientID (setFriendPublicKey k p c) = clientID c" "userName (setFriendPublicKey k p c) = userName c"
  "privateKey (setFriendPublicKey k p c) = privateKey c"
  "clientID (setFriendSymmetricKey k p c) = clientID c" "userName (setFriendSymmetricKey k p c) = userName c"
  "privateKey (setFriendSymmetricKey k p c) = privateKey c"
  "clientID (setClientID i c) = i" "clientID (setName n c) = clientID c" "clientID (setPrivateKey s c) = clientID c"
  "userName (setClientID i c) = userName c" "userName (setName n c) = n" "userName (setPrivateKey s c) = userName c"
  "privateKey (setClientID i c) = privateKey c" "privateKey (setName n c) = privateKey c"
  "privateKey (setPrivateKey s c) = s"
  by (simp_all add: ctx_defs Let_def split: option.split)

lemma tryGet_identity [ctx_simps]:
  "tryGetFriendCopy (setClientID i c) k = tryGetFriendCopy c k"
  "tryGetFriendCopy (setName n c) k = tryGetFriendCopy c k"
  "tryGetFriendCopy (setPrivateKey s c) k = tryGetFriendCopy c k"
  by (simp_all add: ctx_defs)

lemma tryGet_setFriendBase [ctx_simps]:
  "tryGetFriendCopy (setFriendBase k n c) j =
     (if j = k then Some ((case tryGetFriendCopy c k of None \<Rightarrow> default_friend | Some f \<Rightarrow> f)\<lparr>friendID := k, friendName := n\<rparr>)
      else tryGetFriendCopy c j)"
  by (simp add: ctx_defs Let_def map_find_put)

lemma tryGet_setFriendPublicKey [ctx_simps]:
  "tryGetFriendCopy (setFriendPublicKey k p c) j =
     (if j = k then map_option (\<lambda>f. f\<lparr>publicKey := Some p\<rparr>) (tryGetFriendCopy c k) else tryGetFriendCopy c j)"
  by (simp add: ctx_defs map_find_put split: option.split)

lemma tryGet_setFriendSymmetricKey [ctx_simps]:
  "tryGetFriendCopy (setFriendSymmetricKey k p c) j =
     (if j = k then map_option (\<lambda>f. f\<lparr>symmetricKey := Some p\<rparr>) (tryGetFriendCopy c k) else tryGetFriendCopy c j)"
  by (simp add: ctx_defs map_find_put split: option.split)

lemma hasClientID_iff: "hasClientID c \<longleftrightarrow> clientID c \<noteq> replicate (length (clientID c)) 0"
  by (auto simp: hasClientID_def list_ex_iff) (metis in_set_replicate, metis replicate_eqI)

section \<open>The search by name\<close>

text \<open>The id the search returns belongs to an entry of that name, and to the least such id.\<close>

lemma tryGetFriendIdByName_Some:
  assumes "ctx_wf c" and "tryGetFriendIdByName c n = Some k"
  shows "\<exists>f. tryGetFriendCopy c k = Some f \<and> friendName f = n \<and> length k = 16
           \<and> (\<forall>j g. tryGetFriendCopy c j = Some g \<longrightarrow> friendName g = n \<longrightarrow> k \<le> j)"
proof -
  note ok = ctx_wfD(2) [OF assms(1)]
  from assms(2) obtain a f where e: "List.find (\<lambda>kv. friendName (snd kv) = n) (friends c) = Some (a, f)"
    and k: "k = friendID f"
    by (auto simp: tryGetFriendIdByName_def)
  note found = sm.search_Some [where P = "\<lambda>f. friendName f = n", OF ok e]
  from found(1) assms(1) have "friend_wf (a, f)" by (rule ctx_wfD(3) [rotated])
  then have "k = a" "length k = 16" using k by (simp_all add: friend_wf_def)
  with found show ?thesis by (auto simp: tryGetFriendCopy_def)
qed

lemma tryGetFriendIdByName_None:
  "ctx_wf c \<Longrightarrow> tryGetFriendIdByName c n = None \<longleftrightarrow>
     (\<forall>k f. tryGetFriendCopy c k = Some f \<longrightarrow> friendName f \<noteq> n)"
  using sm.search_None [where P = "\<lambda>f. friendName f = n", OF ctx_wfD(2)]
  by (simp add: tryGetFriendIdByName_def tryGetFriendCopy_def)

section \<open>The contract of the key cache\<close>

locale key_cache =
  fixes get :: "'c \<Rightarrow> bytes \<Rightarrow> 'f option"
    and base :: "bytes \<Rightarrow> bytes \<Rightarrow> 'c \<Rightarrow> 'c"
    and put_key :: "bytes \<Rightarrow> bytes \<Rightarrow> 'c \<Rightarrow> 'c"
    and key_of :: "'f \<Rightarrow> bytes option"
    and name_of :: "'f \<Rightarrow> bytes"
    and wf :: "'c \<Rightarrow> bool"
    and key_len :: nat
  assumes get_base_other: "j \<noteq> k \<Longrightarrow> get (base k n c) j = get c j"
    and get_base_new: "get c k = None \<Longrightarrow> \<exists>f. get (base k n c) k = Some f \<and> name_of f = n \<and> key_of f = None"
    and get_put_other: "j \<noteq> k \<Longrightarrow> get (put_key k x c) j = get c j"
    and get_put_same: "get c k = Some f \<Longrightarrow> \<exists>g. get (put_key k x c) k = Some g \<and> key_of g = Some x \<and> name_of g = name_of f"
    and put_absent: "get c k = None \<Longrightarrow> put_key k x c = c"
    and wf_base: "wf c \<Longrightarrow> length k = CLIENT_ID_SIZE \<Longrightarrow> wf (base k n c)"
    and wf_put: "wf c \<Longrightarrow> length x = key_len \<Longrightarrow> wf (put_key k x c)"
begin

text \<open>The handlers create a nameless entry when there is none, then store the key. The key is
  then present, a known name is kept, and no other entry changes.\<close>

lemma store_key:
  assumes "d = put_key k x (if get c k = None then base k [] c else c)"
  shows "\<exists>g. get d k = Some g \<and> key_of g = Some x
           \<and> name_of g = (case get c k of None \<Rightarrow> [] | Some f \<Rightarrow> name_of f)"
    and "j \<noteq> k \<Longrightarrow> get d j = get c j"
proof -
  show "\<exists>g. get d k = Some g \<and> key_of g = Some x
           \<and> name_of g = (case get c k of None \<Rightarrow> [] | Some f \<Rightarrow> name_of f)"
  proof (cases "get c k")
    case None
    then obtain f where "get (base k [] c) k = Some f" "name_of f = []"
      using get_base_new [OF None] by blast
    with None show ?thesis using get_put_same [of "base k [] c" k f x] assms by auto
  next
    case (Some f)
    then show ?thesis using get_put_same [OF Some, of x] assms by auto
  qed
  show "j \<noteq> k \<Longrightarrow> get d j = get c j"
    using assms by (auto simp: get_put_other get_base_other)
qed

lemma store_key_wf:
  "wf c \<Longrightarrow> length k = CLIENT_ID_SIZE \<Longrightarrow> length x = key_len \<Longrightarrow>
   wf (put_key k x (if get c k = None then base k [] c else c))"
  by (simp add: wf_put wf_base)

end

lemma put_key_absent [ctx_simps]:
  "tryGetFriendCopy c k = None \<Longrightarrow> setFriendPublicKey k x c = c"
  "tryGetFriendCopy c k = None \<Longrightarrow> setFriendSymmetricKey k x c = c"
  by (simp_all add: ctx_defs)

interpretation pk: key_cache tryGetFriendCopy setFriendBase setFriendPublicKey publicKey friendName ctx_wf PUBLIC_KEY_SIZE
  by unfold_locales
    (auto simp: ctx_simps default_friend_def ctx_wf_setFriendBase ctx_wf_setFriendPublicKey)

interpretation sk: key_cache tryGetFriendCopy setFriendBase setFriendSymmetricKey symmetricKey friendName ctx_wf SYMMETRIC_KEY_SIZE
  by unfold_locales
    (auto simp: ctx_simps default_friend_def ctx_wf_setFriendBase ctx_wf_setFriendSymmetricKey)

section \<open>Entries and keys are never lost\<close>

lemma keeps_friends_refl [intro, simp]: "keeps_friends c c"
  by (auto simp: keeps_friends_def)

lemma keeps_friends_trans: "keeps_friends a b \<Longrightarrow> keeps_friends b c \<Longrightarrow> keeps_friends a c"
  unfolding keeps_friends_def by meson

lemma keeps_friends_ops [intro, simp]:
  "keeps_friends c (setClientID i c)" "keeps_friends c (setName n c)" "keeps_friends c (setPrivateKey s c)"
  "keeps_friends c (setFriendBase k n c)" "keeps_friends c (setFriendPublicKey k p c)"
  "keeps_friends c (setFriendSymmetricKey k p c)"
  by (auto simp: keeps_friends_def tryGet_identity tryGet_setFriendBase tryGet_setFriendPublicKey
      tryGet_setFriendSymmetricKey)

lemma keeps_friends_known:
  assumes "keeps_friends c d" and "tryGetFriendCopy c k \<noteq> None"
  shows "tryGetFriendCopy d k \<noteq> None"
proof -
  from assms(2) obtain f where "tryGetFriendCopy c k = Some f" by blast
  with assms(1) obtain g where "tryGetFriendCopy d k = Some g"
    unfolding keeps_friends_def by meson
  then show ?thesis by simp
qed

end
