(* ===== verification/Crypto_Wrappers.thy ===== *)
theory Crypto_Wrappers
  imports Client_Utilities
begin

text \<open>
  \<^verbatim>\<open>Client/AESWrapper.cpp\<close>, \<^verbatim>\<open>RSAWrapper.cpp\<close> and \<^verbatim>\<open>Base64Wrapper.cpp\<close>. Crypto++ and the
  processor's random numbers are not part of the repository: they are the fields of the
  record \<open>crypto\<close>, an argument of every definition that reaches them. \<open>'sk\<close> and \<open>'pk\<close> are
  Crypto++'s private and public key objects. \<open>rdrand32\<close> and the first argument of
  \<open>rsa_generate\<close> and \<open>oaep_encrypt\<close> read a random source at a given draw.

  \<open>crypto_ok\<close> states the documented behaviour the client relies on.
\<close>

record ('sk, 'pk) crypto =
  rdrand32 :: "nat \<Rightarrow> u32"
  cbc_encrypt :: "bytes \<Rightarrow> bytes \<Rightarrow> bytes \<Rightarrow> bytes"
  cbc_decrypt :: "bytes \<Rightarrow> bytes \<Rightarrow> bytes \<Rightarrow> exn + bytes"
  rsa_generate :: "nat \<Rightarrow> 'sk"
  rsa_load_private :: "bytes \<Rightarrow> exn + 'sk"
  rsa_save_private :: "'sk \<Rightarrow> bytes"
  rsa_load_public :: "bytes \<Rightarrow> exn + 'pk"
  rsa_save_public :: "'pk \<Rightarrow> bytes"
  rsa_public_of :: "'sk \<Rightarrow> 'pk"
  oaep_encrypt :: "nat \<Rightarrow> 'pk \<Rightarrow> bytes \<Rightarrow> exn + bytes"
  oaep_decrypt :: "'sk \<Rightarrow> bytes \<Rightarrow> exn + bytes"
  base64_encode :: "bytes \<Rightarrow> bytes"
  base64_decode :: "bytes \<Rightarrow> exn + bytes"

section \<open>AESWrapper\<close>

abbreviation (input) AES_DEFAULT_KEYLENGTH :: nat where "AES_DEFAULT_KEYLENGTH \<equiv> 16"

text \<open>The loop of \<^verbatim>\<open>GenerateKey\<close> from index \<open>i\<close>: one 32-bit draw is stored at
  \<^verbatim>\<open>&buffer[i]\<close>, least significant byte first, and \<open>i\<close> advances by 4.\<close>

function GenerateKey :: "(nat \<Rightarrow> u32) \<Rightarrow> nat \<Rightarrow> bytes \<Rightarrow> nat \<Rightarrow> nat \<Rightarrow> bytes" where
  "GenerateKey rd n buffer i len =
     (if i < len
      then GenerateKey rd (Suc n) (take i buffer @ appendUint32LE [] (rd n) @ drop (i + 4) buffer) (i + 4) len
      else buffer)"
  by pat_completeness auto
termination
  by (relation "measure (\<lambda>(rd, n, buffer, i, len). len - i)") auto

declare GenerateKey.simps [simp del]

text \<open>The draws one call makes.\<close>

abbreviation (input) AES_DRAWS :: nat where "AES_DRAWS \<equiv> 4"

definition AESWrapper_random :: "('sk, 'pk) crypto \<Rightarrow> nat \<Rightarrow> bytes \<Rightarrow> bytes" where
  "AESWrapper_random cr n uninit = GenerateKey (rdrand32 cr) n uninit 0 AES_DEFAULT_KEYLENGTH"

definition AESWrapper_key :: "bytes \<Rightarrow> nat \<Rightarrow> exn + bytes" where
  "AESWrapper_key key len =
     (if len \<noteq> AES_DEFAULT_KEYLENGTH then Inl (Length_error ''key length must be 16 bytes'')
      else Inr (take len key))"

definition aes_encrypt :: "('sk, 'pk) crypto \<Rightarrow> bytes \<Rightarrow> bytes \<Rightarrow> bytes" where
  "aes_encrypt cr key plain = cbc_encrypt cr key (replicate 16 0) plain"

definition aes_decrypt :: "('sk, 'pk) crypto \<Rightarrow> bytes \<Rightarrow> bytes \<Rightarrow> exn + bytes" where
  "aes_decrypt cr key cipher = cbc_decrypt cr key (replicate 16 0) cipher"

section \<open>RSAPublicWrapper and RSAPrivateWrapper\<close>

abbreviation (input) RSA_KEYSIZE :: nat where "RSA_KEYSIZE \<equiv> 160"

definition RSAPublicWrapper_load :: "('sk, 'pk) crypto \<Rightarrow> bytes \<Rightarrow> nat \<Rightarrow> exn + 'pk" where
  "RSAPublicWrapper_load cr key len = rsa_load_public cr (take len key)"

definition RSAPublicWrapper_getPublicKey :: "('sk, 'pk) crypto \<Rightarrow> 'pk \<Rightarrow> bytes" where
  "RSAPublicWrapper_getPublicKey cr k = rsa_save_public cr k"

definition RSAPublicWrapper_encrypt :: "('sk, 'pk) crypto \<Rightarrow> nat \<Rightarrow> 'pk \<Rightarrow> bytes \<Rightarrow> nat \<Rightarrow> exn + bytes" where
  "RSAPublicWrapper_encrypt cr n k plain len = oaep_encrypt cr n k (take len plain)"

definition RSAPrivateWrapper_generate :: "('sk, 'pk) crypto \<Rightarrow> nat \<Rightarrow> 'sk" where
  "RSAPrivateWrapper_generate cr n = rsa_generate cr n"

definition RSAPrivateWrapper_load :: "('sk, 'pk) crypto \<Rightarrow> bytes \<Rightarrow> exn + 'sk" where
  "RSAPrivateWrapper_load cr key = rsa_load_private cr key"

definition RSAPrivateWrapper_getPrivateKey :: "('sk, 'pk) crypto \<Rightarrow> 'sk \<Rightarrow> bytes" where
  "RSAPrivateWrapper_getPrivateKey cr k = rsa_save_private cr k"

text \<open>The buffer form writes at most \<^verbatim>\<open>length\<close> bytes over the caller's array.\<close>

definition RSAPrivateWrapper_getPublicKey :: "('sk, 'pk) crypto \<Rightarrow> 'sk \<Rightarrow> bytes \<Rightarrow> nat \<Rightarrow> bytes" where
  "RSAPrivateWrapper_getPublicKey cr k keyout len =
     (let der = take len (rsa_save_public cr (rsa_public_of cr k)) in der @ drop (length der) keyout)"

definition RSAPrivateWrapper_decrypt :: "('sk, 'pk) crypto \<Rightarrow> 'sk \<Rightarrow> bytes \<Rightarrow> exn + bytes" where
  "RSAPrivateWrapper_decrypt cr k cipher = oaep_decrypt cr k cipher"

text \<open>The overloads the client does not call: string arguments instead of a pointer and a length, and
  buffers instead of strings. An \<^verbatim>\<open>ArraySink\<close> drops what does not fit its buffer.\<close>

definition array_sink :: "bytes \<Rightarrow> bytes \<Rightarrow> nat \<Rightarrow> bytes" where
  "array_sink out keyout len = take len out @ drop (length (take len out)) keyout"

definition RSAPublicWrapper_load_string :: "('sk, 'pk) crypto \<Rightarrow> bytes \<Rightarrow> exn + 'pk" where
  "RSAPublicWrapper_load_string cr key = rsa_load_public cr key"

definition RSAPublicWrapper_getPublicKey_buffer :: "('sk, 'pk) crypto \<Rightarrow> 'pk \<Rightarrow> bytes \<Rightarrow> nat \<Rightarrow> bytes" where
  "RSAPublicWrapper_getPublicKey_buffer cr k keyout len = array_sink (rsa_save_public cr k) keyout len"

definition RSAPublicWrapper_encrypt_string :: "('sk, 'pk) crypto \<Rightarrow> nat \<Rightarrow> 'pk \<Rightarrow> bytes \<Rightarrow> exn + bytes" where
  "RSAPublicWrapper_encrypt_string cr n k plain = oaep_encrypt cr n k plain"

definition RSAPrivateWrapper_load_buffer :: "('sk, 'pk) crypto \<Rightarrow> bytes \<Rightarrow> nat \<Rightarrow> exn + 'sk" where
  "RSAPrivateWrapper_load_buffer cr key len = rsa_load_private cr (take len key)"

definition RSAPrivateWrapper_getPrivateKey_buffer :: "('sk, 'pk) crypto \<Rightarrow> 'sk \<Rightarrow> bytes \<Rightarrow> nat \<Rightarrow> bytes" where
  "RSAPrivateWrapper_getPrivateKey_buffer cr k keyout len = array_sink (rsa_save_private cr k) keyout len"

definition RSAPrivateWrapper_getPublicKey_string :: "('sk, 'pk) crypto \<Rightarrow> 'sk \<Rightarrow> bytes" where
  "RSAPrivateWrapper_getPublicKey_string cr k = rsa_save_public cr (rsa_public_of cr k)"

definition RSAPrivateWrapper_decrypt_buffer :: "('sk, 'pk) crypto \<Rightarrow> 'sk \<Rightarrow> bytes \<Rightarrow> nat \<Rightarrow> exn + bytes" where
  "RSAPrivateWrapper_decrypt_buffer cr k cipher len = oaep_decrypt cr k (take len cipher)"

section \<open>Base64Wrapper\<close>

definition Base64Wrapper_encode :: "('sk, 'pk) crypto \<Rightarrow> bytes \<Rightarrow> bytes" where
  "Base64Wrapper_encode cr str = base64_encode cr str"

definition Base64Wrapper_decode :: "('sk, 'pk) crypto \<Rightarrow> bytes \<Rightarrow> exn + bytes" where
  "Base64Wrapper_decode cr str = base64_decode cr str"

section \<open>What the client relies on\<close>

text \<open>CBC with PKCS padding inverts and never gives an empty text. Of the key pairs that the library
  generates - nothing is asked of keys from elsewhere, which the client does not validate - OAEP inverts
  under the matching key and accepts a 16-byte key, saved keys load again, and a saved 1024-bit public
  key has 160 bytes. Lastly, the Base64 decoder ignores the line breaks of the encoder, whose other
  characters are printable.\<close>

definition crypto_ok :: "('sk, 'pk) crypto \<Rightarrow> bool" where
  "crypto_ok cr \<longleftrightarrow>
     (\<forall>k iv m. length k = 16 \<longrightarrow> length iv = 16 \<longrightarrow>
        cbc_decrypt cr k iv (cbc_encrypt cr k iv m) = Inr m \<and> cbc_encrypt cr k iv m \<noteq> [])
   \<and> (\<forall>n j m. length m = 16 \<longrightarrow>
        (\<exists>c. oaep_encrypt cr n (rsa_public_of cr (rsa_generate cr j)) m = Inr c \<and> c \<noteq> []
           \<and> oaep_decrypt cr (rsa_generate cr j) c = Inr m))
   \<and> (\<forall>j. rsa_load_private cr (rsa_save_private cr (rsa_generate cr j)) = Inr (rsa_generate cr j)
         \<and> rsa_save_private cr (rsa_generate cr j) \<noteq> [])
   \<and> (\<forall>n. rsa_load_public cr (rsa_save_public cr (rsa_public_of cr (rsa_generate cr n)))
             = Inr (rsa_public_of cr (rsa_generate cr n))
         \<and> length (rsa_save_public cr (rsa_public_of cr (rsa_generate cr n))) = 160)
   \<and> (\<forall>s. s \<noteq> [] \<longrightarrow> base64_decode cr (filter (\<lambda>c. c \<noteq> 10 \<and> c \<noteq> 13) (base64_encode cr s)) = Inr s
         \<and> filter (\<lambda>c. c \<noteq> 10 \<and> c \<noteq> 13) (base64_encode cr s) \<noteq> [])"

lemma crypto_okD:
  assumes "crypto_ok cr"
  shows "length k = 16 \<Longrightarrow> aes_decrypt cr k (aes_encrypt cr k m) = Inr m"
    and "length k = 16 \<Longrightarrow> aes_encrypt cr k m \<noteq> []"
    and "length m = 16 \<Longrightarrow> \<exists>c. oaep_encrypt cr n (rsa_public_of cr (rsa_generate cr j)) m = Inr c \<and> c \<noteq> []
      \<and> oaep_decrypt cr (rsa_generate cr j) c = Inr m"
    and "rsa_load_private cr (rsa_save_private cr (rsa_generate cr j)) = Inr (rsa_generate cr j)"
    and "rsa_save_private cr (rsa_generate cr j) \<noteq> []"
    and "rsa_load_public cr (rsa_save_public cr (rsa_public_of cr (rsa_generate cr j))) = Inr (rsa_public_of cr (rsa_generate cr j))"
    and "length (rsa_save_public cr (rsa_public_of cr (rsa_generate cr j))) = 160"
    and "s \<noteq> [] \<Longrightarrow> base64_decode cr (filter (\<lambda>c. c \<noteq> 10 \<and> c \<noteq> 13) (base64_encode cr s)) = Inr s"
    and "s \<noteq> [] \<Longrightarrow> filter (\<lambda>c. c \<noteq> 10 \<and> c \<noteq> 13) (base64_encode cr s) \<noteq> []"
  using assms by (simp_all add: crypto_ok_def aes_encrypt_def aes_decrypt_def)

section \<open>Lemmas\<close>

text \<open>One draw extends the written prefix by four bytes; four draws fill the 16 bytes,
  whatever was in the uninitialised buffer.\<close>

lemma GenerateKey_step:
  "i < len \<Longrightarrow> length xs = i \<Longrightarrow>
   GenerateKey rd n (xs @ ys) i len = GenerateKey rd (Suc n) (appendUint32LE xs (rd n) @ drop 4 ys) (i + 4) len"
  by (subst GenerateKey.simps) (simp add: appendUint32LE_def)

lemma GenerateKey_stop: "len \<le> i \<Longrightarrow> GenerateKey rd n buf i len = buf"
  by (subst GenerateKey.simps) simp

lemma GenerateKey_16:
  assumes "length buf = 16"
  shows "GenerateKey rd n buf 0 16 =
    appendUint32LE (appendUint32LE (appendUint32LE (appendUint32LE [] (rd n)) (rd (Suc n))) (rd (Suc (Suc n)))) (rd (Suc (Suc (Suc n))))"
  using GenerateKey_step [of 0 16 "[]" rd n buf] assms
  by (simp add: GenerateKey_step GenerateKey_stop wire_simps)

lemma length_AESWrapper_random: "length buf = 16 \<Longrightarrow> length (AESWrapper_random cr n buf) = 16"
  by (simp add: AESWrapper_random_def GenerateKey_16 wire_simps)

lemma length_RSAPrivateWrapper_getPublicKey:
  "length buf = len \<Longrightarrow> length (RSAPrivateWrapper_getPublicKey cr k buf len) = len"
  by (simp add: RSAPrivateWrapper_getPublicKey_def Let_def)

lemma RSAPrivateWrapper_getPublicKey_full:
  "length buf = len \<Longrightarrow> length (rsa_save_public cr (rsa_public_of cr k)) = len \<Longrightarrow>
   RSAPrivateWrapper_getPublicKey cr k buf len = rsa_save_public cr (rsa_public_of cr k)"
  by (simp add: RSAPrivateWrapper_getPublicKey_def Let_def)

text \<open>The two forms of each operation agree when the length given is that of the data; a buffer that
  is longer than the key keeps its rest.\<close>

lemma array_sink_exact: "length keyout = length out \<Longrightarrow> array_sink out keyout (length out) = out"
  by (simp add: array_sink_def)

lemma array_sink_prefix: "length out \<le> len \<Longrightarrow> array_sink out keyout len = out @ drop (length out) keyout"
  by (simp add: array_sink_def)

lemma RSAPrivateWrapper_getPublicKey_sink:
  "RSAPrivateWrapper_getPublicKey cr k keyout len = array_sink (RSAPrivateWrapper_getPublicKey_string cr k) keyout len"
  by (simp add: RSAPrivateWrapper_getPublicKey_def RSAPrivateWrapper_getPublicKey_string_def array_sink_def Let_def)

lemmas string_forms = RSAPublicWrapper_load_string_def RSAPublicWrapper_encrypt_string_def
  RSAPrivateWrapper_getPublicKey_string_def RSAPrivateWrapper_load_def RSAPublicWrapper_getPublicKey_def
  RSAPrivateWrapper_getPrivateKey_def RSAPrivateWrapper_decrypt_def RSAPrivateWrapper_generate_def

lemmas buffer_forms = RSAPublicWrapper_load_def RSAPublicWrapper_encrypt_def RSAPrivateWrapper_getPublicKey_sink
  RSAPrivateWrapper_load_buffer_def RSAPublicWrapper_getPublicKey_buffer_def RSAPrivateWrapper_getPrivateKey_buffer_def
  RSAPrivateWrapper_decrypt_buffer_def

end
