(* ===== verification/Client_World.thy ===== *)
theory Client_World
  imports Client_Context Crypto_Wrappers
begin

text \<open>
  What a client process can reach: its context, the console, the random source, and the
  files next to the executable. The console is the sequence of bytes written to
  \<^verbatim>\<open>std::cout\<close>; its input is the sequence of lines \<^verbatim>\<open>std::getline\<close> still returns. A write
  of \<^verbatim>\<open>my.info.txt\<close> may stop after some bytes; \<open>my_info_short_write\<close> holds their number and
  whether the stream knows of it when the code asks (a failure at the closing flush comes
  after the question).

  A function of the code that may throw returns \<open>exn + 'a\<close> and the world it left behind:
  an exception does not undo what was done before it.
\<close>

record client_world =
  ctx :: client_ctx
  cout :: bytes
  cin :: "bytes list"
  rng :: nat
  exe_path_len :: nat
  my_info :: "bytes option"
  my_info_open_ok :: bool
  my_info_short_write :: "(nat \<times> bool) option"
  server_info :: "bytes option"

definition init_world :: client_world where
  "init_world = \<lparr>ctx = init_ctx, cout = [], cin = [], rng = 0, exe_path_len = 20, my_info = None,
     my_info_open_ok = True, my_info_short_write = None, server_info = None\<rparr>"

definition say :: "bytes \<Rightarrow> client_world \<Rightarrow> client_world" where
  "say s w = w\<lparr>cout := cout w @ s\<rparr>"

definition upd_ctx :: "(client_ctx \<Rightarrow> client_ctx) \<Rightarrow> client_world \<Rightarrow> client_world" where
  "upd_ctx f w = w\<lparr>ctx := f (ctx w)\<rparr>"

text \<open>The newline \<^verbatim>\<open>\n\<close> and the byte 0x92 the client prints inside \<^verbatim>\<open>can't decrypt message\<close>.\<close>

definition nl :: bytes where
  "nl = [10]"

definition cant_decrypt :: bytes where
  "cant_decrypt = lit ''can'' @ [0x92] @ lit ''t decrypt message'' @ nl"

text \<open>\<^verbatim>\<open>std::hex << std::setw(2) << std::setfill('0')\<close> of every byte.\<close>

definition show_hex_bytes :: "bytes \<Rightarrow> bytes" where
  "show_hex_bytes bs = concat (map (\<lambda>b. [HEX ! unat (drop_bit 4 b AND 0x0F), HEX ! unat (b AND 0x0F)]) bs)"

text \<open>\<^verbatim>\<open>std::getline(std::cin, s)\<close>: the line, or an empty string when the input is exhausted.\<close>

definition cin_getline :: "client_world \<Rightarrow> bool \<times> bytes \<times> client_world" where
  "cin_getline w = (case cin w of [] \<Rightarrow> (False, [], w) | l # ls \<Rightarrow> (True, l, w\<lparr>cin := ls\<rparr>))"

lemma world_simps [simp]:
  "ctx (say s w) = ctx w" "cin (say s w) = cin w" "rng (say s w) = rng w"
  "my_info (say s w) = my_info w" "cout (say s w) = cout w @ s"
  "exe_path_len (say s w) = exe_path_len w" "my_info_open_ok (say s w) = my_info_open_ok w"
  "my_info_short_write (say s w) = my_info_short_write w" "server_info (say s w) = server_info w"
  "ctx (upd_ctx f w) = f (ctx w)" "cin (upd_ctx f w) = cin w" "rng (upd_ctx f w) = rng w"
  "my_info (upd_ctx f w) = my_info w" "cout (upd_ctx f w) = cout w"
  "exe_path_len (upd_ctx f w) = exe_path_len w" "my_info_open_ok (upd_ctx f w) = my_info_open_ok w"
  "my_info_short_write (upd_ctx f w) = my_info_short_write w" "server_info (upd_ctx f w) = server_info w"
  by (simp_all add: say_def upd_ctx_def)

lemma show_hex_bytes_id: "length bs = 16 \<Longrightarrow> show_hex_bytes bs = bytesToHex bs"
  by (simp add: show_hex_bytes_def bytesToHex_alt)

text \<open>What every action of the client keeps: the context stays well-formed and no cached
  entry or key is lost.\<close>

definition world_wf :: "client_world \<Rightarrow> bool" where
  "world_wf w \<longleftrightarrow> ctx_wf (ctx w)"

definition keeps :: "client_world \<Rightarrow> client_world \<Rightarrow> bool" where
  "keeps v w \<longleftrightarrow> (world_wf v \<longrightarrow> world_wf w) \<and> keeps_friends (ctx v) (ctx w)"

lemma keeps_refl [intro, simp]: "keeps w w"
  by (simp add: keeps_def)

lemma keeps_trans: "keeps u v \<Longrightarrow> keeps v w \<Longrightarrow> keeps u w"
  unfolding keeps_def using keeps_friends_trans by metis

lemma keeps_same_ctx: "ctx w = ctx v \<Longrightarrow> keeps v w"
  by (simp add: keeps_def world_wf_def)

lemma keeps_say [intro, simp]: "keeps w (say s w)"
  by (simp add: keeps_same_ctx)

lemma world_wf_say [simp]: "world_wf (say s w) = world_wf w"
  by (simp add: world_wf_def)

section \<open>The contract of a prompt\<close>

text \<open>Two worlds that differ in the console only.\<close>

definition same_but_console :: "client_world \<Rightarrow> client_world \<Rightarrow> bool" where
  "same_but_console v w \<longleftrightarrow> w\<lparr>cin := cin v, cout := cout v\<rparr> = v"

lemma same_but_console_refl [simp]: "same_but_console w w"
  by (simp add: same_but_console_def)

lemma same_but_console_fields:
  assumes "same_but_console v w"
  shows "ctx w = ctx v" and "rng w = rng v" and "my_info w = my_info v" and "exe_path_len w = exe_path_len v"
    and "my_info_open_ok w = my_info_open_ok v" and "my_info_short_write w = my_info_short_write v"
    and "server_info w = server_info v"
  using assms unfolding same_but_console_def by (cases v; cases w; simp)+

lemma same_but_console_trans: "same_but_console u v \<Longrightarrow> same_but_console v w \<Longrightarrow> same_but_console u w"
  unfolding same_but_console_def by (cases u; cases v; cases w; simp)

lemma same_but_console_io [simp]:
  "same_but_console v (say s w) = same_but_console v w" "same_but_console v (w\<lparr>cin := i\<rparr>) = same_but_console v w"
  unfolding same_but_console_def say_def by (cases v; cases w; simp)+

text \<open>The client has two loops that print a prompt and read a line until they like one. On an
  exhausted input \<^verbatim>\<open>std::getline\<close> leaves an empty line, which neither accepts.\<close>

locale prompt_loop =
  fixes run :: "client_world \<Rightarrow> ('r \<times> client_world) option"
    and accept :: "bytes \<Rightarrow> bool"
    and result :: "bytes \<Rightarrow> 'r"
  assumes run_accept: "cin w = l # ls \<Longrightarrow> accept l \<Longrightarrow>
      \<exists>w'. run w = Some (result l, w') \<and> cin w' = ls \<and> same_but_console w w'"
    and run_reject: "cin w = l # ls \<Longrightarrow> \<not> accept l \<Longrightarrow>
      \<exists>v. run w = run v \<and> cin v = ls \<and> same_but_console w v"
    and run_only: "run w = Some r \<Longrightarrow> \<exists>l\<in>set (cin w). accept l"
begin

lemma run_first:
  "cin w = pre @ l # rest \<Longrightarrow> \<forall>k\<in>set pre. \<not> accept k \<Longrightarrow> accept l \<Longrightarrow>
     \<exists>w'. run w = Some (result l, w') \<and> cin w' = rest \<and> same_but_console w w'"
proof (induction pre arbitrary: w)
  case Nil
  then show ?case by (simp add: run_accept)
next
  case (Cons k pre)
  then obtain v where v: "run w = run v" "cin v = pre @ l # rest" "same_but_console w v"
    using run_reject [of w k "pre @ l # rest"] by auto
  with Cons obtain w' where "run v = Some (result l, w')" "cin w' = rest" "same_but_console v w'"
    by fastforce
  with v show ?case using same_but_console_trans by auto
qed

lemma run_None_iff: "run w = None \<longleftrightarrow> (\<forall>l\<in>set (cin w). \<not> accept l)"
proof
  assume none: "run w = None"
  show "\<forall>l\<in>set (cin w). \<not> accept l"
  proof (rule ccontr)
    assume "\<not> ?thesis"
    then have ex: "\<exists>l\<in>set (cin w). accept l" by blast
    obtain pre l rest where split: "cin w = pre @ l # rest" "accept l" "\<forall>k\<in>set pre. \<not> accept k"
      using split_list_first_prop [OF ex] by blast
    from run_first [OF split(1,3,2)] none show False by auto
  qed
next
  assume "\<forall>l\<in>set (cin w). \<not> accept l"
  with run_only [of w] show "run w = None" by (cases "run w") auto
qed

lemma run_Some:
  assumes "run w = Some (r, w')"
  obtains pre l rest where "cin w = pre @ l # rest" and "\<forall>k\<in>set pre. \<not> accept k" and "accept l"
    and "r = result l" and "cin w' = rest" and "same_but_console w w'"
proof -
  obtain pre l rest where split: "cin w = pre @ l # rest" "accept l" "\<forall>k\<in>set pre. \<not> accept k"
    using split_list_first_prop [OF run_only [OF assms]] by blast
  from run_first [OF split(1,3,2)] assms have "r = result l" "cin w' = rest" "same_but_console w w'" by auto
  with split show ?thesis by (intro that)
qed

text \<open>In one equation: the first line that is accepted decides, and the lines up to it are consumed.\<close>

lemma run_find:
  "case run w of
     None \<Rightarrow> List.find accept (cin w) = None
   | Some (r, w') \<Rightarrow> (\<exists>l. List.find accept (cin w) = Some l \<and> r = result l)
       \<and> cin w' = tl (dropWhile (\<lambda>l. \<not> accept l) (cin w)) \<and> same_but_console w w'"
proof (cases "run w")
  case None
  with run_None_iff [of w] show ?thesis by (simp add: find_None_iff)
next
  case (Some p)
  obtain r w' where p: "p = (r, w')" by (cases p)
  obtain pre l rest where l: "cin w = pre @ l # rest" "\<forall>k\<in>set pre. \<not> accept k" "accept l"
    "r = result l" "cin w' = rest" "same_but_console w w'"
    by (rule run_Some [OF Some [unfolded p]])
  have "List.find accept (cin w) = Some l" unfolding l(1) by (rule find_first [OF l(2,3)])
  moreover have "dropWhile (\<lambda>l. \<not> accept l) (cin w) = l # rest"
    unfolding l(1) using l(2,3) by (simp add: dropWhile_append dropWhile_all)
  ultimately show ?thesis using Some p l by simp
qed

end

end
