(* ===== verification/Client_Message.thy ===== *)
theory Client_Message
  imports Client_Utilities
begin

text \<open>
  \<^verbatim>\<open>Client/Message.h\<close> and \<^verbatim>\<open>Message.cpp\<close>: a request and its serialisation. The lemmas locate
  every field of the buffer at the offset the server reads it from.
\<close>

record message =
  m_clientID :: bytes
  m_version :: byte
  m_code :: u16
  m_payload :: bytes

text \<open>The two constructors; the first leaves the payload empty.\<close>

definition Message_no_payload :: "bytes \<Rightarrow> u16 \<Rightarrow> message" where
  "Message_no_payload cid code = \<lparr>m_clientID = cid, m_version = CLIENT_VERSION, m_code = code, m_payload = []\<rparr>"

definition Message_payload :: "bytes \<Rightarrow> u16 \<Rightarrow> bytes \<Rightarrow> message" where
  "Message_payload cid code payload =
     \<lparr>m_clientID = cid, m_version = CLIENT_VERSION, m_code = code, m_payload = payload\<rparr>"

text \<open>The cast of the payload size to 32 bits is \<open>of_nat\<close>, which wraps.\<close>

definition createBuffer :: "message \<Rightarrow> bytes" where
  "createBuffer m =
     (let buffer = [] @ m_clientID m;
          buffer = buffer @ [m_version m];
          buffer = appendUint16LE buffer (m_code m);
          buffer = appendUint32LE buffer (of_nat (length (m_payload m)))
      in buffer @ m_payload m)"

lemma createBuffer_alt:
  "createBuffer m = m_clientID m @ [m_version m] @ appendUint16LE [] (m_code m)
     @ appendUint32LE [] (of_nat (length (m_payload m))) @ m_payload m"
  by (simp add: createBuffer_def Let_def appendUint16LE_def appendUint32LE_def)

lemma length_createBuffer [wire_simps]:
  "length (createBuffer m) = length (m_clientID m) + 7 + length (m_payload m)"
  by (simp add: createBuffer_alt wire_simps)

lemma createBuffer_fields:
  assumes "length (m_clientID m) = 16"
  shows "take 16 (createBuffer m) = m_clientID m"
    and "createBuffer m ! 16 = m_version m"
    and "bslice 17 2 (createBuffer m) = appendUint16LE [] (m_code m)"
    and "bslice 19 4 (createBuffer m) = appendUint32LE [] (of_nat (length (m_payload m)))"
    and "drop 23 (createBuffer m) = m_payload m"
  using assms
  by (simp_all add: createBuffer_alt wire_simps nth_append)

lemma createBuffer_nonempty [simp]: "createBuffer m \<noteq> []"
  by (simp add: createBuffer_alt)

end
