(* ===== verification/Client_Actions.thy ===== *)
theory Client_Actions
  imports Client_World Client_Message
begin

text \<open>
  \<^verbatim>\<open>Client/ClientActions.cpp\<close>: the handlers behind the menu. A handler returns the request to
  send, or the empty buffer when the action is cancelled; key wrappers may throw. The
  prompt for a username repeats until a line is accepted and never ends on an exhausted
  input, so the handlers that prompt return an option: \<open>None\<close> is "does not return".
\<close>

section \<open>The username prompt\<close>

partial_function (option) getValidUsername :: "bytes \<Rightarrow> client_world \<Rightarrow> (bytes \<times> client_world) option" where
  "getValidUsername prompt w =
     (case cin_getline (say prompt w) of (got, nm, w') \<Rightarrow>
      if nm = lit ''0'' then Some (lit ''0'', say (lit ''Name cannot be 0.'' @ nl) w')
      else if \<not> isValidUsername nm
      then getValidUsername prompt (say (lit ''Name must be ASCII only and up to 254 characters.'' @ nl) w')
      else Some (nm, w'))"

definition target_prompt :: bytes where
  "target_prompt = lit ''Please enter target username (0 to cancel): ''"

section \<open>Message contents\<close>

text \<open>The loop that collects the lines of a text message, up to an empty line or the end of
  the input.\<close>

fun text_lines :: "bytes \<Rightarrow> bytes list \<Rightarrow> bytes \<times> bytes list" where
  "text_lines msg [] = (msg, [])"
| "text_lines msg (line # ls) = (if line = [] then (msg, ls) else text_lines (msg @ line @ nl) ls)"

definition handleSendText :: "('sk, 'pk) crypto \<Rightarrow> bytes \<Rightarrow> client_world \<Rightarrow> (exn + bytes) \<times> client_world" where
  "handleSendText cr otherClientID w =
     (let w = say (lit ''Enter your message (empty line to finish):'' @ nl) w in
      case text_lines [] (cin w) of (msg, rest) \<Rightarrow>
      let w = w\<lparr>cin := rest\<rparr> in
      if msg = [] then (Inr [], say (lit ''Empty message. Cancelled.'' @ nl) w)
      else case tryGetFriendCopy (ctx w) otherClientID of
        None \<Rightarrow> (Inr [], say (lit ''User not found. Please request clients list (120) first.'' @ nl) w)
      | Some fr \<Rightarrow>
          (case symmetricKey fr of
             None \<Rightarrow> (Inr [], say (lit ''No symmetric key for this user. Please use 152 first.'' @ nl) w)
           | Some key16 \<Rightarrow>
               (case AESWrapper_key key16 AES_DEFAULT_KEYLENGTH of Inl e \<Rightarrow> (Inl e, w) | Inr aes \<Rightarrow>
                (Inr (aes_encrypt cr aes (take (unat (of_nat (length msg) :: u32)) msg)), w))))"

definition handleSendSymmetricKey :: "('sk, 'pk) crypto \<Rightarrow> bytes \<Rightarrow> client_world \<Rightarrow> (exn + bytes) \<times> client_world" where
  "handleSendSymmetricKey cr otherClientID w =
     (case Option.bind (tryGetFriendCopy (ctx w) otherClientID) publicKey of
        None \<Rightarrow> (Inr [], say (lit ''No public key for this user. Use 130 first.'' @ nl) w)
      | Some pubKey \<Rightarrow>
          let symKey = AESWrapper_random cr (rng w) (replicate 16 0);
              w = w\<lparr>rng := rng w + AES_DRAWS\<rparr>;
              w = upd_ctx (setFriendSymmetricKey otherClientID symKey) w
          in case RSAPublicWrapper_load cr pubKey RSA_KEYSIZE of Inl e \<Rightarrow> (Inl e, w) | Inr pub \<Rightarrow>
             (case RSAPublicWrapper_encrypt cr (rng w) pub symKey SYMMETRIC_KEY_SIZE of
                Inl e \<Rightarrow> (Inl e, w\<lparr>rng := rng w + 1\<rparr>)
              | Inr cipher \<Rightarrow> (Inr cipher, w\<lparr>rng := rng w + 1\<rparr>)))"

section \<open>Requests\<close>

definition handleRegister :: "('sk, 'pk) crypto \<Rightarrow> client_world \<Rightarrow> ((exn + bytes) \<times> client_world) option" where
  "handleRegister cr w =
     (if hasClientID (ctx w) then Some (Inr [], say (lit ''You are already logged in.'' @ nl) w)
      else case getValidUsername (lit ''Please enter your username: '') w of None \<Rightarrow> None | Some (nm, w) \<Rightarrow>
        let w = upd_ctx (setName nm) w;
            n = min (length nm) (NAME_SIZE - 1);
            nameField = take n nm @ drop n (replicate NAME_SIZE 0);
            nameField = nameField[length nm := 0];
            rsaKeys = RSAPrivateWrapper_generate cr (rng w);
            w = w\<lparr>rng := rng w + 1\<rparr>;
            w = upd_ctx (setPrivateKey (RSAPrivateWrapper_getPrivateKey cr rsaKeys)) w;
            pubKey = RSAPrivateWrapper_getPublicKey cr rsaKeys (replicate RSA_KEYSIZE 0) RSA_KEYSIZE
        in Some (Inr (createBuffer (Message_payload (clientID (ctx w)) Code_REQUEST_REGISTER (nameField @ pubKey))), w))"

definition handleClientList :: "client_world \<Rightarrow> bytes" where
  "handleClientList w = createBuffer (Message_no_payload (clientID (ctx w)) Code_REQUEST_CLIENTS_LIST)"

definition handlePublicKey :: "client_world \<Rightarrow> ((exn + bytes) \<times> client_world) option" where
  "handlePublicKey w =
     (case getValidUsername target_prompt w of None \<Rightarrow> None | Some (targetName, w) \<Rightarrow>
      if targetName = lit ''0'' then Some (Inr [], w)
      else case tryGetFriendIdByName (ctx w) targetName of
        None \<Rightarrow> Some (Inr [], say (lit ''User not found in cache. Please request clients list (120) first.'' @ nl) w)
      | Some fid \<Rightarrow> Some (Inr (createBuffer (Message_payload (clientID (ctx w)) Code_REQUEST_PUBLIC_KEY fid)), w))"

definition handleWaitingMessages :: "client_world \<Rightarrow> bytes" where
  "handleWaitingMessages w = createBuffer (Message_no_payload (clientID (ctx w)) Code_REQUEST_WAITING_MESSAGES)"

text \<open>The request of a message action: the target, the type, the size and the content.\<close>

definition message_request :: "client_world \<Rightarrow> bytes \<Rightarrow> byte option \<Rightarrow> bytes \<Rightarrow> bytes" where
  "message_request w otherClientID msgType msgContent =
     (let payload = otherClientID @ (case msgType of None \<Rightarrow> [] | Some t \<Rightarrow> [t]);
          payload = appendUint32LE payload (of_nat (length msgContent));
          payload = payload @ msgContent
      in createBuffer (Message_payload (clientID (ctx w)) Code_REQUEST_ALL_MESSAGES payload))"

definition handleAllMessages ::
    "('sk, 'pk) crypto \<Rightarrow> u16 \<Rightarrow> client_world \<Rightarrow> ((exn + bytes) \<times> client_world) option" where
  "handleAllMessages cr code w =
     (case getValidUsername target_prompt w of None \<Rightarrow> None | Some (targetName, w) \<Rightarrow>
      if targetName = lit ''0'' then Some (Inr [], w)
      else case tryGetFriendIdByName (ctx w) targetName of
        None \<Rightarrow> Some (Inr [], say (lit ''User not found. Please request clients list (120) first.'' @ nl) w)
      | Some otherClientID \<Rightarrow>
          if code = Code_SEND_TEXT
          then (case handleSendText cr otherClientID w of
                  (Inl e, w) \<Rightarrow> Some (Inl e, w)
                | (Inr msgContent, w) \<Rightarrow>
                    if msgContent = [] then Some (Inr [], w)
                    else Some (Inr (message_request w otherClientID (Some MsgType_SEND_TEXT) msgContent), w))
          else if code = Code_REQUEST_SYMMETRIC_KEY
          then Some (Inr (message_request w otherClientID (Some MsgType_REQUEST_SYMMETRIC_KEY) []), w)
          else if code = Code_SEND_SYMMETRIC_KEY
          then (case handleSendSymmetricKey cr otherClientID w of
                  (Inl e, w) \<Rightarrow> Some (Inl e, w)
                | (Inr msgContent, w) \<Rightarrow>
                    if msgContent = [] then Some (Inr [], w)
                    else Some (Inr (message_request w otherClientID (Some MsgType_SEND_SYMMETRIC_KEY) msgContent), w))
          else Some (Inr (message_request w otherClientID None []), w))"

definition handleMenuChoice ::
    "('sk, 'pk) crypto \<Rightarrow> u16 \<Rightarrow> client_world \<Rightarrow> ((exn + bytes) \<times> client_world) option" where
  "handleMenuChoice cr code w =
     (if code = Code_REGISTER then handleRegister cr w
      else if code = Code_CLIENTS_LIST then Some (Inr (handleClientList w), w)
      else if code = Code_PUBLIC_KEY then handlePublicKey w
      else if code = Code_WAITING_MESSAGES then Some (Inr (handleWaitingMessages w), w)
      else if code = Code_SEND_TEXT then handleAllMessages cr Code_SEND_TEXT w
      else if code = Code_REQUEST_SYMMETRIC_KEY then handleAllMessages cr Code_REQUEST_SYMMETRIC_KEY w
      else if code = Code_SEND_SYMMETRIC_KEY then handleAllMessages cr Code_SEND_SYMMETRIC_KEY w
      else Some (Inr [], w))"

section \<open>The prompt returns exactly when a line is accepted\<close>

definition acceptable :: "bytes \<Rightarrow> bool" where
  "acceptable line \<longleftrightarrow> line = lit ''0'' \<or> isValidUsername line"

lemma zero_valid [simp]: "isValidUsername (lit ''0'')"
  by (simp add: isValidUsername_def lit_def)

lemma acceptable_iff: "acceptable line \<longleftrightarrow> isValidUsername line"
  by (auto simp: acceptable_def)

lemma acceptable_fun: "acceptable = isValidUsername"
  by (simp add: fun_eq_iff acceptable_iff)

lemma getValidUsername_Cons:
  "cin w = line # ls \<Longrightarrow>
   getValidUsername prompt w =
     (if line = lit ''0'' then Some (lit ''0'', say (lit ''Name cannot be 0.'' @ nl) (say prompt w\<lparr>cin := ls\<rparr>))
      else if isValidUsername line then Some (line, say prompt w\<lparr>cin := ls\<rparr>)
      else getValidUsername prompt (say (lit ''Name must be ASCII only and up to 254 characters.'' @ nl)
             (say prompt w\<lparr>cin := ls\<rparr>)))"
  by (subst getValidUsername.simps) (simp add: cin_getline_def say_def)

lemma isValidUsername_Nil [simp]: "\<not> isValidUsername []"
  by (simp add: isValidUsername_def)

lemma getValidUsername_returns_only:
  assumes "getValidUsername prompt w = Some r"
  shows "\<exists>line\<in>set (cin w). acceptable line"
proof (rule getValidUsername.raw_induct [where P = "\<lambda>prompt w r. \<exists>line\<in>set (cin w). acceptable line", OF _ assms])
  fix f :: "bytes \<Rightarrow> client_world \<Rightarrow> (bytes \<times> client_world) option" and prompt w r
  assume IH: "\<And>p v s. f p v = Some s \<Longrightarrow> \<exists>line\<in>set (cin v). acceptable line"
    and eq: "(case cin_getline (say prompt w) of (got, nm, w') \<Rightarrow>
      if nm = lit ''0'' then Some (lit ''0'', say (lit ''Name cannot be 0.'' @ nl) w')
      else if \<not> isValidUsername nm
      then f prompt (say (lit ''Name must be ASCII only and up to 254 characters.'' @ nl) w')
      else Some (nm, w')) = Some r"
  show "\<exists>line\<in>set (cin w). acceptable line"
  proof (cases "cin w")
    case Nil
    with eq IH [of prompt "say (lit ''Name must be ASCII only and up to 254 characters.'' @ nl) (say prompt w)" r]
    show ?thesis by (simp add: cin_getline_def lit_def)
  next
    case (Cons line ls)
    show ?thesis
    proof (cases "acceptable line")
      case True
      with Cons show ?thesis by simp
    next
      case False
      let ?v = "say (lit ''Name must be ASCII only and up to 254 characters.'' @ nl) (say prompt w\<lparr>cin := ls\<rparr>)"
      have "f prompt ?v = Some r"
        using eq Cons False by (simp add: cin_getline_def acceptable_def say_def)
      from IH [OF this] Cons show ?thesis by simp
    qed
  qed
qed

interpretation username: prompt_loop "getValidUsername prompt" acceptable id for prompt
proof unfold_locales
  fix w :: client_world and l ls
  assume "cin w = l # ls"
  note step = getValidUsername_Cons [OF this, of prompt]
  show "acceptable l \<Longrightarrow>
      \<exists>w'. getValidUsername prompt w = Some (id l, w') \<and> cin w' = ls \<and> same_but_console w w'"
    unfolding step acceptable_def by auto
  let ?v = "say (lit ''Name must be ASCII only and up to 254 characters.'' @ nl) (say prompt w\<lparr>cin := ls\<rparr>)"
  show "\<not> acceptable l \<Longrightarrow>
      \<exists>v. getValidUsername prompt w = getValidUsername prompt v \<and> cin v = ls \<and> same_but_console w v"
    by (rule exI [of _ ?v]) (simp add: step acceptable_def)
qed (rule getValidUsername_returns_only)

lemma getValidUsername_Some:
  assumes "getValidUsername prompt w = Some (nm, w')"
  shows "isValidUsername nm" and "nm \<in> set (cin w)" and "ctx w' = ctx w" and "rng w' = rng w"
    and "my_info w' = my_info w" and "set (cin w') \<subseteq> set (cin w)"
proof -
  obtain pre l rest where split: "cin w = pre @ l # rest" "acceptable l" "nm = id l" "cin w' = rest"
    and same: "same_but_console w w'"
    using username.run_Some [OF assms] by blast
  from split same_but_console_fields [OF same] show "isValidUsername nm" "nm \<in> set (cin w)" "ctx w' = ctx w"
    "rng w' = rng w" "my_info w' = my_info w" "set (cin w') \<subseteq> set (cin w)"
    by (auto simp: acceptable_iff)
qed

section \<open>Actions keep the world\<close>

lemma keeps_symmetric:
  "length k = 16 \<Longrightarrow> keeps w (upd_ctx (setFriendSymmetricKey cid k) w)"
  by (simp add: keeps_def world_wf_def ctx_wf_setFriendSymmetricKey)

lemma keeps_rng [simp]: "keeps v (w\<lparr>rng := n\<rparr>) = keeps v w"
  by (simp add: keeps_def world_wf_def)

lemma keeps_handleSendText:
  "handleSendText cr o_id w = (r, w') \<Longrightarrow> ctx w' = ctx w"
  by (auto simp: handleSendText_def Let_def split: prod.splits if_splits option.splits sum.splits)

lemma keeps_handleSendSymmetricKey:
  assumes "handleSendSymmetricKey cr o_id w = (r, w')"
  shows "keeps w w'"
proof (cases "Option.bind (tryGetFriendCopy (ctx w) o_id) publicKey")
  case None
  with assms show ?thesis by (auto simp: handleSendSymmetricKey_def)
next
  case (Some pubKey)
  let ?k = "AESWrapper_random cr (rng w) (replicate 16 0)"
  let ?v = "upd_ctx (setFriendSymmetricKey o_id ?k) (w\<lparr>rng := rng w + 4\<rparr>)"
  have "keeps w (w\<lparr>rng := rng w + 4\<rparr>)" by simp
  moreover have "keeps (w\<lparr>rng := rng w + 4\<rparr>) ?v"
    by (rule keeps_symmetric) (simp add: length_AESWrapper_random)
  ultimately have "keeps w ?v" by (rule keeps_trans)
  with assms Some show ?thesis
    by (auto simp: handleSendSymmetricKey_def Let_def split: sum.splits)
qed

text \<open>The world a handler reaches after a prompt has the context of the world before it.\<close>

lemma keeps_prompt:
  "getValidUsername prompt w = Some (nm, v) \<Longrightarrow> keeps v w' \<Longrightarrow> keeps w w'"
  using keeps_trans [OF keeps_same_ctx [OF getValidUsername_Some(3)]] by blast

lemma keeps_handleRegister:
  assumes "handleRegister cr w = Some (r, w')"
  shows "keeps w w'"
proof (cases "hasClientID (ctx w)")
  case True
  with assms show ?thesis by (auto simp: handleRegister_def)
next
  case False
  with assms obtain nm v where g: "getValidUsername (lit ''Please enter your username: '') w = Some (nm, v)"
    by (auto simp: handleRegister_def split: option.splits)
  let ?sk = "rsa_save_private cr (rsa_generate cr (rng v))"
  from assms False g have w': "w' = upd_ctx (setPrivateKey ?sk) ((upd_ctx (setName nm) v)\<lparr>rng := rng v + 1\<rparr>)"
    by (auto simp: handleRegister_def Let_def RSAPrivateWrapper_getPrivateKey_def RSAPrivateWrapper_generate_def)
  have "keeps v w'" unfolding w'
    by (simp add: keeps_def world_wf_def ctx_simps keeps_friends_trans [OF keeps_friends_ops(2) keeps_friends_ops(3)])
  with g show ?thesis by (rule keeps_prompt)
qed

lemma keeps_handlePublicKey:
  assumes "handlePublicKey w = Some (r, w')"
  shows "keeps w w'"
proof -
  from assms obtain nm v where g: "getValidUsername target_prompt w = Some (nm, v)"
    by (auto simp: handlePublicKey_def split: option.splits)
  with assms have "ctx w' = ctx v"
    by (auto simp: handlePublicKey_def split: option.splits if_splits)
  with g show ?thesis by (blast intro: keeps_prompt keeps_same_ctx)
qed

text \<open>A message action either sends nothing, throws, or sends a request for a cached target.\<close>

lemma handleAllMessages_cases:
  assumes "handleAllMessages cr code w = Some (r, w')"
  obtains (nothing) "r = Inr []" "keeps w w'"
  | (throws) e where "r = Inl e" "keeps w w'"
  | (sends) nm v o_id ty content where "getValidUsername target_prompt w = Some (nm, v)" "nm \<noteq> lit ''0''"
      "tryGetFriendIdByName (ctx v) nm = Some o_id" "keeps v w'" "clientID (ctx w') = clientID (ctx v)"
      "r = Inr (message_request w' o_id ty content)"
proof -
  from assms obtain nm v where g: "getValidUsername target_prompt w = Some (nm, v)"
    by (auto simp: handleAllMessages_def split: option.splits)
  note up = keeps_prompt [OF g]
  have cid: "clientID (ctx v') = clientID (ctx v)" if "handleSendSymmetricKey cr o_id v = (x, v')" for o_id x v'
    using that by (auto simp: handleSendSymmetricKey_def Let_def ctx_simps split: option.splits sum.splits)
  show ?thesis
  proof (cases "nm = lit ''0''")
    case True
    with assms g have r: "r = Inr []" and "w' = v" by (auto simp: handleAllMessages_def)
    then have "keeps w w'" using up [of v] by simp
    with r show ?thesis by (rule nothing)
  next
    case no0: False
    show ?thesis
    proof (cases "tryGetFriendIdByName (ctx v) nm")
      case None
      with assms g no0 have r: "r = Inr []"
        and "w' = say (lit ''User not found. Please request clients list (120) first.'' @ nl) v"
        by (auto simp: handleAllMessages_def)
      then have "keeps w w'" using up [OF keeps_say] by simp
      with r show ?thesis by (rule nothing)
    next
      case (Some o_id)
      note base = sends [OF g no0 Some]
      consider "code = 150" | "code = 152" | "code \<noteq> 150" "code \<noteq> 152" by blast
      then show ?thesis
      proof cases
        case 1
        obtain x where h: "handleSendText cr o_id v = (x, w')"
          using assms g no0 Some 1
          by (auto simp: handleAllMessages_def split: sum.splits if_splits prod.splits)
        from keeps_handleSendText [OF h] have k: "keeps v w'" "clientID (ctx w') = clientID (ctx v)"
          by (simp_all add: keeps_same_ctx)
        note up = up [OF k(1)]
        from assms g no0 Some 1 h show ?thesis
          by (auto simp: handleAllMessages_def split: sum.splits if_splits
              intro: throws base k up) (rule nothing, assumption, rule up)
      next
        case 2
        obtain x where h: "handleSendSymmetricKey cr o_id v = (x, w')"
          using assms g no0 Some 2
          by (auto simp: handleAllMessages_def split: sum.splits if_splits prod.splits)
        note k = keeps_handleSendSymmetricKey [OF h] cid [OF h]
        note up = up [OF k(1)]
        from assms g no0 Some 2 h show ?thesis
          by (auto simp: handleAllMessages_def split: sum.splits if_splits
              intro: throws base k up) (rule nothing, assumption, rule up)
      next
        case 3
        with assms g no0 Some show ?thesis
          by (auto simp: handleAllMessages_def split: if_splits intro: base)
      qed
    qed
  qed
qed

lemma keeps_handleAllMessages:
  assumes "handleAllMessages cr code w = Some (r, w')"
  shows "keeps w w'"
  using assms by (cases rule: handleAllMessages_cases) (auto intro: keeps_prompt)

lemma keeps_handleMenuChoice:
  "handleMenuChoice cr code w = Some (r, w') \<Longrightarrow> keeps w w'"
  unfolding handleMenuChoice_def
  by (auto dest: keeps_handleRegister keeps_handlePublicKey keeps_handleAllMessages split: if_split_asm)

section \<open>What an action sends\<close>

text \<open>A serialised request with a full id, of one of the five codes; a message goes to a client
  in the cache.\<close>

definition good_request :: "client_world \<Rightarrow> bytes \<Rightarrow> bool" where
  "good_request w data \<longleftrightarrow>
     (\<exists>m. data = createBuffer m \<and> length (m_clientID m) = 16 \<and> m_version m = 1
        \<and> m_code m \<in> {700, 701, 702, 703, 704}
        \<and> (m_code m = 703 \<longrightarrow> (\<exists>t rest. m_payload m = t @ rest \<and> length t = 16 \<and> tryGetFriendCopy (ctx w) t \<noteq> None)))"

lemma good_request_mono: "good_request v data \<Longrightarrow> keeps v w \<Longrightarrow> good_request w data"
proof -
  assume good: "good_request v data" and k: "keeps v w"
  then have "tryGetFriendCopy (ctx v) t \<noteq> None \<Longrightarrow> tryGetFriendCopy (ctx w) t \<noteq> None" for t
    using keeps_friends_known [of "ctx v" "ctx w" t] by (simp only: keeps_def simp_thms)
  with good show ?thesis unfolding good_request_def by blast
qed

lemma good_requestI:
  assumes "length cid = 16" and "code \<in> {700, 701, 702, 704}"
  shows "good_request w (createBuffer (Message_payload cid code p))"
    and "good_request w (createBuffer (Message_no_payload cid code))"
proof -
  show "good_request w (createBuffer (Message_payload cid code p))"
    unfolding good_request_def
    by (rule exI [of _ "Message_payload cid code p"]) (use assms in \<open>auto simp: Message_payload_def\<close>)
  show "good_request w (createBuffer (Message_no_payload cid code))"
    unfolding good_request_def
    by (rule exI [of _ "Message_no_payload cid code"]) (use assms in \<open>auto simp: Message_no_payload_def\<close>)
qed

lemma world_wf_id: "world_wf w \<Longrightarrow> length (clientID (ctx w)) = 16"
  unfolding world_wf_def by (rule ctx_wfD)

lemma good_handleRegister:
  assumes "world_wf w" and "handleRegister cr w = Some (Inr data, w')" and "data \<noteq> []"
  shows "good_request w' data"
proof -
  from assms(2,3) obtain p where "data = createBuffer (Message_payload (clientID (ctx w')) 700 p)"
    by (auto simp: handleRegister_def Let_def split: if_splits option.splits)
  moreover have "world_wf w'"
    using keeps_handleRegister [OF assms(2)] assms(1) by (simp add: keeps_def)
  ultimately show ?thesis using good_requestI(1) world_wf_id by simp
qed

lemma good_handlePublicKey:
  assumes "world_wf w" and "handlePublicKey w = Some (Inr data, w')" and "data \<noteq> []"
  shows "good_request w' data"
proof -
  from assms(2,3) obtain p where "data = createBuffer (Message_payload (clientID (ctx w')) 702 p)"
    by (auto simp: handlePublicKey_def Let_def split: if_splits option.splits)
  moreover have "world_wf w'"
    using keeps_handlePublicKey [OF assms(2)] assms(1) by (simp add: keeps_def)
  ultimately show ?thesis using good_requestI(1) world_wf_id by simp
qed

lemma good_message_request:
  assumes "world_wf w" and "length o_id = 16" and "tryGetFriendCopy (ctx w) o_id \<noteq> None"
  shows "good_request w (message_request w o_id ty content)"
proof -
  define rest where "rest = appendUint32LE (case ty of None \<Rightarrow> [] | Some t \<Rightarrow> [t]) (of_nat (length content)) @ content"
  let ?m = "Message_payload (clientID (ctx w)) 703 (o_id @ rest)"
  have "message_request w o_id ty content = createBuffer ?m"
    by (simp add: message_request_def Let_def rest_def appendUint32LE_def)
  moreover have "length (m_clientID ?m) = 16" "m_version ?m = 1" "m_code ?m = 703" "m_payload ?m = o_id @ rest"
    using world_wf_id [OF assms(1)] by (simp_all add: Message_payload_def)
  ultimately show ?thesis
    unfolding good_request_def using assms(2,3) by blast
qed

lemma good_handleAllMessages:
  assumes "world_wf w" and "handleAllMessages cr code w = Some (Inr data, w')" and "data \<noteq> []"
  shows "good_request w' data"
  using assms(2)
proof (cases rule: handleAllMessages_cases)
  case (sends nm v o_id ty content)
  have v: "world_wf v"
    using assms(1) getValidUsername_Some(3) [OF sends(1)] by (simp add: world_wf_def)
  then have w': "world_wf w'" using sends(4) by (simp add: keeps_def)
  from v have "ctx_wf (ctx v)" by (simp add: world_wf_def)
  from tryGetFriendIdByName_Some [OF this sends(3)] have o: "length o_id = 16" "tryGetFriendCopy (ctx v) o_id \<noteq> None"
    by auto
  then have "tryGetFriendCopy (ctx w') o_id \<noteq> None"
    using sends(4) keeps_friends_known unfolding keeps_def by blast
  from good_message_request [OF w' o(1) this] sends(6) show ?thesis by simp
qed (use assms in simp_all)

lemma good_handleMenuChoice:
  assumes "world_wf w" and "handleMenuChoice cr code w = Some (Inr data, w')" and "data \<noteq> []"
  shows "good_request w' data"
proof -
  note id = world_wf_id [OF assms(1)]
  have lists: "good_request w (handleClientList w)" "good_request w (handleWaitingMessages w)"
    unfolding handleClientList_def handleWaitingMessages_def using id by (simp_all add: good_requestI)
  from assms(2,3) lists show ?thesis
    unfolding handleMenuChoice_def
    by (auto dest: good_handleRegister [OF assms(1)] good_handlePublicKey [OF assms(1)] good_handleAllMessages [OF assms(1)]
        split: if_split_asm)
qed

end
