(* ===== verification/Client_Files.thy ===== *)
theory Client_Files
  imports Client_World
begin

text \<open>
  \<^verbatim>\<open>Client/FileManager.cpp\<close>: \<^verbatim>\<open>my.info.txt\<close> (name, id in hexadecimal, private key in Base64)
  and \<^verbatim>\<open>server.info.txt\<close> (\<^verbatim>\<open>address:port\<close>). A file is its content as the program reads it in
  text mode. \<^verbatim>\<open>exe_path_len\<close> is what \<^verbatim>\<open>GetModuleFileNameA\<close> returns.
\<close>

section \<open>Text input\<close>

text \<open>\<^verbatim>\<open>std::getline\<close> on the rest of a file: \<open>None\<close> when nothing is left.\<close>

definition file_getline :: "bytes \<Rightarrow> (bytes \<times> bytes) option" where
  "file_getline rest =
     (if rest = [] then None
      else Some (takeWhile (\<lambda>c. c \<noteq> 10) rest, drop 1 (dropWhile (\<lambda>c. c \<noteq> 10) rest)))"

definition dec_value :: "bytes \<Rightarrow> nat" where
  "dec_value = foldl (\<lambda>v c. 10 * v + unat (c - 48)) 0"

text \<open>\<^verbatim>\<open>std::stoi\<close>: white space, a sign, the longest run of digits; it throws without a digit
  and outside the range of \<^verbatim>\<open>int\<close>.\<close>

definition stoi :: "bytes \<Rightarrow> exn + int" where
  "stoi s =
     (let t = dropWhile isspace s;
          neg = (t \<noteq> [] \<and> hd t = 45);
          u = (if t \<noteq> [] \<and> (hd t = 45 \<or> hd t = 43) then tl t else t);
          ds = takeWhile isdigit u;
          v = (if neg then - int (dec_value ds) else int (dec_value ds))
      in if ds = [] then Inl (Invalid_argument ''stoi'')
         else if v < - (2 ^ 31) \<or> 2 ^ 31 \<le> v then Inl (Out_of_range ''stoi'')
         else Inr v)"

text \<open>\<^verbatim>\<open>std::string::find\<close> of one character from a position.\<close>

definition find_from :: "byte \<Rightarrow> bytes \<Rightarrow> nat \<Rightarrow> nat option" where
  "find_from c s start =
     (let n = length (takeWhile (\<lambda>d. d \<noteq> c) (drop start s))
      in if start + n < length s then Some (start + n) else None)"

lemma find_from_Some: "find_from c s start = Some i \<Longrightarrow> start \<le> i \<and> i < length s"
  by (auto simp: find_from_def Let_def split: if_splits)

section \<open>The directory of the executable\<close>

abbreviation (input) MAX_PATH :: nat where "MAX_PATH \<equiv> 260"

definition getExecutableDirectory :: "client_world \<Rightarrow> exn + unit" where
  "getExecutableDirectory w =
     (if exe_path_len w = 0 \<or> exe_path_len w = MAX_PATH
      then Inl (Runtime_error ''Failed to get executable path.'') else Inr ())"

section \<open>my.info.txt\<close>

text \<open>Every early \<^verbatim>\<open>return false\<close> is \<open>(False, w)\<close>, as is the \<^verbatim>\<open>catch (...)\<close>.\<close>

definition validateAndLoadMyInfo :: "('sk, 'pk) crypto \<Rightarrow> bytes \<Rightarrow> client_world \<Rightarrow> bool \<times> client_world" where
  "validateAndLoadMyInfo cr file w =
     (case file_getline file of None \<Rightarrow> (False, w) | Some (nm, file) \<Rightarrow>
      case file_getline file of None \<Rightarrow> (False, w) | Some (clientIdHex, file) \<Rightarrow>
      case file_getline file of None \<Rightarrow> (False, w) | Some (privateKeyBase64, file) \<Rightarrow>
      if \<not> isValidUsername nm then (False, w)
      else if length clientIdHex \<noteq> UUID_HEX_LENGTH then (False, w)
      else if \<not> list_all isxdigit clientIdHex then (False, w)
      else if privateKeyBase64 = [] then (False, w)
      else if file_getline file \<noteq> None then (False, w)
      else case uuidHex32ToBytes16 clientIdHex of Inl e \<Rightarrow> (False, w) | Inr cid \<Rightarrow>
           case Base64Wrapper_decode cr privateKeyBase64 of Inl e \<Rightarrow> (False, w) | Inr privateKeyRaw \<Rightarrow>
           if privateKeyRaw = [] then (False, w)
           else (True, say (lit ''Welcome back '' @ nm @ nl)
                         (upd_ctx (setPrivateKey privateKeyRaw o setClientID cid o setName nm) w)))"

definition loadMyInfo :: "('sk, 'pk) crypto \<Rightarrow> client_world \<Rightarrow> (exn + unit) \<times> client_world" where
  "loadMyInfo cr w =
     (case getExecutableDirectory w of Inl e \<Rightarrow> (Inl e, w) | Inr _ \<Rightarrow>
      case my_info w of
        None \<Rightarrow> (Inr (), say (lit ''my.info file was not found, please register (110) before any use.'' @ nl) w)
      | Some file \<Rightarrow>
          (case validateAndLoadMyInfo cr file w of
             (True, w) \<Rightarrow> (Inr (), w)
           | (False, w) \<Rightarrow> (Inr (), say (lit ''my.info is invalid, please use register (110).'' @ nl) w)))"

definition my_info_text :: "('sk, 'pk) crypto \<Rightarrow> client_ctx \<Rightarrow> bytes" where
  "my_info_text cr c =
     (let privateKeyBase64 = Base64Wrapper_encode cr (privateKey c);
          privateKeyBase64 = filter (\<lambda>b. b \<noteq> 10) privateKeyBase64;
          privateKeyBase64 = filter (\<lambda>b. b \<noteq> 13) privateKeyBase64
      in userName c @ nl @ bytesToHex (clientID c) @ nl @ privateKeyBase64)"

definition saveMyInfo :: "('sk, 'pk) crypto \<Rightarrow> client_world \<Rightarrow> (exn + unit) \<times> client_world" where
  "saveMyInfo cr w =
     (if \<not> hasClientID (ctx w) \<or> userName (ctx w) = [] \<or> privateKey (ctx w) = []
      then (Inr (), say (lit ''Cannot save my.info: client data is incomplete.'' @ nl) w)
      else case getExecutableDirectory w of Inl e \<Rightarrow> (Inl e, w) | Inr _ \<Rightarrow>
      if \<not> my_info_open_ok w then (Inr (), say (lit ''Failed to create my.info file.'' @ nl) w)
      else case my_info_short_write w of
             None \<Rightarrow> (Inr (), w\<lparr>my_info := Some (my_info_text cr (ctx w))\<rparr>)
           | Some (n, seen) \<Rightarrow>
               let w = w\<lparr>my_info := Some (take n (my_info_text cr (ctx w)))\<rparr>
               in (Inr (), if seen then say (lit ''Failed to write my.info file.'' @ nl) w else w))"

section \<open>server.info.txt\<close>

text \<open>The loop over the parts of the address, from \<^verbatim>\<open>start\<close> with \<^verbatim>\<open>dots\<close> seen so far; the
  number of dots at the end, or \<open>None\<close> for \<^verbatim>\<open>return false\<close>.\<close>

function address_loop :: "bytes \<Rightarrow> nat \<Rightarrow> nat \<Rightarrow> nat option" where
  "address_loop addressPart start dots =
     (let e = find_from 46 addressPart start;
          part = (case e of None \<Rightarrow> drop start addressPart | Some i \<Rightarrow> bslice start (i - start) addressPart)
      in if part = [] \<or> 3 < length part then None
         else if \<not> list_all isdigit part then None
         else case stoi part of Inl _ \<Rightarrow> None | Inr value \<Rightarrow>
              if value < 0 \<or> 255 < value then None
              else case e of None \<Rightarrow> Some dots
                   | Some i \<Rightarrow> address_loop addressPart (i + 1) (dots + 1))"
  by pat_completeness auto
termination
  by (relation "measure (\<lambda>(a, start, dots). length a - start)") (auto dest!: find_from_Some sym [of "Some _"])

declare address_loop.simps [simp del]

definition validateAndLoadServerInfo :: "bytes \<Rightarrow> (bytes \<times> u16) option" where
  "validateAndLoadServerInfo file =
     (case file_getline file of None \<Rightarrow> None | Some (line, file) \<Rightarrow>
      if file \<noteq> [] then None
      else case find_from 58 line 0 of None \<Rightarrow> None | Some colonPos \<Rightarrow>
      if find_from 58 line (colonPos + 1) \<noteq> None then None
      else let addressPart = take colonPos line; portPart = drop (colonPos + 1) line in
      if addressPart = [] \<or> portPart = [] then None
      else if \<not> list_all isdigit portPart then None
      else case stoi portPart of Inl _ \<Rightarrow> None | Inr parsedPort \<Rightarrow>
      if parsedPort < 1 \<or> 65535 < parsedPort then None
      else if address_loop addressPart 0 0 \<noteq> Some 3 then None
      else Some (addressPart, of_int parsedPort))"

text \<open>The output parameters are the address and the port, cleared first.\<close>

definition loadServerInfo :: "client_world \<Rightarrow> (exn + bytes \<times> u16) \<times> client_world" where
  "loadServerInfo w =
     (case getExecutableDirectory w of Inl e \<Rightarrow> (Inl e, w) | Inr _ \<Rightarrow>
      case server_info w of
        None \<Rightarrow> (Inr ([], 0), say (lit ''server.info.txt file was not found.'' @ nl) w)
      | Some file \<Rightarrow>
          (case validateAndLoadServerInfo file of
             Some (address, port) \<Rightarrow> (Inr (address, port), w)
           | None \<Rightarrow> (Inr ([], 0), say (lit ''server.info.txt is invalid.'' @ nl) w)))"

section \<open>my.info.txt: what is saved is loaded\<close>

lemma file_getline_line:
  "\<forall>c\<in>set l. c \<noteq> 10 \<Longrightarrow> file_getline (l @ 10 # rest) = Some (l, rest)"
  "\<forall>c\<in>set l. c \<noteq> 10 \<Longrightarrow> l \<noteq> [] \<Longrightarrow> file_getline l = Some (l, [])"
proof -
  assume l: "\<forall>c\<in>set l. c \<noteq> 10"
  then have tw: "takeWhile (\<lambda>c. c \<noteq> 10) l = l" and dw: "dropWhile (\<lambda>c. c \<noteq> 10) l = []"
    by (auto simp: takeWhile_eq_all_conv)
  show "file_getline (l @ 10 # rest) = Some (l, rest)"
    using l by (simp add: file_getline_def takeWhile_append_stop dropWhile_append dw)
  show "l \<noteq> [] \<Longrightarrow> file_getline l = Some (l, [])"
    by (simp only: file_getline_def tw dw) simp
qed

definition ctx_saveable :: "client_ctx \<Rightarrow> bool" where
  "ctx_saveable c \<longleftrightarrow> ctx_wf c \<and> hasClientID c \<and> isValidUsername (userName c)
     \<and> (\<forall>b\<in>set (userName c). b \<noteq> 10) \<and> privateKey c \<noteq> []"

lemma saveMyInfo_text:
  assumes "ctx_saveable (ctx w)" and "getExecutableDirectory w = Inr ()" and "my_info_open_ok w"
    and "my_info_short_write w = None"
  shows "saveMyInfo cr w = (Inr (), w\<lparr>my_info := Some (my_info_text cr (ctx w))\<rparr>)"
  using assms by (simp add: saveMyInfo_def ctx_saveable_def isValidUsername_def split: if_splits)

lemma getExecutableDirectory_upd [simp]:
  "getExecutableDirectory (upd_ctx f w) = getExecutableDirectory w"
  "getExecutableDirectory (say s w) = getExecutableDirectory w"
  by (simp_all add: getExecutableDirectory_def)

lemma saveMyInfo_returns:
  "getExecutableDirectory w = Inr () \<Longrightarrow> fst (saveMyInfo cr w) = Inr ()"
  by (simp add: saveMyInfo_def Let_def split: option.split)

lemma load_my_info_text:
  assumes "crypto_ok cr" and "ctx_saveable c"
  shows "validateAndLoadMyInfo cr (my_info_text cr c) w =
    (True, say (lit ''Welcome back '' @ userName c @ nl)
      (upd_ctx (setPrivateKey (privateKey c) o setClientID (clientID c) o setName (userName c)) w))"
proof -
  have len: "length (clientID c) = 16" and nm: "isValidUsername (userName c)" "\<forall>b\<in>set (userName c). b \<noteq> 10"
    and key: "privateKey c \<noteq> []"
    using assms(2) by (auto simp: ctx_saveable_def ctx_wf_def)
  define b64 where "b64 = filter (\<lambda>b. b \<noteq> 13) (filter (\<lambda>b. b \<noteq> 10) (base64_encode cr (privateKey c)))"
  have b64': "b64 = filter (\<lambda>c. c \<noteq> 10 \<and> c \<noteq> 13) (base64_encode cr (privateKey c))"
    by (simp add: b64_def filter_filter conj_commute)
  have b64: "b64 \<noteq> []" "base64_decode cr b64 = Inr (privateKey c)" "\<forall>b\<in>set b64. b \<noteq> 10"
    using crypto_okD(8,9) [OF assms(1) key] by (auto simp: b64')
  have shape: "my_info_text cr c = userName c @ 10 # bytesToHex (clientID c) @ 10 # b64"
    by (simp add: my_info_text_def Base64Wrapper_encode_def nl_def b64_def Let_def)
  have hex: "\<forall>b\<in>set (bytesToHex (clientID c)). b \<noteq> 10"
    using bytesToHex_no_newline [OF len] by blast
  have xd: "list_all isxdigit (bytesToHex (clientID c))"
    using isValidHexUUID_bytesToHex [OF len] by (simp add: isValidHexUUID_def split: if_splits)
  show ?thesis
    unfolding validateAndLoadMyInfo_def shape
    using file_getline_line(1) [OF nm(2)] file_getline_line(1) [OF hex] file_getline_line(2) [OF b64(3,1)]
      nm(1) b64 xd uuidHex32ToBytes16_bytesToHex [OF len] key
    by (simp add: Base64Wrapper_decode_def file_getline_def [of "[]"])
qed

section \<open>server.info.txt: what is accepted\<close>

lemma split_colon:
  assumes "\<forall>c\<in>set a. c \<noteq> (58 :: byte)" and "\<forall>c\<in>set p. c \<noteq> 58"
  shows "find_from 58 (a @ 58 # p) 0 = Some (length a)" and "find_from 58 (a @ 58 # p) (length a + 1) = None"
proof -
  have tw: "takeWhile (\<lambda>d. d \<noteq> 58) p = p" using assms(2) by (simp add: takeWhile_eq_all_conv)
  show "find_from 58 (a @ 58 # p) (length a + 1) = None" by (simp add: find_from_def Let_def tw)
  show "find_from 58 (a @ 58 # p) 0 = Some (length a)"
    using assms(1) by (simp add: find_from_def Let_def takeWhile_append_stop)
qed

lemma find_from_split:
  assumes "find_from c s start = Some i" and "start \<le> length s"
  shows "drop start s = bslice start (i - start) s @ c # drop (i + 1) s" and "\<forall>x\<in>set (bslice start (i - start) s). x \<noteq> c"
proof -
  let ?t = "takeWhile (\<lambda>d. d \<noteq> c) (drop start s)"
  from assms(1) have i: "i = start + length ?t" "i < length s"
    by (auto simp: find_from_def Let_def split: if_splits)
  have b: "bslice start (i - start) s = ?t"
    by (simp add: i(1) bslice_def takeWhile_eq_take [symmetric])
  then show "\<forall>x\<in>set (bslice start (i - start) s). x \<noteq> c"
    by (auto dest: set_takeWhileD)
  have "dropWhile (\<lambda>d. d \<noteq> c) (drop start s) = drop i s"
    by (simp add: dropWhile_eq_drop i(1) add.commute)
  moreover have "drop i s = s ! i # drop (Suc i) s"
    using i(2) by (simp add: Cons_nth_drop_Suc)
  moreover have "s ! i = c"
    using calculation hd_dropWhile [of "\<lambda>d. d \<noteq> c" "drop start s"] by auto
  ultimately show "drop start s = bslice start (i - start) s @ c # drop (i + 1) s"
    unfolding b by (metis Suc_eq_plus1 takeWhile_dropWhile_id)
qed

lemma find_from_None:
  "find_from c s start = None \<Longrightarrow> start \<le> length s \<Longrightarrow> \<forall>x\<in>set (drop start s). x \<noteq> c"
proof -
  assume none: "find_from c s start = None" and le: "start \<le> length s"
  let ?t = "takeWhile (\<lambda>d. d \<noteq> c) (drop start s)"
  have "length (drop start s) \<le> length ?t"
    using none le by (auto simp: find_from_def Let_def split: if_splits)
  then have "?t = drop start s"
    by (metis length_takeWhile_le takeWhile_eq_take take_all)
  then show ?thesis by (simp add: takeWhile_eq_all_conv)
qed

lemma isdigit_range: "isdigit c \<Longrightarrow> c \<noteq> 10 \<and> c \<noteq> 43 \<and> c \<noteq> 45 \<and> c \<noteq> 46 \<and> c \<noteq> 58 \<and> \<not> isspace c"
proof -
  assume "isdigit c"
  then have "48 \<le> unat c" "unat c \<le> 57" by (auto simp: isdigit_def word_le_nat_alt)
  then show ?thesis by (auto simp: isspace_def word_le_nat_alt)
qed

lemma stoi_digits:
  assumes "ds \<noteq> []" and "list_all isdigit ds"
  shows "stoi ds = (if 2 ^ 31 \<le> int (dec_value ds) then Inl (Out_of_range ''stoi'') else Inr (int (dec_value ds)))"
proof -
  obtain c cs where ds: "ds = c # cs" using assms(1) by (cases ds) auto
  have tw: "takeWhile isdigit ds = ds" using assms(2) by (simp add: takeWhile_eq_all_conv list_all_iff)
  have c: "\<not> isspace c" "c \<noteq> 45" "c \<noteq> 43" using assms(2) isdigit_range by (auto simp: ds)
  then have "dropWhile isspace ds = ds" by (simp add: ds)
  with c tw assms(1) show ?thesis
    unfolding stoi_def Let_def by (simp add: ds)
qed

definition octet :: "bytes \<Rightarrow> bool" where
  "octet s \<longleftrightarrow> s \<noteq> [] \<and> length s \<le> 3 \<and> list_all isdigit s \<and> dec_value s \<le> 255"

fun dot_join :: "bytes list \<Rightarrow> bytes" where
  "dot_join [] = []"
| "dot_join [p] = p"
| "dot_join (p # q # ps) = p @ 46 # dot_join (q # ps)"

lemma address_loop_step:
  assumes "start \<le> length s"
  shows "address_loop s start dots =
     (let e = find_from 46 s start;
          part = (case e of None \<Rightarrow> drop start s | Some i \<Rightarrow> bslice start (i - start) s)
      in if \<not> octet part then None
         else case e of None \<Rightarrow> Some dots | Some i \<Rightarrow> address_loop s (i + 1) (dots + 1))"
proof -
  define e where "e = find_from 46 s start"
  define part where "part = (case e of None \<Rightarrow> drop start s | Some i \<Rightarrow> bslice start (i - start) s)"
  note unfolded = address_loop.simps [of s start dots, unfolded Let_def, folded e_def, folded part_def]
  show ?thesis
  proof (cases "part = [] \<or> 3 < length part \<or> \<not> list_all isdigit part")
    case True
    then show ?thesis
      unfolding unfolded Let_def e_def [symmetric] part_def [symmetric] by (auto simp: octet_def)
  next
    case False
    then have "stoi part = (if 2 ^ 31 \<le> int (dec_value part) then Inl (Out_of_range ''stoi'') else Inr (int (dec_value part)))"
      by (intro stoi_digits) auto
    with False show ?thesis
      unfolding unfolded Let_def e_def [symmetric] part_def [symmetric] by (simp add: octet_def not_less)
  qed
qed

lemma octet_no_dot: "octet p \<Longrightarrow> \<forall>x\<in>set p. x \<noteq> 46"
  using isdigit_range by (auto simp: octet_def list_all_iff)

lemma split_at_unique:
  "\<forall>x\<in>set a. x \<noteq> c \<Longrightarrow> \<forall>x\<in>set b. x \<noteq> c \<Longrightarrow> a @ c # r = b @ c # s \<longleftrightarrow> a = b \<and> r = s"
proof (induction a arbitrary: b)
  case Nil
  then show ?case by (cases b) auto
next
  case (Cons x a)
  then show ?case by (cases b) auto
qed

lemma dot_join_first:
  assumes "\<forall>x\<in>set a. x \<noteq> (46 :: byte)" and "list_all octet ps" and "ps \<noteq> []"
  shows "a @ 46 # rest = dot_join ps \<longleftrightarrow> (\<exists>qs. qs \<noteq> [] \<and> ps = a # qs \<and> rest = dot_join qs)"
proof (cases ps rule: dot_join.cases)
  case (2 p)
  have "46 \<notin> set p" using octet_no_dot [of p] assms(2) 2 by auto
  then have "a @ 46 # rest \<noteq> p" by auto
  with 2 show ?thesis by auto
next
  case (3 p q qs)
  have p: "\<forall>x\<in>set p. x \<noteq> 46" using octet_no_dot [of p] assms(2) 3 by auto
  have "a @ 46 # rest = p @ 46 # dot_join (q # qs) \<longleftrightarrow> a = p \<and> rest = dot_join (q # qs)"
    using p assms(1) by (intro split_at_unique)
  with 3 show ?thesis by auto
qed (use assms in simp)

text \<open>The loop accepts a dotted sequence of numbers up to 255 and counts its dots.\<close>

lemma address_loop_iff:
  "start \<le> length s \<Longrightarrow>
   address_loop s start dots = Some n \<longleftrightarrow>
     (\<exists>ps. ps \<noteq> [] \<and> list_all octet ps \<and> drop start s = dot_join ps \<and> n + 1 = dots + length ps)"
proof (induction "length s - start" arbitrary: start dots rule: less_induct)
  case less
  note step = address_loop_step [OF less.prems, of dots]
  show ?case
  proof (cases "find_from 46 s start")
    case None
    have nodot: "\<forall>x\<in>set (drop start s). x \<noteq> 46" by (rule find_from_None [OF None less.prems])
    have "(\<exists>ps. ps \<noteq> [] \<and> list_all octet ps \<and> drop start s = dot_join ps \<and> n + 1 = dots + length ps)
      \<longleftrightarrow> octet (drop start s) \<and> n = dots"
    proof
      assume "\<exists>ps. ps \<noteq> [] \<and> list_all octet ps \<and> drop start s = dot_join ps \<and> n + 1 = dots + length ps"
      then obtain ps where ps: "ps \<noteq> []" "list_all octet ps" "drop start s = dot_join ps" "n + 1 = dots + length ps" by blast
      with nodot show "octet (drop start s) \<and> n = dots" by (cases ps rule: dot_join.cases) auto
    next
      assume "octet (drop start s) \<and> n = dots"
      then show "\<exists>ps. ps \<noteq> [] \<and> list_all octet ps \<and> drop start s = dot_join ps \<and> n + 1 = dots + length ps"
        by (intro exI [of _ "[drop start s]"]) simp
    qed
    then show ?thesis unfolding step None by (auto simp: Let_def)
  next
    case (Some i)
    let ?a = "bslice start (i - start) s"
    note split = find_from_split [OF Some less.prems]
    have i: "start \<le> i" "i < length s" using find_from_Some [OF Some] by auto
    have IH: "address_loop s (i + 1) (dots + 1) = Some n \<longleftrightarrow>
      (\<exists>ps. ps \<noteq> [] \<and> list_all octet ps \<and> drop (i + 1) s = dot_join ps \<and> n + 1 = dots + 1 + length ps)"
      by (rule less.hyps) (use i in auto)
    have "(\<exists>ps. ps \<noteq> [] \<and> list_all octet ps \<and> drop start s = dot_join ps \<and> n + 1 = dots + length ps)
      \<longleftrightarrow> octet ?a \<and> (\<exists>ps. ps \<noteq> [] \<and> list_all octet ps \<and> drop (i + 1) s = dot_join ps \<and> n + 1 = dots + 1 + length ps)"
      (is "?L \<longleftrightarrow> ?R")
    proof
      assume ?L
      then obtain ps where ps: "ps \<noteq> []" "list_all octet ps" "drop start s = dot_join ps" "n + 1 = dots + length ps" by blast
      from ps(3) have "?a @ 46 # drop (i + 1) s = dot_join ps" by (simp only: split(1))
      with dot_join_first [OF split(2) ps(2,1)] obtain qs where "qs \<noteq> []" "ps = ?a # qs" "drop (i + 1) s = dot_join qs"
        by blast
      with ps show ?R by auto
    next
      assume ?R
      then obtain qs where qs: "octet ?a" "qs \<noteq> []" "list_all octet qs" "drop (i + 1) s = dot_join qs" "n + 1 = dots + 1 + length qs" by blast
      then have "drop start s = dot_join (?a # qs)"
        unfolding split(1) by (cases qs) simp_all
      with qs show ?L by (intro exI [of _ "?a # qs"]) simp
    qed
    with IH show ?thesis unfolding step Some by (auto simp: Let_def)
  qed
qed

text \<open>The lines and the file the code accepts, and what it returns for them.\<close>

definition server_info_file :: "bytes \<Rightarrow> bytes list \<Rightarrow> bytes \<Rightarrow> bool" where
  "server_info_file file ps pp \<longleftrightarrow>
     (\<exists>e\<in>{[], [10]}. file = dot_join ps @ 58 # pp @ e) \<and> length ps = 4 \<and> list_all octet ps
     \<and> pp \<noteq> [] \<and> list_all isdigit pp \<and> 1 \<le> dec_value pp \<and> dec_value pp \<le> 65535"

lemma file_getline_Some:
  assumes "file_getline file = Some (l, rest)"
  shows "\<forall>c\<in>set l. c \<noteq> 10" and "file = l @ 10 # rest \<or> file = l \<and> rest = []"
proof -
  from assms have l: "l = takeWhile (\<lambda>c. c \<noteq> 10) file" and rest: "rest = drop 1 (dropWhile (\<lambda>c. c \<noteq> 10) file)"
    by (auto simp: file_getline_def split: if_splits)
  show "\<forall>c\<in>set l. c \<noteq> 10" by (auto simp: l dest: set_takeWhileD)
  show "file = l @ 10 # rest \<or> file = l \<and> rest = []"
  proof (cases "dropWhile (\<lambda>c. c \<noteq> 10) file")
    case Nil
    then have "takeWhile (\<lambda>c. c \<noteq> 10) file = file" by (metis append_Nil2 takeWhile_dropWhile_id)
    then have "file = l" and "rest = []" by (simp_all only: l rest Nil drop_Nil)
    then show ?thesis by blast
  next
    case (Cons c cs)
    then have "c = 10" using hd_dropWhile [of "\<lambda>c. c \<noteq> 10" "file"] by auto
    with Cons show ?thesis using takeWhile_dropWhile_id [of "\<lambda>c. c \<noteq> 10" "file"] by (simp add: l rest)
  qed
qed

lemma dot_join_chars: "list_all octet ps \<Longrightarrow> c \<in> set (dot_join ps) \<Longrightarrow> isdigit c \<or> c = 46"
  by (induction ps rule: dot_join.induct) (auto simp: octet_def list_all_iff)

lemma address_loop_whole:
  "address_loop a 0 0 = Some 3 \<longleftrightarrow> (\<exists>ps. length ps = 4 \<and> list_all octet ps \<and> a = dot_join ps)"
proof -
  have "ps \<noteq> [] \<and> list_all octet ps \<and> drop 0 a = dot_join ps \<and> 3 + 1 = 0 + length ps
      \<longleftrightarrow> length ps = 4 \<and> list_all octet ps \<and> a = dot_join ps" for ps
    by auto
  then show ?thesis using address_loop_iff [of 0 a 0 3] by simp
qed

lemma server_info_complete:
  assumes "server_info_file file ps pp"
  shows "validateAndLoadServerInfo file = Some (dot_join ps, of_nat (dec_value pp))"
proof -
  let ?a = "dot_join ps"
  from assms obtain e where fl: "file = ?a @ 58 # pp @ e" "e = [] \<or> e = [10]"
    and ps: "length ps = 4" "list_all octet ps" and pp: "pp \<noteq> []" "list_all isdigit pp"
    and v: "1 \<le> dec_value pp" "dec_value pp \<le> 65535"
    by (auto simp: server_info_file_def)
  have a: "\<forall>c\<in>set ?a. c \<noteq> 58 \<and> c \<noteq> 10" using dot_join_chars [OF ps(2)] isdigit_range by fastforce
  have p: "\<forall>c\<in>set pp. c \<noteq> 58 \<and> c \<noteq> 10" using pp(2) isdigit_range by (auto simp: list_all_iff)
  have ne: "?a \<noteq> []" using ps by (cases ps rule: dot_join.cases) (auto simp: octet_def)
  have line: "file_getline file = Some (?a @ 58 # pp, [])"
  proof -
    have l: "\<forall>c\<in>set (?a @ 58 # pp). c \<noteq> 10" using a p by auto
    show ?thesis
      using fl(2) file_getline_line(1) [OF l, of "[]"] file_getline_line(2) [OF l] by (auto simp: fl(1))
  qed
  have "address_loop ?a 0 0 = Some 3" using ps address_loop_whole by blast
  moreover have "stoi pp = Inr (int (dec_value pp))" using stoi_digits [OF pp] v by simp
  ultimately show ?thesis
    unfolding validateAndLoadServerInfo_def line
    using split_colon [where a = ?a and p = pp] a p ne pp v by simp
qed

lemma server_info_sound:
  assumes "validateAndLoadServerInfo file = Some (a, port)"
  shows "\<exists>ps pp. server_info_file file ps pp \<and> a = dot_join ps \<and> port = of_nat (dec_value pp)"
proof -
  from assms obtain line i v where line: "file_getline file = Some (line, [])"
    and i: "find_from 58 line 0 = Some i" and v: "stoi (drop (i + 1) line) = Inr v" "1 \<le> v" "v \<le> 65535"
    and pp: "drop (i + 1) line \<noteq> []" "list_all isdigit (drop (i + 1) line)"
    and a: "a = take i line" "port = of_int v" "address_loop a 0 0 = Some 3"
    by (auto simp: validateAndLoadServerInfo_def Let_def split: option.splits prod.splits if_splits sum.splits)
  obtain ps where ps: "length ps = 4" "list_all octet ps" "a = dot_join ps"
    using a(3) address_loop_whole by blast
  have "line = a @ 58 # drop (i + 1) line"
    using find_from_split(1) [OF i] by (simp add: a(1) bslice_def)
  then have "\<exists>e\<in>{[], [10]}. file = dot_join ps @ 58 # drop (i + 1) line @ e"
    using file_getline_Some(2) [OF line] ps(3) by auto
  moreover have val: "v = int (dec_value (drop (i + 1) line))"
    using stoi_digits [OF pp] v(1) by (auto split: if_splits)
  ultimately have "server_info_file file ps (drop (i + 1) line)"
    using ps pp v by (simp add: server_info_file_def)
  with ps(3) a(2) val show ?thesis by auto
qed

end
