(* ===== verification/Client_Menu.thy ===== *)
theory Client_Menu
  imports Client_Files
begin

text \<open>
  \<^verbatim>\<open>Client/ClientMenu.cpp\<close>: the menu loop, the parser of its input and the check of the
  option. The loop repeats for ever on an exhausted input, so it returns an option.
\<close>

section \<open>Parsing\<close>

definition isNumber :: "bytes \<Rightarrow> bool" where
  "isNumber s =
     (let t = dropWhile isspace s in
      if t = [] then False
      else dropWhile isspace (dropWhile isdigit t) = [])"

text \<open>\<^verbatim>\<open>std::strtoul\<close> in base 10 with the 32-bit \<^verbatim>\<open>unsigned long\<close> of the Windows build: white
  space, a sign, digits; \<^verbatim>\<open>ULONG_MAX\<close> on overflow.\<close>

abbreviation (input) ULONG_MAX :: nat where "ULONG_MAX \<equiv> 4294967295"

definition strtoul :: "bytes \<Rightarrow> nat" where
  "strtoul s =
     (let t = dropWhile isspace s;
          neg = (t \<noteq> [] \<and> hd t = 45);
          u = (if t \<noteq> [] \<and> (hd t = 45 \<or> hd t = 43) then tl t else t);
          v = dec_value (takeWhile isdigit u)
      in if ULONG_MAX < v then ULONG_MAX
         else if neg \<and> v \<noteq> 0 then ULONG_MAX + 1 - v else v)"

definition parse_input :: "bytes \<Rightarrow> u16" where
  "parse_input input =
     (if \<not> isNumber input then INPUT_ERROR
      else let v = strtoul input in
        if 65535 < v then INPUT_ERROR else of_nat v)"

definition getUserInput :: "client_world \<Rightarrow> u16 \<times> client_world" where
  "getUserInput w = (case cin_getline w of (got, input, w) \<Rightarrow> (parse_input input, w))"

definition isValidMenuOption :: "u16 \<Rightarrow> bool" where
  "isValidMenuOption num =
     (num = Code_REGISTER \<or> num = Code_CLIENTS_LIST \<or> num = Code_PUBLIC_KEY \<or> num = Code_WAITING_MESSAGES
      \<or> num = Code_SEND_TEXT \<or> num = Code_REQUEST_SYMMETRIC_KEY \<or> num = Code_SEND_SYMMETRIC_KEY \<or> num = Code_EXIT)"

section \<open>The loop\<close>

definition menu_text :: bytes where
  "menu_text = lit ''MessageU client at your service. '' @ nl @ nl
     @ lit ''110) Register'' @ nl
     @ lit ''120) Request for clients list'' @ nl
     @ lit ''130) Request for public key'' @ nl
     @ lit ''140) Request for waiting messages'' @ nl
     @ lit ''150) Send a text message'' @ nl
     @ lit ''151) Send a request for symmetric key'' @ nl
     @ lit ''152) Send your symmetric key'' @ nl
     @ lit ''0) Exit client'' @ nl
     @ lit ''?'' @ nl"

partial_function (option) clientMenuMain :: "client_world \<Rightarrow> (u16 \<times> client_world) option" where
  "clientMenuMain w =
     (case getUserInput (say menu_text w) of (input, w) \<Rightarrow>
      if input = INPUT_ERROR \<or> \<not> isValidMenuOption input
      then clientMenuMain (say (lit ''Invalid input, please try again.'' @ nl) w)
      else Some (input, w))"

section \<open>What the parser accepts\<close>

lemma digit_not_space: "isdigit c \<Longrightarrow> \<not> isspace c"
proof -
  assume "isdigit c"
  then have "48 \<le> unat c" by (simp add: isdigit_def word_le_nat_alt)
  moreover have "unat c \<le> 32" if "isspace c"
    using that by (auto simp: isspace_def word_le_nat_alt)
  ultimately show ?thesis by force
qed

lemma isNumber_iff:
  "isNumber s \<longleftrightarrow> (\<exists>a d b. s = a @ d @ b \<and> d \<noteq> [] \<and> list_all isspace a \<and> list_all isdigit d \<and> list_all isspace b)"
proof
  assume n: "isNumber s"
  let ?t = "dropWhile isspace s"
  have t: "?t \<noteq> []" and b: "\<forall>x\<in>set (dropWhile isdigit ?t). isspace x"
    using n by (auto simp: isNumber_def Let_def dropWhile_all split: if_splits)
  have "takeWhile isdigit ?t \<noteq> []"
  proof
    assume "takeWhile isdigit ?t = []"
    then have "dropWhile isdigit ?t = ?t" by (metis append_Nil takeWhile_dropWhile_id)
    with b t hd_dropWhile [OF t] show False by (metis list.set_sel(1))
  qed
  moreover have "s = takeWhile isspace s @ takeWhile isdigit ?t @ dropWhile isdigit ?t" by simp
  moreover have "list_all isspace (takeWhile isspace s)" "list_all isdigit (takeWhile isdigit ?t)"
    by (auto simp: list_all_iff dest: set_takeWhileD)
  moreover have "list_all isspace (dropWhile isdigit ?t)" using b by (simp add: list_all_iff)
  ultimately show "\<exists>a d b. s = a @ d @ b \<and> d \<noteq> [] \<and> list_all isspace a \<and> list_all isdigit d \<and> list_all isspace b"
    by blast
next
  assume "\<exists>a d b. s = a @ d @ b \<and> d \<noteq> [] \<and> list_all isspace a \<and> list_all isdigit d \<and> list_all isspace b"
  then obtain a d b where s: "s = a @ d @ b" "d \<noteq> []" "list_all isspace a" "list_all isdigit d" "list_all isspace b"
    by blast
  obtain c d' where d: "d = c # d'" using s(2) by (cases d) auto
  have "dropWhile isspace s = d @ b"
    using s d by (simp add: dropWhile_append list_all_iff digit_not_space dropWhile_all)
  moreover have "dropWhile isspace (dropWhile isdigit (d @ b)) = []"
    using s(4,5) by (auto simp: dropWhile_append list_all_iff dropWhile_all dest: set_dropWhileD)
  ultimately show "isNumber s" by (simp add: isNumber_def d)
qed

definition option_line :: "bytes \<Rightarrow> bool" where
  "option_line l \<longleftrightarrow> isValidMenuOption (parse_input l)"

lemma menu_step:
  "clientMenuMain w = (case cin w of
     [] \<Rightarrow> clientMenuMain (say (lit ''Invalid input, please try again.'' @ nl) (say menu_text w))
   | l # ls \<Rightarrow> if option_line l then Some (parse_input l, say menu_text w\<lparr>cin := ls\<rparr>)
               else clientMenuMain (say (lit ''Invalid input, please try again.'' @ nl) (say menu_text w\<lparr>cin := ls\<rparr>)))"
proof (cases "cin w")
  case Nil
  then show ?thesis
    by (subst clientMenuMain.simps) (simp add: getUserInput_def cin_getline_def parse_input_def isNumber_def)
next
  case (Cons l ls)
  have "\<not> isValidMenuOption 65535" by (simp add: isValidMenuOption_def)
  with Cons show ?thesis
    by (subst clientMenuMain.simps) (auto simp: getUserInput_def cin_getline_def option_line_def)
qed

lemma clientMenuMain_only:
  assumes "clientMenuMain w = Some r"
  shows "\<exists>l\<in>set (cin w). option_line l"
proof (rule clientMenuMain.raw_induct [where P = "\<lambda>w r. \<exists>l\<in>set (cin w). option_line l", OF _ assms])
  fix f :: "client_world \<Rightarrow> (u16 \<times> client_world) option" and w r
  assume IH: "\<And>v s. f v = Some s \<Longrightarrow> \<exists>l\<in>set (cin v). option_line l"
    and eq: "(case getUserInput (say menu_text w) of (input, w) \<Rightarrow>
      if input = INPUT_ERROR \<or> \<not> isValidMenuOption input
      then f (say (lit ''Invalid input, please try again.'' @ nl) w) else Some (input, w)) = Some r"
  show "\<exists>l\<in>set (cin w). option_line l"
  proof (cases "cin w")
    case Nil
    with eq have "f (say (lit ''Invalid input, please try again.'' @ nl) (say menu_text w)) = Some r"
      by (simp add: getUserInput_def cin_getline_def parse_input_def isNumber_def)
    from IH [OF this] Nil show ?thesis by simp
  next
    case (Cons l ls)
    show ?thesis
    proof (cases "option_line l")
      case False
      with eq Cons have "f (say (lit ''Invalid input, please try again.'' @ nl) (say menu_text w\<lparr>cin := ls\<rparr>)) = Some r"
        by (simp add: getUserInput_def cin_getline_def option_line_def)
      from IH [OF this] Cons show ?thesis by simp
    qed (simp add: Cons)
  qed
qed

interpretation menu: prompt_loop clientMenuMain option_line parse_input
proof unfold_locales
  fix w :: client_world and l ls
  assume "cin w = l # ls"
  then have step: "clientMenuMain w = (if option_line l then Some (parse_input l, say menu_text w\<lparr>cin := ls\<rparr>)
      else clientMenuMain (say (lit ''Invalid input, please try again.'' @ nl) (say menu_text w\<lparr>cin := ls\<rparr>)))"
    by (subst menu_step) simp
  show "option_line l \<Longrightarrow>
      \<exists>w'. clientMenuMain w = Some (parse_input l, w') \<and> cin w' = ls \<and> same_but_console w w'"
    unfolding step by simp
  show "\<not> option_line l \<Longrightarrow> \<exists>v. clientMenuMain w = clientMenuMain v \<and> cin v = ls \<and> same_but_console w v"
    by (rule exI [of _ "say (lit ''Invalid input, please try again.'' @ nl) (say menu_text w\<lparr>cin := ls\<rparr>)"])
       (simp add: step)
qed (rule clientMenuMain_only)

end
