(* ===== verification/Wire_Format.thy ===== *)
theory Wire_Format
  imports Client_Utilities
begin

text \<open>
  The layout of the two repeated payloads of the protocol, as a specification both programs
  are held to: an entry of the client list is 16 bytes of id and a zero-padded name of 255
  bytes, a waiting message is id, message number, type, size and content. One decoding step
  reads one record off the front; \<open>decode_all\<close> reads records until none is left or one is cut
  short, and returns what it could not read.

  The locale \<open>stream_codec\<close> is the contract between a writer and a reader of such a payload:
  the server's encoders are interpreted against these readers in \<^verbatim>\<open>Request_Handler\<close>, and
  the client's loops refine them in \<^verbatim>\<open>Client_Response\<close>.
\<close>

section \<open>Readers\<close>

type_synonym client_entry = "bytes \<times> bytes"

record waiting_record =
  wr_from :: bytes
  wr_id :: u32
  wr_type :: byte
  wr_content :: bytes

definition le32 :: "bytes \<Rightarrow> u32" where
  "le32 bs = (case readUint32LE bs 0 of Inl _ \<Rightarrow> 0 | Inr v \<Rightarrow> v)"

definition dec_entry :: "bytes \<Rightarrow> (client_entry \<times> bytes) option" where
  "dec_entry bs =
     (if length bs < 271 then None
      else Some ((take 16 bs, takeWhile (\<lambda>c. c \<noteq> 0) (bslice 16 255 bs)), drop 271 bs))"

definition dec_record :: "bytes \<Rightarrow> (waiting_record \<times> bytes) option" where
  "dec_record bs =
     (if length bs < 25 then None
      else let n = unat (le32 (drop 21 bs)) in
        if length bs < 25 + n then None
        else Some (\<lparr>wr_from = take 16 bs, wr_id = le32 (drop 16 bs), wr_type = bs ! 20,
                    wr_content = bslice 25 n bs\<rparr>, drop (25 + n) bs))"

fun decode_all :: "nat \<Rightarrow> (bytes \<Rightarrow> ('b \<times> bytes) option) \<Rightarrow> bytes \<Rightarrow> 'b list \<times> bytes" where
  "decode_all 0 dec bs = ([], bs)"
| "decode_all (Suc n) dec bs =
     (if bs = [] then ([], [])
      else case dec bs of None \<Rightarrow> ([], bs)
           | Some (y, rest) \<Rightarrow> (case decode_all n dec rest of (ys, r) \<Rightarrow> (y # ys, r)))"

section \<open>The contract of a writer and a reader\<close>

locale stream_codec =
  fixes enc :: "'a \<Rightarrow> bytes"
    and dec :: "bytes \<Rightarrow> ('b \<times> bytes) option"
    and view :: "'a \<Rightarrow> 'b"
    and ok :: "'a \<Rightarrow> bool"
  assumes dec_enc: "ok x \<Longrightarrow> dec (enc x @ rest) = Some (view x, rest)"
    and dec_shrinks: "dec bs = Some (y, rest) \<Longrightarrow> length rest < length bs"
begin

lemma enc_nonempty: "ok x \<Longrightarrow> enc x \<noteq> []"
  using dec_shrinks [OF dec_enc [of x "[]"]] by auto

text \<open>One step per byte is fuel enough: more does not change the result.\<close>

lemma decode_all_fuel:
  "length bs \<le> n \<Longrightarrow> decode_all (n + k) dec bs = decode_all n dec bs"
proof (induction n arbitrary: bs)
  case 0
  then show ?case by (cases k) auto
next
  case (Suc n)
  have "decode_all (n + k) dec rest = decode_all n dec rest" if "dec bs = Some (y, rest)" for y rest
    using Suc.IH Suc.prems dec_shrinks [OF that] by simp
  then show ?case by (auto split: option.split)
qed

text \<open>What was written is read back, in order and completely.\<close>

lemma decode_concat:
  "\<forall>x\<in>set xs. ok x \<Longrightarrow> length (concat (map enc xs)) \<le> n \<Longrightarrow>
   decode_all n dec (concat (map enc xs)) = (map view xs, [])"
proof (induction xs arbitrary: n)
  case Nil
  then show ?case by (cases n) auto
next
  case (Cons x xs)
  then have ne: "enc x \<noteq> []" by (simp add: enc_nonempty)
  then obtain m where n: "n = Suc m" using Cons.prems by (cases n) auto
  have "length (concat (map enc xs)) \<le> m"
    using Cons.prems ne n by (cases "enc x") auto
  then have "decode_all m dec (concat (map enc xs)) = (map view xs, [])"
    using Cons by simp
  with Cons.prems n ne show ?case by (simp add: dec_enc)
qed

end

section \<open>Facts about the readers\<close>

lemma dec_entry_shrinks: "dec_entry bs = Some (y, rest) \<Longrightarrow> length rest < length bs"
  by (auto simp: dec_entry_def split: if_splits)

lemma dec_record_shrinks: "dec_record bs = Some (y, rest) \<Longrightarrow> length rest < length bs"
  by (auto simp: dec_record_def Let_def split: if_splits)

lemma decode_all_Nil [simp]: "decode_all n dec [] = ([], [])"
  by (cases n) auto

lemma le32_append [wire_simps]: "le32 (appendUint32LE [] v @ rest) = v"
  by (simp add: le32_def readUint32LE_appendUint32LE)

lemma readUint32LE_le32:
  assumes "off + 4 \<le> length data"
  shows "readUint32LE data off = Inr (le32 (drop off data))"
proof -
  have "readUint32LE (take off data @ drop off data) off = readUint32LE (drop off data) 0"
    by (rule readUint32LE_append) (use assms in simp_all)
  then have eq: "readUint32LE data off = readUint32LE (drop off data) 0"
    by (simp only: append_take_drop_id)
  have "\<exists>v. readUint32LE (drop off data) 0 = Inr v"
    using assms by (auto simp: readUint32LE_def)
  then obtain v where v: "readUint32LE (drop off data) 0 = Inr v" ..
  show ?thesis
    unfolding eq v by (simp only: le32_def v sum.case)
qed

lemma dec_record_cut: "length bs < 25 \<Longrightarrow> dec_record bs = None"
  by (simp add: dec_record_def)

lemma dec_record_drop:
  assumes "off + 25 \<le> length data"
  defines "n \<equiv> unat (le32 (drop (off + 21) data))"
  shows "dec_record (drop off data) =
    (if length data < off + 25 + n then None
     else Some (\<lparr>wr_from = bslice off 16 data, wr_id = le32 (drop (off + 16) data), wr_type = data ! (off + 20),
            wr_content = bslice (off + 25) n data\<rparr>, drop (off + 25 + n) data))"
  using assms
  by (auto simp: dec_record_def Let_def bslice_def ac_simps)

end
