(* ===== verification/Client_Response.thy ===== *)
theory Client_Response
  imports Client_Files Wire_Format
begin

text \<open>
  \<^verbatim>\<open>Client/ResponseClient.cpp\<close>: the dispatcher for server responses and its handlers. Each
  handler takes the received buffer and the world and returns an exception or \<open>()\<close> with the
  world it leaves, which after an exception holds what the handler had done so far.
\<close>

section \<open>Handlers\<close>

text \<open>As in \<^verbatim>\<open>readUint32LE\<close>, the sum in the check is one of \<^verbatim>\<open>size_t\<close>; the copy reads sixteen bytes.\<close>

definition readClientID :: "bytes \<Rightarrow> nat \<Rightarrow> exn + bytes" where
  "readClientID data offset =
     (if length data < size_add offset CLIENT_ID_SIZE
      then Inl (Runtime_error ''readClientID: Not enough bytes for ClientID'')
      else if length data < offset + CLIENT_ID_SIZE then Inl Undefined
      else Inr (bslice offset CLIENT_ID_SIZE data))"

definition responseErrorGeneral :: "client_world \<Rightarrow> client_world" where
  "responseErrorGeneral w = say (lit ''server responded with an error'' @ nl) w"

definition responseRegister :: "('sk, 'pk) crypto \<Rightarrow> bytes \<Rightarrow> client_world \<Rightarrow> (exn + unit) \<times> client_world" where
  "responseRegister cr data w =
     (case readClientID data HEADER_SIZE of Inl e \<Rightarrow> (Inl e, w) | Inr cid \<Rightarrow>
      case saveMyInfo cr (upd_ctx (setClientID cid) w) of
        (Inl e, w) \<Rightarrow> (Inl e, w)
      | (Inr _, w) \<Rightarrow>
          (Inr (), say (lit ''----- Client Context -----'' @ nl @ lit ''Name: '' @ userName (ctx w) @ nl
                        @ lit ''Client ID: '' @ show_hex_bytes (clientID (ctx w)) @ nl) w))"

abbreviation (input) CLIENT_ENTRY_SIZE :: nat where "CLIENT_ENTRY_SIZE \<equiv> 271"

function clientList_loop :: "bytes \<Rightarrow> nat \<Rightarrow> client_world \<Rightarrow> (exn + unit) \<times> client_world" where
  "clientList_loop data offset w =
     (if offset < length data
      then case readClientID data offset of Inl e \<Rightarrow> (Inl e, w) | Inr cid \<Rightarrow>
           let nm = takeWhile (\<lambda>c. c \<noteq> 0) (bslice (offset + CLIENT_ID_SIZE) NAME_SIZE data);
               w = say (nm @ lit '' : '' @ bytesToHex cid @ nl) w;
               w = upd_ctx (setFriendBase cid nm) w
           in clientList_loop data (offset + CLIENT_ENTRY_SIZE) w
      else (Inr (), w))"
  by pat_completeness auto
termination
  by (relation "measure (\<lambda>(data, offset, w). length data - offset)") auto

declare clientList_loop.simps [simp del]

definition responseClientList :: "bytes \<Rightarrow> client_world \<Rightarrow> (exn + unit) \<times> client_world" where
  "responseClientList data w =
     (let payloadSize = length data - HEADER_SIZE in
      if payloadSize mod (CLIENT_ID_SIZE + NAME_SIZE) \<noteq> 0
      then (Inl (Runtime_error ''responseClientList: invalid payload size for 2101''), w)
      else clientList_loop data HEADER_SIZE w)"

definition responsePublicKey :: "('sk, 'pk) crypto \<Rightarrow> bytes \<Rightarrow> client_world \<Rightarrow> (exn + unit) \<times> client_world" where
  "responsePublicKey cr data w =
     (if length data < HEADER_SIZE + CLIENT_ID_SIZE + PUBLIC_KEY_SIZE
      then (Inl (Runtime_error ''responsePublicKey: response too small''), w)
      else case readClientID data HEADER_SIZE of Inl e \<Rightarrow> (Inl e, w) | Inr cid \<Rightarrow>
        let pubKey = bslice (HEADER_SIZE + CLIENT_ID_SIZE) PUBLIC_KEY_SIZE data;
            w = (if tryGetFriendCopy (ctx w) cid = None then upd_ctx (setFriendBase cid []) w else w);
            w = upd_ctx (setFriendPublicKey cid pubKey) w
        in (Inr (), say (lit ''Received public key for '' @ bytesToHex cid @ nl @ lit ''Public Key (Base64):''
                         @ nl @ Base64Wrapper_encode cr pubKey @ nl) w))"

definition responseMessageSent :: "bytes \<Rightarrow> client_world \<Rightarrow> (exn + unit) \<times> client_world" where
  "responseMessageSent data w =
     (if length data < HEADER_SIZE + CLIENT_ID_SIZE + MSG_ID_SIZE
      then (Inl (Runtime_error ''responseMessageSent: response too small''), w)
      else case readClientID data HEADER_SIZE of Inl e \<Rightarrow> (Inl e, w) | Inr cid \<Rightarrow>
      case tryGetFriendCopy (ctx w) cid of
        None \<Rightarrow> (Inl (Logic_error ''responseMessageSent: friend not found in cache''), w)
      | Some target \<Rightarrow>
          (case readUint32LE data (HEADER_SIZE + CLIENT_ID_SIZE) of Inl e \<Rightarrow> (Inl e, w) | Inr msgID \<Rightarrow>
           (Inr (), say (lit ''Your message has been sent to '' @ friendName target @ lit '' and assigned ''
                         @ show_dec (unat msgID) @ lit '' message ID.'' @ nl) w)))"

definition handleSymmetricKeyMessage ::
    "('sk, 'pk) crypto \<Rightarrow> 'sk \<Rightarrow> bytes \<Rightarrow> bytes \<Rightarrow> client_world \<Rightarrow> client_world" where
  "handleSymmetricKeyMessage cr rsaPriv fromId enc w =
     (case RSAPrivateWrapper_decrypt cr rsaPriv enc of
        Inl _ \<Rightarrow> say cant_decrypt w
      | Inr symKeyBin \<Rightarrow>
          if length symKeyBin \<noteq> SYMMETRIC_KEY_SIZE then say cant_decrypt w
          else let w = (if tryGetFriendCopy (ctx w) fromId = None then upd_ctx (setFriendBase fromId []) w else w);
                   w = upd_ctx (setFriendSymmetricKey fromId symKeyBin) w
               in say (lit ''symmetric key received'' @ nl) w)"

definition handleTextMessage :: "('sk, 'pk) crypto \<Rightarrow> bytes \<Rightarrow> bytes \<Rightarrow> client_world \<Rightarrow> client_world" where
  "handleTextMessage cr fromId enc w =
     (case Option.bind (tryGetFriendCopy (ctx w) fromId) symmetricKey of
        None \<Rightarrow> say cant_decrypt w
      | Some keyArr \<Rightarrow>
          (case AESWrapper_key keyArr SYMMETRIC_KEY_SIZE of Inl _ \<Rightarrow> say cant_decrypt w | Inr aes \<Rightarrow>
           case aes_decrypt cr aes enc of Inl _ \<Rightarrow> say cant_decrypt w | Inr txt \<Rightarrow> say (txt @ nl) w))"

definition displayName :: "client_ctx \<Rightarrow> bytes \<Rightarrow> bytes" where
  "displayName c fromId =
     (case tryGetFriendCopy c fromId of
        Some f \<Rightarrow> if friendName f \<noteq> [] then friendName f else bytesToHex fromId
      | None \<Rightarrow> bytesToHex fromId)"

abbreviation (input) RECORD_MIN :: nat where "RECORD_MIN \<equiv> 25"

text \<open>The body of the loop once a record is cut out of the buffer.\<close>

definition showRecord :: "('sk, 'pk) crypto \<Rightarrow> 'sk \<Rightarrow> bytes \<Rightarrow> byte \<Rightarrow> bytes \<Rightarrow> client_world \<Rightarrow> client_world" where
  "showRecord cr rsaPriv fromId msgType content w =
     (let w = say (lit ''From: '' @ displayName (ctx w) fromId @ nl) w;
          w = say (lit ''Content:'' @ nl) w;
          w = (if msgType = MsgType_REQUEST_SYMMETRIC_KEY then say (lit ''Request for symmetric key'' @ nl) w
               else if msgType = MsgType_SEND_SYMMETRIC_KEY then handleSymmetricKeyMessage cr rsaPriv fromId content w
               else if msgType = MsgType_SEND_TEXT then handleTextMessage cr fromId content w
               else say (lit ''[Unsupported message type: '' @ show_dec (unat msgType) @ lit '']'' @ nl) w)
      in say (lit ''-----<EOM>-----'' @ nl @ nl) w)"

function waitingMessages_loop ::
    "('sk, 'pk) crypto \<Rightarrow> 'sk \<Rightarrow> bytes \<Rightarrow> nat \<Rightarrow> client_world \<Rightarrow> (exn + unit) \<times> client_world" where
  "waitingMessages_loop cr rsaPriv data offset w =
     (if offset < length data
      then if length data < offset + RECORD_MIN
           then (Inl (Runtime_error ''responseWaitingMessages: truncated record header''), w)
           else case readClientID data offset of Inl e \<Rightarrow> (Inl e, w) | Inr fromId \<Rightarrow>
             let offset1 = offset + CLIENT_ID_SIZE + MSG_ID_SIZE;
                 msgType = data ! offset1;
                 offset2 = offset1 + TYPE_SIZE
             in case readUint32LE data offset2 of Inl e \<Rightarrow> (Inl e, w) | Inr msgSize \<Rightarrow>
             let offset3 = offset2 + MSG_SIZE
             in if length data < offset3 + unat msgSize
                then (Inl (Runtime_error ''responseWaitingMessages: truncated message content''), w)
                else waitingMessages_loop cr rsaPriv data (offset3 + unat msgSize)
                       (showRecord cr rsaPriv fromId msgType (bslice offset3 (unat msgSize) data) w)
      else (Inr (), w))"
  by pat_completeness auto
termination
  by (relation "measure (\<lambda>(cr, sk, data, offset, w). length data - offset)") auto

declare waitingMessages_loop.simps [simp del]

definition responseWaitingMessages ::
    "('sk, 'pk) crypto \<Rightarrow> bytes \<Rightarrow> client_world \<Rightarrow> (exn + unit) \<times> client_world" where
  "responseWaitingMessages cr data w =
     (if length data = HEADER_SIZE then (Inr (), say (lit ''No waiting messages.'' @ nl) w)
      else case RSAPrivateWrapper_load cr (privateKey (ctx w)) of Inl e \<Rightarrow> (Inl e, w) | Inr rsaPriv \<Rightarrow>
           waitingMessages_loop cr rsaPriv data HEADER_SIZE w)"

section \<open>The dispatcher\<close>

definition responseCode :: "bytes \<Rightarrow> u16" where
  "responseCode data = ucast (data ! RESPONSE_CODE_OFFSET) OR push_bit 8 (ucast (data ! (RESPONSE_CODE_OFFSET + 1)))"

definition responseClientMain ::
    "('sk, 'pk) crypto \<Rightarrow> bytes \<Rightarrow> client_world \<Rightarrow> (exn + unit) \<times> client_world" where
  "responseClientMain cr data w =
     (if length data < HEADER_SIZE then (Inl (Runtime_error ''responseClientMain: response too small''), w)
      else let code = responseCode data in
        if code = Code_RESPONSE_REGISTER then responseRegister cr data w
        else if code = Code_RESPONSE_CLIENT_LIST then responseClientList data w
        else if code = Code_RESPONSE_PUBLIC_KEY then responsePublicKey cr data w
        else if code = Code_RESPONSE_MESSAGE_SENT then responseMessageSent data w
        else if code = Code_RESPONSE_WAITING_MESSAGES then responseWaitingMessages cr data w
        else if code = Code_ERROR_GENERAL then (Inr (), responseErrorGeneral w)
        else (Inr (), say (lit ''Unknown response code: '' @ show_dec (unat code) @ nl) w))"

section \<open>Every response keeps the world well-formed and loses no cached entry\<close>

lemma keeps_upd_ctx:
  "keeps_friends (ctx w) (f (ctx w)) \<Longrightarrow> (ctx_wf (ctx w) \<Longrightarrow> ctx_wf (f (ctx w))) \<Longrightarrow> keeps w (upd_ctx f w)"
  by (simp add: keeps_def world_wf_def)

lemma keeps_setFriendBase: "length cid = 16 \<Longrightarrow> keeps w (upd_ctx (setFriendBase cid nm) w)"
  by (rule keeps_upd_ctx) (auto simp: ctx_wf_setFriendBase)

lemma keeps_saveMyInfo: "saveMyInfo cr w = (r, w') \<Longrightarrow> ctx w' = ctx w"
  by (auto simp: saveMyInfo_def Let_def split: if_splits sum.splits option.splits)

lemma readClientID_in_range: "off + 16 \<le> length data \<Longrightarrow> readClientID data off = Inr (bslice off 16 data)"
  by (simp add: readClientID_def)

lemma readClientID_throws:
  "length data < off + 16 \<Longrightarrow> off + 16 < 2 ^ 64 \<Longrightarrow> \<exists>m. readClientID data off = Inl (Runtime_error m)"
  by (simp add: readClientID_def size_add_exact)

lemma readClientID_Inr: "readClientID data off = Inr cid \<Longrightarrow> length cid = 16 \<and> cid = bslice off 16 data"
  by (auto simp: readClientID_def wire_simps split: if_splits)

lemma keeps_responseRegister:
  assumes "responseRegister cr data w = (r, w')"
  shows "keeps w w'"
proof (cases "readClientID data HEADER_SIZE")
  case (Inl e)
  with assms show ?thesis by (auto simp: responseRegister_def)
next
  case (Inr cid)
  then have "keeps w (upd_ctx (setClientID cid) w)"
    by (intro keeps_upd_ctx) (auto simp: ctx_simps dest: readClientID_Inr)
  moreover have "keeps (upd_ctx (setClientID cid) w) w'"
    using assms Inr
    by (auto simp: responseRegister_def split: prod.splits sum.splits dest!: keeps_saveMyInfo intro: keeps_same_ctx)
  ultimately show ?thesis by (rule keeps_trans)
qed

lemma keeps_clientList_loop:
  "clientList_loop data off w = (r, w') \<Longrightarrow> keeps w w'"
proof (induction data off w arbitrary: r w' rule: clientList_loop.induct)
  case (1 data off w)
  show ?case
  proof (cases "off < length data")
    case True
    show ?thesis
    proof (cases "readClientID data off")
      case (Inl e)
      with "1.prems" True show ?thesis by (simp add: clientList_loop.simps [of data off])
    next
      case (Inr cid)
      define nm where "nm = takeWhile (\<lambda>c. c \<noteq> 0) (bslice (off + 16) 255 data)"
      define v where "v = say (nm @ lit '' : '' @ bytesToHex cid @ nl) w"
      have "keeps w v" by (simp add: v_def)
      moreover have "keeps v (upd_ctx (setFriendBase cid nm) v)"
        by (rule keeps_setFriendBase) (rule conjunct1 [OF readClientID_Inr [OF Inr]])
      moreover have "clientList_loop data (off + 271) (upd_ctx (setFriendBase cid nm) v) = (r, w')"
        using "1.prems" True Inr by (simp add: clientList_loop.simps [of data off] nm_def v_def Let_def)
      then have "keeps (upd_ctx (setFriendBase cid nm) v) w'"
        using "1.IH" [OF True Inr refl, of v] by (simp add: nm_def v_def)
      ultimately show ?thesis by (blast intro: keeps_trans)
    qed
  next
    case False
    with "1.prems" show ?thesis by (simp add: clientList_loop.simps [of data off])
  qed
qed

text \<open>Storing a key of another client, as the two handlers do it.\<close>

lemma keeps_store_public:
  assumes "length cid = 16" and "length k = 160"
  shows "keeps w (upd_ctx (setFriendPublicKey cid k)
           (if tryGetFriendCopy (ctx w) cid = None then upd_ctx (setFriendBase cid []) w else w))"
  using assms
  by (auto simp: keeps_def world_wf_def ctx_wf_setFriendBase ctx_wf_setFriendPublicKey
      intro: keeps_friends_trans [OF keeps_friends_ops(4) keeps_friends_ops(5)])

lemma keeps_store_symmetric:
  assumes "length cid = 16" and "length k = 16"
  shows "keeps w (upd_ctx (setFriendSymmetricKey cid k)
           (if tryGetFriendCopy (ctx w) cid = None then upd_ctx (setFriendBase cid []) w else w))"
  using assms
  by (auto simp: keeps_def world_wf_def ctx_wf_setFriendBase ctx_wf_setFriendSymmetricKey
      intro: keeps_friends_trans [OF keeps_friends_ops(4) keeps_friends_ops(6)])

lemma keeps_responsePublicKey:
  assumes "responsePublicKey cr data w = (r, w')"
  shows "keeps w w'"
proof (cases "length data < 183")
  case True
  with assms show ?thesis by (simp add: responsePublicKey_def)
next
  case False
  let ?cid = "bslice 7 16 data" and ?k = "bslice 23 160 data"
  have len: "length ?cid = 16" "length ?k = 160"
    using False by (simp_all add: wire_simps)
  from False assms show ?thesis
    using keeps_trans [OF keeps_store_public [OF len] keeps_say]
    by (auto simp: responsePublicKey_def readClientID_def Let_def)
qed

lemma keeps_responseMessageSent:
  "responseMessageSent data w = (r, w') \<Longrightarrow> keeps w w'"
  by (auto simp: responseMessageSent_def split: if_splits sum.splits option.splits)

lemma keeps_showRecord:
  assumes "length fromId = 16"
  shows "keeps w (showRecord cr sk fromId ty content w)"
proof -
  have sym: "keeps v (handleSymmetricKeyMessage cr sk fromId enc v)" for enc v
  proof (cases "RSAPrivateWrapper_decrypt cr sk enc")
    case (Inr k)
    then show ?thesis
      using keeps_trans [OF keeps_store_symmetric [OF assms, of k v] keeps_say]
      by (simp add: handleSymmetricKeyMessage_def Let_def split: if_splits)
  qed (simp add: handleSymmetricKeyMessage_def)
  have tm: "keeps v (handleTextMessage cr fromId enc v)" for enc v
    by (auto simp: handleTextMessage_def split: sum.split option.split)
  let ?v = "say (lit ''Content:'' @ nl) (say (lit ''From: '' @ displayName (ctx w) fromId @ nl) w)"
  have "keeps w ?v" by (rule keeps_same_ctx) simp
  moreover have "keeps ?v (if ty = 1 then say (lit ''Request for symmetric key'' @ nl) ?v
      else if ty = 2 then handleSymmetricKeyMessage cr sk fromId content ?v
      else if ty = 3 then handleTextMessage cr fromId content ?v
      else say (lit ''[Unsupported message type: '' @ show_dec (unat ty) @ lit '']'' @ nl) ?v)"
    by (simp only: sym tm keeps_say if_split simp_thms)
  ultimately show ?thesis
    unfolding showRecord_def Let_def by (rule keeps_trans [OF _ keeps_trans [OF _ keeps_say]])
qed

section \<open>The loop over waiting messages refines the wire format\<close>

definition showAll :: "('sk, 'pk) crypto \<Rightarrow> 'sk \<Rightarrow> waiting_record list \<Rightarrow> client_world \<Rightarrow> client_world" where
  "showAll cr sk rs w = fold (\<lambda>r. showRecord cr sk (wr_from r) (wr_type r) (wr_content r)) rs w"

definition cut_result :: "bytes \<Rightarrow> exn + unit" where
  "cut_result rest =
     (if rest = [] then Inr ()
      else if length rest < RECORD_MIN then Inl (Runtime_error ''responseWaitingMessages: truncated record header'')
      else Inl (Runtime_error ''responseWaitingMessages: truncated message content''))"

lemma waitingMessages_loop_step:
  assumes "off < length data"
  shows "waitingMessages_loop cr sk data off w =
    (case dec_record (drop off data) of
       None \<Rightarrow> (cut_result (drop off data), w)
     | Some (r, rest) \<Rightarrow> waitingMessages_loop cr sk data (length data - length rest)
                          (showRecord cr sk (wr_from r) (wr_type r) (wr_content r) w))"
proof (cases "off + 25 \<le> length data")
  case False
  with assms show ?thesis
    by (simp add: waitingMessages_loop.simps [of cr sk data off] dec_record_cut cut_result_def)
next
  case True
  let ?n = "unat (le32 (drop (off + 21) data))"
  have rd: "readUint32LE data (off + 21) = Inr (le32 (drop (off + 21) data))"
    using True by (intro readUint32LE_le32) simp
  have cid: "readClientID data off = Inr (bslice off 16 data)"
    using True by (simp add: readClientID_def)
  have o: "off + 16 + 4 = off + 20" "off + 20 + 1 = off + 21" "off + 21 + 4 = off + 25"
    by simp_all
  have unfolded: "waitingMessages_loop cr sk data off w =
    (if length data < off + 25 + ?n
     then (Inl (Runtime_error ''responseWaitingMessages: truncated message content''), w)
     else waitingMessages_loop cr sk data (off + 25 + ?n)
            (showRecord cr sk (bslice off 16 data) (data ! (off + 20)) (bslice (off + 25) ?n data) w))"
    unfolding waitingMessages_loop.simps [of cr sk data off w] Let_def o rd cid sum.case
    using True assms by (simp only: not_less if_True if_False not_le [symmetric] simp_thms)
  show ?thesis
  proof (cases "length data < off + 25 + ?n")
    case short: True
    with True assms have "cut_result (drop off data)
      = Inl (Runtime_error ''responseWaitingMessages: truncated message content'')"
      by (simp add: cut_result_def)
    with short show ?thesis
      unfolding unfolded dec_record_drop [OF True] by simp
  next
    case False
    then have "length data - length (drop (off + 25 + ?n) data) = off + 25 + ?n" by simp
    with False show ?thesis
      unfolding unfolded dec_record_drop [OF True] by simp
  qed
qed

lemma waitingMessages_loop_refines:
  assumes "length data - off \<le> n" and "off \<le> length data"
    and "decode_all n dec_record (drop off data) = (rs, rest)"
  shows "waitingMessages_loop cr sk data off w = (cut_result rest, showAll cr sk rs w)"
  using assms
proof (induction n arbitrary: off rs rest w)
  case 0
  then show ?case
    by (auto simp: waitingMessages_loop.simps [of cr sk data "length data"] cut_result_def showAll_def)
next
  case (Suc n)
  show ?case
  proof (cases "off < length data")
    case False
    with Suc.prems show ?thesis
      by (auto simp: waitingMessages_loop.simps [of cr sk data "length data"] cut_result_def showAll_def)
  next
    case True
    show ?thesis
    proof (cases "dec_record (drop off data)")
      case None
      with True Suc.prems show ?thesis
        by (auto simp: waitingMessages_loop_step showAll_def)
    next
      case (Some p)
      obtain r tl where p: "p = (r, tl)" by (cases p)
      note d = Some [unfolded p]
      have shrink: "length tl < length data - off"
        using dec_record_shrinks [OF d] by simp
      have "25 \<le> length (drop off data)"
        using d dec_record_cut by (metis not_less option.distinct(1))
      then have "off + 25 \<le> length data" by simp
      from dec_record_drop [OF this] d have tl: "drop (length data - length tl) data = tl"
        by (auto split: if_splits)
      obtain rs' where rs': "decode_all n dec_record tl = (rs', rest)" "rs = r # rs'"
        using Suc.prems(3) True d by (auto split: prod.splits)
      have "waitingMessages_loop cr sk data (length data - length tl) v = (cut_result rest, showAll cr sk rs' v)" for v
        by (rule Suc.IH) (use shrink Suc.prems tl rs' in auto)
      with True d rs' show ?thesis
        by (simp add: waitingMessages_loop_step showAll_def)
    qed
  qed
qed

lemma decode_all_wr_from:
  "decode_all n dec_record bs = (rs, rest) \<Longrightarrow> r \<in> set rs \<Longrightarrow> length (wr_from r) = 16"
proof (induction n arbitrary: bs rs)
  case (Suc n)
  then show ?case
    by (auto simp: dec_record_def Let_def split: if_splits prod.splits option.splits)
qed simp

lemma keeps_showAll:
  "\<forall>r\<in>set rs. length (wr_from r) = 16 \<Longrightarrow> keeps w (showAll cr sk rs w)"
proof (induction rs arbitrary: w)
  case Nil
  then show ?case by (simp add: showAll_def)
next
  case (Cons r rs)
  then have "keeps w (showRecord cr sk (wr_from r) (wr_type r) (wr_content r) w)"
    by (intro keeps_showRecord) simp
  with Cons show ?case
    using keeps_trans by (auto simp: showAll_def)
qed

lemma keeps_waitingMessages_loop:
  assumes "waitingMessages_loop cr sk data 7 w = (r, w')" and "7 \<le> length data"
  shows "keeps w w'"
proof -
  obtain rs rest where d: "decode_all (length data) dec_record (drop 7 data) = (rs, rest)"
    by fastforce
  have "waitingMessages_loop cr sk data 7 w = (cut_result rest, showAll cr sk rs w)"
    by (rule waitingMessages_loop_refines [OF _ _ d]) (use assms in simp_all)
  with assms have w': "w' = showAll cr sk rs w" by simp
  show ?thesis
    unfolding w' by (rule keeps_showAll) (intro ballI decode_all_wr_from [OF d])
qed

lemma keeps_responseWaitingMessages:
  assumes "responseWaitingMessages cr data w = (r, w')" and "7 \<le> length data"
  shows "keeps w w'"
proof (cases "RSAPrivateWrapper_load cr (privateKey (ctx w))")
  case (Inl e)
  with assms show ?thesis by (simp add: responseWaitingMessages_def split: if_split_asm) auto
next
  case (Inr sk)
  show ?thesis
  proof (cases "length data = 7")
    case True
    with assms show ?thesis by (simp add: responseWaitingMessages_def) auto
  next
    case False
    with assms Inr have "waitingMessages_loop cr sk data 7 w = (r, w')"
      by (simp add: responseWaitingMessages_def)
    then show ?thesis using assms(2) by (rule keeps_waitingMessages_loop)
  qed
qed

lemma keeps_responseClientList:
  "responseClientList data w = (r, w') \<Longrightarrow> keeps w w'"
  unfolding responseClientList_def Let_def
  by (simp split: if_split_asm) (blast dest: keeps_clientList_loop)

lemmas keeps_responses = keeps_responseRegister keeps_responseClientList keeps_responsePublicKey
  keeps_responseMessageSent keeps_responseWaitingMessages

lemma keeps_responseClientMain:
  assumes "responseClientMain cr data w = (r, w')"
  shows "keeps w w'"
proof (cases "length data < 7")
  case True
  with assms show ?thesis by (simp add: responseClientMain_def)
next
  case False
  then have len: "7 \<le> length data" by simp
  from assms False show ?thesis
    unfolding responseClientMain_def responseErrorGeneral_def Let_def
    by (simp add: keeps_responseWaitingMessages [OF _ len] keeps_responses split: if_split_asm) auto
qed

section \<open>The loop over the client list refines the wire format\<close>

definition learn :: "client_entry \<Rightarrow> client_world \<Rightarrow> client_world" where
  "learn e w = upd_ctx (setFriendBase (fst e) (snd e)) (say (snd e @ lit '' : '' @ bytesToHex (fst e) @ nl) w)"

lemma dec_entry_drop:
  "off + 271 \<le> length data \<Longrightarrow> dec_entry (drop off data) =
     Some ((bslice off 16 data, takeWhile (\<lambda>c. c \<noteq> 0) (bslice (off + 16) 255 data)), drop (off + 271) data)"
  by (simp add: dec_entry_def bslice_def ac_simps)

lemma clientList_loop_step:
  assumes "off + 271 \<le> length data" and "dec_entry (drop off data) = Some (e, rest)"
  shows "clientList_loop data off w = clientList_loop data (off + 271) (learn e w)" and "rest = drop (off + 271) data"
  using assms dec_entry_drop [OF assms(1)]
  by (auto simp: clientList_loop.simps [of data off] readClientID_def learn_def Let_def)

lemma clientList_loop_refines:
  assumes "length data - off = 271 * k" and "off \<le> length data" and "k \<le> n"
    and "decode_all n dec_entry (drop off data) = (es, rest)"
  shows "clientList_loop data off w = (Inr (), fold learn es w) \<and> rest = []"
  using assms
proof (induction k arbitrary: off n es w)
  case 0
  then show ?case by (simp add: clientList_loop.simps [of data off])
next
  case (Suc k)
  then have off: "off + 271 \<le> length data" by simp
  from Suc.prems(3) obtain m where n: "n = Suc m" by (cases n) auto
  obtain e where e: "dec_entry (drop off data) = Some (e, drop (off + 271) data)"
    using dec_entry_drop [OF off] by blast
  note step = clientList_loop_step(1) [OF off e]
  have "drop off data \<noteq> []" using off by simp
  with Suc.prems(4) n e obtain es' where es': "decode_all m dec_entry (drop (off + 271) data) = (es', rest)" "es = e # es'"
    by (auto split: prod.splits)
  have "clientList_loop data (off + 271) (learn e w) = (Inr (), fold learn es' (learn e w)) \<and> rest = []"
    by (rule Suc.IH [OF _ _ _ es'(1)]) (use Suc.prems n off in auto)
  then show ?case by (simp add: step es'(2))
qed

lemma responseClientList_refines:
  assumes "7 \<le> length data" and "(length data - 7) mod 271 = 0"
    and "decode_all (length data) dec_entry (drop 7 data) = (es, rest)"
  shows "responseClientList data w = (Inr (), fold learn es w)"
proof -
  from assms(2) obtain k where k: "length data - 7 = 271 * k" by auto
  have "k \<le> length data" using k by simp
  from clientList_loop_refines [OF k assms(1) this assms(3)] show ?thesis
    using assms(2) by (simp add: responseClientList_def)
qed

text \<open>The cache after a list: a listed id has its listed name and keeps its keys, every other
  entry is as before.\<close>

lemma fold_learn_ctx:
  "ctx (fold learn es w) = fold (\<lambda>e. setFriendBase (fst e) (snd e)) es (ctx w)"
  by (induction es arbitrary: w) (simp_all add: learn_def)

definition keys_of :: "friend_info option \<Rightarrow> bytes option \<times> bytes option" where
  "keys_of f = (case f of None \<Rightarrow> (None, None) | Some f \<Rightarrow> (publicKey f, symmetricKey f))"

lemma fold_setFriendBase_other:
  "k \<notin> fst ` set es \<Longrightarrow> tryGetFriendCopy (fold (\<lambda>e. setFriendBase (fst e) (snd e)) es c) k = tryGetFriendCopy c k"
  by (induction es arbitrary: c) (auto simp: ctx_simps)

lemma fold_setFriendBase_in:
  assumes "distinct (map fst es)" and "(k, nm) \<in> set es"
  shows "\<exists>f. tryGetFriendCopy (fold (\<lambda>e. setFriendBase (fst e) (snd e)) es c) k = Some f \<and> friendName f = nm
     \<and> friendID f = k \<and> keys_of (Some f) = keys_of (tryGetFriendCopy c k)"
  using assms
proof (induction es arbitrary: c)
  case (Cons e es)
  show ?case
  proof (cases "fst e = k")
    case True
    then have notin: "k \<notin> fst ` set es" using Cons.prems(1) by auto
    then have e: "snd e = nm" using Cons.prems(2) by force
    have "tryGetFriendCopy (fold (\<lambda>e. setFriendBase (fst e) (snd e)) (e # es) c) k = tryGetFriendCopy (setFriendBase k nm c) k"
      using fold_setFriendBase_other [OF notin] True e by simp
    then show ?thesis by (simp add: ctx_simps keys_of_def default_friend_def split: option.split)
  next
    case False
    with Cons.prems have "distinct (map fst es)" "(k, nm) \<in> set es" by auto
    from Cons.IH [OF this, of "setFriendBase (fst e) (snd e) c"] False show ?thesis
      by (simp add: ctx_simps)
  qed
qed simp

end
