(* ===== verification/Client_Connection.thy ===== *)
theory Client_Connection
  imports Client_Files
begin

text \<open>
  \<^verbatim>\<open>Client/ClientConnection.cpp\<close>: the TCP connection of the client. Boost.Asio is not part of
  the repository: the record \<open>asio\<close> holds the three calls the class makes, over a state
  \<open>'net\<close> of the network, and \<open>asio_ok\<close> states what \<^verbatim>\<open>boost::asio::read\<close> promises. A function
  of the class works on the pair of the world and the network. \<^verbatim>\<open>sendAndReceive\<close> holds
  \<^verbatim>\<open>_connMutex\<close> for its whole body: it is one step.
\<close>

record 'net asio =
  asio_connect :: "bytes \<Rightarrow> bytes \<Rightarrow> 'net \<Rightarrow> (exn + unit) \<times> 'net"
  asio_write :: "bytes \<Rightarrow> 'net \<Rightarrow> (exn + unit) \<times> 'net"
  asio_read :: "nat \<Rightarrow> 'net \<Rightarrow> (exn + bytes) \<times> 'net"

text \<open>A read that returns filled the whole buffer.\<close>

definition asio_ok :: "'net asio \<Rightarrow> bool" where
  "asio_ok io \<longleftrightarrow> (\<forall>n net bs net'. asio_read io n net = (Inr bs, net') \<longrightarrow> length bs = n)"

definition what :: "exn \<Rightarrow> string" where
  "what e = (case e of Runtime_error s \<Rightarrow> s | Logic_error s \<Rightarrow> s | Length_error s \<Rightarrow> s | Crypto_exception s \<Rightarrow> s
     | System_error s \<Rightarrow> s | Invalid_argument s \<Rightarrow> s | Out_of_range s \<Rightarrow> s
     | Undefined \<Rightarrow> [])"

section \<open>Operations\<close>

definition connect :: "'net asio \<Rightarrow> client_world \<Rightarrow> 'net \<Rightarrow> (exn + unit) \<times> client_world \<times> 'net" where
  "connect io w net =
     (case loadServerInfo w of
        (Inl e, w) \<Rightarrow> (Inl e, w, net)
      | (Inr (address, port), w) \<Rightarrow>
          if address = [] \<or> port = 0 then (Inl (Runtime_error ''Failed to load server.info.txt.''), w, net)
          else let w = say (lit ''Trying to connect to: '' @ address @ lit '':'' @ show_dec (unat port) @ nl) w in
            (case asio_connect io address (show_dec (unat port)) net of
               (Inl e, net) \<Rightarrow> (Inl (Runtime_error (''Failed to connect to server: '' @ what e)), w, net)
             | (Inr _, net) \<Rightarrow> (Inr (), say (lit ''Connected to server'' @ nl) w, net)))"

definition sendData :: "'net asio \<Rightarrow> bytes \<Rightarrow> 'net \<Rightarrow> (exn + unit) \<times> 'net" where
  "sendData io data net = asio_write io data net"

definition receiveExact :: "'net asio \<Rightarrow> nat \<Rightarrow> 'net \<Rightarrow> (exn + bytes) \<times> 'net" where
  "receiveExact io sz net = (if sz = 0 then (Inr [], net) else asio_read io sz net)"

definition getPayloadSize :: "bytes \<Rightarrow> exn + nat" where
  "getPayloadSize data =
     (if length data < HEADER_SIZE then Inl (Runtime_error ''getPayloadSize: response header too small'')
      else case readUint32LE data PAYLOAD_OFFSET of Inl e \<Rightarrow> Inl e | Inr v \<Rightarrow> Inr (unat v))"

definition sendAndReceive :: "'net asio \<Rightarrow> bytes \<Rightarrow> 'net \<Rightarrow> (exn + bytes) \<times> 'net" where
  "sendAndReceive io data net =
     (case sendData io data net of
        (Inl e, net) \<Rightarrow> (Inl e, net)
      | (Inr _, net) \<Rightarrow>
      case receiveExact io HEADER_SIZE net of
        (Inl e, net) \<Rightarrow> (Inl e, net)
      | (Inr buffer, net) \<Rightarrow>
      case getPayloadSize buffer of Inl e \<Rightarrow> (Inl e, net) | Inr n \<Rightarrow>
      case receiveExact io n net of
        (Inl e, net) \<Rightarrow> (Inl e, net)
      | (Inr payload, net) \<Rightarrow> (Inr (buffer @ payload), net))"

text \<open>The destructor: the socket's own calls, which report their errors in a variable that nothing
  reads.\<close>

record 'net socket_ops =
  socket_is_open :: "'net \<Rightarrow> bool"
  socket_shutdown :: "'net \<Rightarrow> 'net"
  socket_close :: "'net \<Rightarrow> 'net"

definition disconnect :: "'net socket_ops \<Rightarrow> 'net \<Rightarrow> 'net" where
  "disconnect so net = (if socket_is_open so net then socket_close so (socket_shutdown so net) else net)"

section \<open>What a received response is\<close>

lemma receiveExact_length:
  "asio_ok io \<Longrightarrow> receiveExact io n net = (Inr bs, net') \<Longrightarrow> length bs = n"
  by (auto simp: receiveExact_def asio_ok_def split: if_splits)

text \<open>A buffer handed to the response handlers is a whole header and as many payload bytes as
  the header says.\<close>

lemma sendAndReceive_complete:
  assumes "asio_ok io" and "sendAndReceive io data net = (Inr buffer, net')"
  shows "7 \<le> length buffer" and "readUint32LE buffer 3 = Inr (of_nat (length buffer - 7))"
    and "length buffer < 7 + 2 ^ 32"
proof -
  from assms(2) obtain n1 h n2 n p where h: "receiveExact io 7 n1 = (Inr h, n2)"
    and n: "getPayloadSize h = Inr n" and p: "receiveExact io n n2 = (Inr p, net')" and b: "buffer = h @ p"
    by (auto simp: sendAndReceive_def split: prod.splits sum.splits)
  have lh: "length h = 7" and lp: "length p = n"
    using receiveExact_length [OF assms(1)] h p by blast+
  from n lh obtain v where v: "readUint32LE h 3 = Inr v" "n = unat v"
    by (auto simp: getPayloadSize_def split: sum.splits)
  show "7 \<le> length buffer" by (simp add: b lh)
  have "readUint32LE (h @ p) 3 = readUint32LE h 3"
    using lh by (simp add: readUint32LE_def nth_append)
  then show "readUint32LE buffer 3 = Inr (of_nat (length buffer - 7))"
    using v lp lh b by simp
  show "length buffer < 7 + 2 ^ 32"
    using v(2) lp lh b unsigned_less [of v, where 'a = nat] by simp
qed

text \<open>The connection is tried only with an address and a non-zero port.\<close>

lemma connect_ctx: "connect io w net = (r, w', net') \<Longrightarrow> ctx w' = ctx w \<and> cin w' = cin w"
  by (auto simp: connect_def loadServerInfo_def Let_def split: sum.splits prod.splits option.splits if_splits)

end
