(* ===== verification/Client_Main.thy ===== *)
theory Client_Main
  imports Client_Actions Client_Menu Client_Response Client_Connection
begin

text \<open>
  \<^verbatim>\<open>Client/Main.cpp\<close> and \<^verbatim>\<open>Client/PullRequests.cpp\<close>: the main loop and the thread that pulls
  waiting messages. One turn of the main loop and one round of the pull thread are functions
  on the world and the network; the control of the pull thread is a state machine over the
  values it reads from \<^verbatim>\<open>stopFlag\<close>.
\<close>

section \<open>One round of the pull thread\<close>

text \<open>The body of the loop after the flag was read: the \<^verbatim>\<open>catch (...)\<close> keeps what the round
  did before the exception.\<close>

definition pull_round :: "('sk, 'pk) crypto \<Rightarrow> 'net asio \<Rightarrow> client_world \<times> 'net \<Rightarrow> client_world \<times> 'net" where
  "pull_round cr io s =
     (case s of (w, net) \<Rightarrow>
      if \<not> hasClientID (ctx w) then (w, net)
      else let data = createBuffer (Message_no_payload (clientID (ctx w)) Code_REQUEST_WAITING_MESSAGES) in
        (case sendAndReceive io data net of
           (Inl e, net) \<Rightarrow> (w, net)
         | (Inr buffer, net) \<Rightarrow>
             (snd (responseClientMain cr buffer (say (lit ''Pulling waiting messages automatically:'' @ nl) w)), net)))"

text \<open>The control of the loop. A step from \<open>Loop_head\<close> or \<open>Sleeping\<close> reads one value from
  \<^verbatim>\<open>stopFlag\<close>; from \<open>Sleeping i\<close> with \<open>i < 60\<close> it then sleeps for a second. From \<open>Pulling\<close> the
  step runs the round and reads nothing.\<close>

datatype pull_pc = Loop_head | Sleeping nat | Pulling | Stopped

abbreviation (input) PULL_SECONDS :: nat where "PULL_SECONDS \<equiv> 60"

fun pull_step :: "bool \<Rightarrow> pull_pc \<Rightarrow> pull_pc" where
  "pull_step stop Loop_head = (if stop then Stopped else Sleeping 0)"
| "pull_step stop (Sleeping i) =
     (if i < PULL_SECONDS then (if stop then Stopped else Sleeping (Suc i))
      else if stop then Stopped else Pulling)"
| "pull_step stop Pulling = Loop_head"
| "pull_step stop Stopped = Stopped"

text \<open>The thread on the values of the flag at its steps: the state it ends in and the world.\<close>

fun pull_run ::
    "('sk, 'pk) crypto \<Rightarrow> 'net asio \<Rightarrow> bool list \<Rightarrow> pull_pc \<Rightarrow> client_world \<times> 'net \<Rightarrow> pull_pc \<times> client_world \<times> 'net" where
  "pull_run cr io [] pc s = (pc, s)"
| "pull_run cr io (stop # stops) pc s =
     pull_run cr io stops (pull_step stop pc) (if pc = Pulling then pull_round cr io s else s)"

section \<open>The main loop\<close>

datatype turn = Exit | Again | Throw exn

text \<open>One turn; \<open>None\<close> when the menu or a prompt never returns.\<close>

definition main_turn ::
    "('sk, 'pk) crypto \<Rightarrow> 'net asio \<Rightarrow> client_world \<times> 'net \<Rightarrow> (turn \<times> client_world \<times> 'net) option" where
  "main_turn cr io s =
     (case s of (w, net) \<Rightarrow>
      case clientMenuMain w of None \<Rightarrow> None | Some (input, w) \<Rightarrow>
      if input = Code_EXIT then Some (Exit, say (lit ''Exiting client...'' @ nl) w, net)
      else case handleMenuChoice cr input w of None \<Rightarrow> None
      | Some (Inl e, w) \<Rightarrow> Some (Throw e, w, net)
      | Some (Inr data, w) \<Rightarrow>
          if data = [] then Some (Again, w, net)
          else case sendAndReceive io data net of
            (Inl e, net) \<Rightarrow> Some (Throw e, w, net)
          | (Inr buffer, net) \<Rightarrow>
              (case responseClientMain cr buffer w of
                 (Inl e, w) \<Rightarrow> Some (Throw e, w, net)
               | (Inr _, w) \<Rightarrow> Some (Again, w, net)))"

partial_function (option) main_loop ::
    "('sk, 'pk) crypto \<Rightarrow> 'net asio \<Rightarrow> client_world \<times> 'net \<Rightarrow> ((exn + unit) \<times> client_world \<times> 'net) option" where
  "main_loop cr io s =
     (case main_turn cr io s of None \<Rightarrow> None
      | Some (t, s) \<Rightarrow> (case t of Exit \<Rightarrow> Some (Inr (), s) | Again \<Rightarrow> main_loop cr io s | Throw e \<Rightarrow> Some (Inl e, s)))"

text \<open>\<^verbatim>\<open>main\<close>, without the pull thread: the exit code and the world.\<close>

definition client_main ::
    "('sk, 'pk) crypto \<Rightarrow> 'net asio \<Rightarrow> client_world \<times> 'net \<Rightarrow> (nat \<times> client_world \<times> 'net) option" where
  "client_main cr io s =
     (case s of (w, net) \<Rightarrow>
      let fatal = (\<lambda>e w net. Some (1, say (lit ''Fatal error: '' @ lit (what e) @ nl) w, net));
          w = w\<lparr>ctx := init_ctx\<rparr>
      in case loadMyInfo cr w of
        (Inl e, w) \<Rightarrow> fatal e w net
      | (Inr _, w) \<Rightarrow>
      case connect io w net of
        (Inl e, w, net) \<Rightarrow> fatal e w net
      | (Inr _, w, net) \<Rightarrow>
      case main_loop cr io (w, net) of None \<Rightarrow> None
      | Some (Inl e, w, net) \<Rightarrow> fatal e w net
      | Some (Inr _, w, net) \<Rightarrow> Some (0, w, net))"

section \<open>The two threads together\<close>

text \<open>
  The threads share the context and the connection. A step of the main thread is an action
  up to the request it sends (or its end), the exchange, or the handling of the response; a
  step of the pull thread is its exchange or the handling of its response. \<open>pending\<close> is what
  a thread has in its hands between its steps.
\<close>

datatype pending = Idle | Request bytes | Response bytes | Finished turn

record 'net threads =
  world :: client_world
  network :: 'net
  main_pending :: pending
  pull_pending :: pending

inductive thread_step :: "('sk, 'pk) crypto \<Rightarrow> 'net asio \<Rightarrow> 'net threads \<Rightarrow> 'net threads \<Rightarrow> bool"
  for cr io where
  main_act: "main_pending t = Idle \<Longrightarrow> clientMenuMain (world t) = Some (input, v) \<Longrightarrow> input \<noteq> Code_EXIT \<Longrightarrow>
      handleMenuChoice cr input v = Some (Inr data, w) \<Longrightarrow>
      thread_step cr io t (t\<lparr>world := w, main_pending := (if data = [] then Idle else Request data)\<rparr>)"
| main_throw: "main_pending t = Idle \<Longrightarrow> clientMenuMain (world t) = Some (input, v) \<Longrightarrow> input \<noteq> Code_EXIT \<Longrightarrow>
      handleMenuChoice cr input v = Some (Inl e, w) \<Longrightarrow>
      thread_step cr io t (t\<lparr>world := w, main_pending := Finished (Throw e)\<rparr>)"
| main_exit: "main_pending t = Idle \<Longrightarrow> clientMenuMain (world t) = Some (Code_EXIT, v) \<Longrightarrow>
      thread_step cr io t (t\<lparr>world := say (lit ''Exiting client...'' @ nl) v, main_pending := Finished Exit\<rparr>)"
| main_exchange: "main_pending t = Request data \<Longrightarrow> sendAndReceive io data (network t) = (r, net) \<Longrightarrow>
      thread_step cr io t (t\<lparr>network := net,
        main_pending := (case r of Inl e \<Rightarrow> Finished (Throw e) | Inr buffer \<Rightarrow> Response buffer)\<rparr>)"
| main_handle: "main_pending t = Response buffer \<Longrightarrow> responseClientMain cr buffer (world t) = (r, w) \<Longrightarrow>
      thread_step cr io t (t\<lparr>world := w,
        main_pending := (case r of Inl e \<Rightarrow> Finished (Throw e) | Inr _ \<Rightarrow> Idle)\<rparr>)"
| pull_exchange: "pull_pending t = Idle \<Longrightarrow> hasClientID (ctx (world t)) \<Longrightarrow>
      sendAndReceive io (createBuffer (Message_no_payload (clientID (ctx (world t))) Code_REQUEST_WAITING_MESSAGES))
        (network t) = (r, net) \<Longrightarrow>
      thread_step cr io t (t\<lparr>network := net, pull_pending := (case r of Inl e \<Rightarrow> Idle | Inr buffer \<Rightarrow> Response buffer)\<rparr>)"
| pull_handle: "pull_pending t = Response buffer \<Longrightarrow>
      responseClientMain cr buffer (say (lit ''Pulling waiting messages automatically:'' @ nl) (world t)) = (r, w) \<Longrightarrow>
      thread_step cr io t (t\<lparr>world := w, pull_pending := Idle\<rparr>)"

inductive_cases thread_stepE: "thread_step cr io t u"

end
