(* ===== verification/Server_Db.thy ===== *)
theory Server_Db
  imports Protocol_Constants
begin

text \<open>
  \<^verbatim>\<open>Server/database.py\<close>: the two SQLite tables and the methods of \<^verbatim>\<open>Database\<close>. A table is
  the list of its rows in rowid order, which is the order an unordered SELECT scans; \<open>seq\<close>
  is the AUTOINCREMENT counter, the largest message id ever given out. Each method runs one
  statement and commits it. Its first argument tells whether SQLite carries the statement
  out: when it does not (a locked database, an I/O error), the method raises
  OperationalError and the tables are as before.

  The locale \<open>message_store\<close> is what the request handlers need of the messages table.
\<close>

section \<open>Tables\<close>

record client_row =
  c_id :: bytes
  c_name :: bytes
  c_pubkey :: bytes
  c_last_seen :: string

record message_row =
  m_id :: nat
  m_to :: bytes
  m_from :: bytes
  m_type :: nat
  m_content :: bytes

record db =
  clients :: "client_row list"
  messages :: "message_row list"
  seq :: nat

definition empty_db :: db where
  "empty_db = \<lparr>clients = [], messages = [], seq = 0\<rparr>"

section \<open>Methods\<close>

definition add_client :: "bool \<Rightarrow> bytes \<Rightarrow> bytes \<Rightarrow> bytes \<Rightarrow> string \<Rightarrow> db \<Rightarrow> (py_exn + unit) \<times> db" where
  "add_client ok cid nm pubKey now d =
     (if \<not> ok then (Inl OperationalError, d)
      else if cid \<in> c_id ` set (clients d) \<or> nm \<in> c_name ` set (clients d) then (Inl IntegrityError, d)
      else (Inr (), d\<lparr>clients := clients d @ [\<lparr>c_id = cid, c_name = nm, c_pubkey = pubKey, c_last_seen = now\<rparr>]\<rparr>))"

definition update_client_last_seen :: "bool \<Rightarrow> bytes \<Rightarrow> string \<Rightarrow> db \<Rightarrow> (py_exn + unit) \<times> db" where
  "update_client_last_seen ok cid now d =
     (if \<not> ok then (Inl OperationalError, d)
      else (Inr (), d\<lparr>clients := map (\<lambda>r. if c_id r = cid then r\<lparr>c_last_seen := now\<rparr> else r) (clients d)\<rparr>))"

definition client_exists :: "bool \<Rightarrow> bytes \<Rightarrow> db \<Rightarrow> py_exn + bytes option" where
  "client_exists ok cid d =
     (if \<not> ok then Inl OperationalError
      else Inr (map_option c_id (List.find (\<lambda>r. c_id r = cid) (clients d))))"

definition list_clients_except :: "bool \<Rightarrow> bytes \<Rightarrow> db \<Rightarrow> py_exn + (bytes \<times> bytes) list" where
  "list_clients_except ok cid d =
     (if \<not> ok then Inl OperationalError
      else Inr (map (\<lambda>r. (c_id r, c_name r)) (filter (\<lambda>r. c_id r \<noteq> cid) (clients d))))"

definition get_public_key_by_id :: "bool \<Rightarrow> bytes \<Rightarrow> db \<Rightarrow> py_exn + bytes option" where
  "get_public_key_by_id ok cid d =
     (if \<not> ok then Inl OperationalError
      else Inr (map_option c_pubkey (List.find (\<lambda>r. c_id r = cid) (clients d))))"

text \<open>The largest rowid SQLite gives out is \<open>2 ^ 63 - 1\<close>.\<close>

definition add_message :: "bool \<Rightarrow> bytes \<Rightarrow> bytes \<Rightarrow> nat \<Rightarrow> bytes \<Rightarrow> db \<Rightarrow> (py_exn + nat) \<times> db" where
  "add_message ok toClient fromClient message_type content d =
     (if \<not> ok \<or> 2 ^ 63 - 1 \<le> seq d then (Inl OperationalError, d)
      else (Inr (Suc (seq d)),
            d\<lparr>messages := messages d @ [\<lparr>m_id = Suc (seq d), m_to = toClient, m_from = fromClient,
                 m_type = message_type, m_content = content\<rparr>], seq := Suc (seq d)\<rparr>))"

type_synonym waiting_row = "nat \<times> bytes \<times> nat \<times> bytes"

definition get_waiting_messages :: "bool \<Rightarrow> bytes \<Rightarrow> db \<Rightarrow> py_exn + waiting_row list" where
  "get_waiting_messages ok toClient d =
     (if \<not> ok then Inl OperationalError
      else Inr (map (\<lambda>m. (m_id m, m_from m, m_type m, m_content m))
                 (sort_key m_id (filter (\<lambda>m. m_to m = toClient) (messages d)))))"

text \<open>\<open>max_vars\<close> is SQLite's limit on the variables of one statement.\<close>

definition delete_messages :: "bool \<Rightarrow> nat \<Rightarrow> nat list \<Rightarrow> db \<Rightarrow> (py_exn + unit) \<times> db" where
  "delete_messages ok max_vars message_ids d =
     (if message_ids = [] then (Inr (), d)
      else if \<not> ok \<or> max_vars < length message_ids then (Inl OperationalError, d)
      else (Inr (), d\<lparr>messages := filter (\<lambda>m. m_id m \<notin> set message_ids) (messages d)\<rparr>))"

section \<open>The invariant of the tables\<close>

definition client_row_ok :: "client_row \<Rightarrow> bool" where
  "client_row_ok r \<longleftrightarrow> length (c_id r) = SRV_CLIENT_ID_SIZE \<and> length (c_pubkey r) = SRV_PUBLIC_KEY_SIZE
     \<and> c_name r \<noteq> [] \<and> length (c_name r) \<le> SRV_NAME_SIZE \<and> (\<forall>c\<in>set (c_name r). 0 < c \<and> c \<le> 127)"

definition message_row_ok :: "bytes set \<Rightarrow> message_row \<Rightarrow> bool" where
  "message_row_ok ids m \<longleftrightarrow> m_to m \<in> ids \<and> m_from m \<in> ids
     \<and> m_type m \<in> {SRV_SYMMETRIC_KEY_REQUEST, SRV_SYMMETRIC_KEY_SEND, SRV_TEXT_MESSAGE}
     \<and> length (m_content m) < 2 ^ 32 \<and> (m_type m = SRV_SYMMETRIC_KEY_REQUEST \<longrightarrow> m_content m = [])"

definition db_ok :: "db \<Rightarrow> bool" where
  "db_ok d \<longleftrightarrow> distinct (map c_id (clients d)) \<and> distinct (map c_name (clients d))
     \<and> (\<forall>r\<in>set (clients d). client_row_ok r)
     \<and> sorted_wrt (<) (map m_id (messages d)) \<and> (\<forall>m\<in>set (messages d). m_id m \<le> seq d)
     \<and> (\<forall>m\<in>set (messages d). message_row_ok (c_id ` set (clients d)) m)"

lemma db_ok_empty [simp]: "db_ok empty_db"
  by (simp add: db_ok_def empty_db_def)

lemma db_okD:
  assumes "db_ok d"
  shows "distinct (map c_id (clients d))" and "distinct (map c_name (clients d))"
    and "r \<in> set (clients d) \<Longrightarrow> client_row_ok r"
    and "sorted_wrt (<) (map m_id (messages d))"
    and "m \<in> set (messages d) \<Longrightarrow> m_id m \<le> seq d"
    and "m \<in> set (messages d) \<Longrightarrow> message_row_ok (c_id ` set (clients d)) m"
  using assms by (auto simp: db_ok_def)

lemma message_row_ok_mono: "message_row_ok A m \<Longrightarrow> A \<subseteq> B \<Longrightarrow> message_row_ok B m"
  by (auto simp: message_row_ok_def)

lemma db_ok_add_client:
  assumes "db_ok d" and "add_client ok cid nm pk now d = (r, d')"
    and "length cid = 16" "length pk = 160" "nm \<noteq> []" "length nm \<le> 255" "\<forall>c\<in>set nm. 0 < c \<and> c \<le> 127"
  shows "db_ok d'"
  using assms message_row_ok_mono [OF _ subset_insertI [of "c_id ` set (clients d)" cid]]
  by (auto simp: add_client_def db_ok_def client_row_ok_def split: if_splits)

lemma db_ok_update_last_seen:
  assumes "db_ok d" and "update_client_last_seen ok cid now d = (r, d')"
  shows "db_ok d'"
proof (cases ok)
  case False
  with assms show ?thesis by (simp add: update_client_last_seen_def)
next
  case True
  define f where "f r = (if c_id r = cid then r\<lparr>c_last_seen := now\<rparr> else r)" for r :: client_row
  have d': "d' = d\<lparr>clients := map f (clients d)\<rparr>"
    using assms(2) True by (auto simp: update_client_last_seen_def f_def [abs_def])
  have cols: "map c_id (map f (clients d)) = map c_id (clients d)" "map c_name (map f (clients d)) = map c_name (clients d)"
    by (simp_all add: f_def)
  then have ids: "c_id ` set (map f (clients d)) = c_id ` set (clients d)"
    by (metis set_map)
  have rows: "client_row_ok (f r) = client_row_ok r" for r
    by (auto simp: f_def client_row_ok_def)
  have tabs: "clients d' = map f (clients d)" "messages d' = messages d" "seq d' = seq d"
    by (simp_all add: d')
  from assms(1) show ?thesis
    unfolding db_ok_def tabs cols ids by (simp add: rows)
qed

lemma sorted_wrt_snoc: "sorted_wrt (<) (xs @ [x :: nat]) \<longleftrightarrow> sorted_wrt (<) xs \<and> (\<forall>y\<in>set xs. y < x)"
  by (auto simp: sorted_wrt_append)

lemma db_ok_add_message:
  assumes "db_ok d" and "add_message ok t f ty c d = (r, d')"
    and "message_row_ok (c_id ` set (clients d)) \<lparr>m_id = 0, m_to = t, m_from = f, m_type = ty, m_content = c\<rparr>"
  shows "db_ok d'"
  using assms
  by (auto simp: add_message_def db_ok_def sorted_wrt_snoc message_row_ok_def less_Suc_eq_le le_SucI split: if_splits)

lemma db_ok_delete_messages:
  assumes "db_ok d" and "delete_messages ok mv ids d = (r, d')"
  shows "db_ok d'"
proof -
  have "sorted_wrt (<) (map m_id (filter P (messages d)))" for P
    using db_okD(4) [OF assms(1)] by (simp add: sorted_wrt_map sorted_wrt_filter)
  with assms show ?thesis
    by (auto simp: delete_messages_def db_ok_def split: if_splits)
qed

section \<open>The contract of the message store\<close>

locale message_store =
  fixes fetch :: "'d \<Rightarrow> bytes \<Rightarrow> (nat \<times> bytes \<times> nat \<times> bytes) list"
    and add :: "bytes \<Rightarrow> bytes \<Rightarrow> nat \<Rightarrow> bytes \<Rightarrow> 'd \<Rightarrow> nat \<times> 'd"
    and del :: "nat list \<Rightarrow> 'd \<Rightarrow> 'd"
    and inv :: "'d \<Rightarrow> bool"
  assumes fetch_add: "inv d \<Longrightarrow> fetch (snd (add t f ty c d)) r =
      fetch d r @ (if r = t then [(fst (add t f ty c d), f, ty, c)] else [])"
    and add_fresh: "inv d \<Longrightarrow> fst (add t f ty c d) \<notin> fst ` set (fetch d r)"
    and fetch_del: "inv d \<Longrightarrow> fetch (del ids d) r = filter (\<lambda>m. fst m \<notin> set ids) (fetch d r)"
    and fetch_disjoint: "inv d \<Longrightarrow> r \<noteq> s \<Longrightarrow> fst ` set (fetch d r) \<inter> fst ` set (fetch d s) = {}"
    and inv_del: "inv d \<Longrightarrow> inv (del ids d)"
begin

text \<open>Deleting what was fetched empties the recipient's queue and touches no other.\<close>

lemma fetch_deleted_own: "inv d \<Longrightarrow> fetch (del (map fst (fetch d r)) d) r = []"
  by (auto simp: fetch_del filter_empty_conv)

lemma fetch_deleted_other: "inv d \<Longrightarrow> r \<noteq> s \<Longrightarrow> fetch (del (map fst (fetch d r)) d) s = fetch d s"
  using fetch_disjoint [of d r s] by (auto simp: fetch_del filter_id_conv)

text \<open>A message stored between the SELECT and the DELETE of its recipient's fetch survives.\<close>

lemma add_between:
  assumes "inv d"
    and "inv (snd (add t f ty c d))"
  shows "fetch (del (map fst (fetch d t)) (snd (add t f ty c d))) t = [(fst (add t f ty c d), f, ty, c)]"
  using assms add_fresh [OF assms(1), of t f ty c t]
  by (auto simp: fetch_del fetch_add filter_empty_conv)

end

text \<open>What waits for a client, independently of the query: the messages addressed to it, each as its id,
  sender, type and content, in the order of their ids. A list is determined by this description.\<close>

definition waiting_for :: "db \<Rightarrow> bytes \<Rightarrow> waiting_row list \<Rightarrow> bool" where
  "waiting_for d me rows \<longleftrightarrow> sorted_wrt (<) (map fst rows)
     \<and> set rows = {(m_id m, m_from m, m_type m, m_content m) |m. m \<in> set (messages d) \<and> m_to m = me}"

text \<open>The same list computed, and the methods on a database whose statements succeed.\<close>

definition fetch_rows :: "db \<Rightarrow> bytes \<Rightarrow> waiting_row list" where
  "fetch_rows d r = map (\<lambda>m. (m_id m, m_from m, m_type m, m_content m)) (sort_key m_id (filter (\<lambda>m. m_to m = r) (messages d)))"

definition store_row :: "bytes \<Rightarrow> bytes \<Rightarrow> nat \<Rightarrow> bytes \<Rightarrow> db \<Rightarrow> nat \<times> db" where
  "store_row t f ty c d =
     (Suc (seq d), d\<lparr>messages := messages d @ [\<lparr>m_id = Suc (seq d), m_to = t, m_from = f, m_type = ty, m_content = c\<rparr>],
                     seq := Suc (seq d)\<rparr>)"

definition drop_rows :: "nat list \<Rightarrow> db \<Rightarrow> db" where
  "drop_rows ids d = snd (delete_messages True (length ids) ids d)"

text \<open>The part of the invariant the message table needs.\<close>

definition ids_ok :: "db \<Rightarrow> bool" where
  "ids_ok d \<longleftrightarrow> sorted_wrt (<) (map m_id (messages d)) \<and> (\<forall>m\<in>set (messages d). m_id m \<le> seq d)"

lemma db_ok_ids_ok: "db_ok d \<Longrightarrow> ids_ok d"
  by (simp add: db_ok_def ids_ok_def)

lemma sorted_ids: "ids_ok d \<Longrightarrow> sort_key m_id (filter P (messages d)) = filter P (messages d)"
proof -
  assume "ids_ok d"
  then have "sorted_wrt (<) (map m_id (filter P (messages d)))"
    by (simp add: ids_ok_def sorted_wrt_map sorted_wrt_filter)
  then have "sorted (map m_id (filter P (messages d)))"
    by (rule strict_sorted_imp_sorted)
  then show ?thesis by (rule sort_key_id_if_sorted)
qed

lemma fetch_rows_alt:
  "ids_ok d \<Longrightarrow> fetch_rows d r = map (\<lambda>m. (m_id m, m_from m, m_type m, m_content m)) (filter (\<lambda>m. m_to m = r) (messages d))"
  by (simp add: fetch_rows_def sorted_ids)

lemma waiting_for_iff:
  assumes "ids_ok d"
  shows "waiting_for d me rows \<longleftrightarrow> rows = fetch_rows d me"
proof -
  have "sorted_wrt (<) (map m_id (filter (\<lambda>m. m_to m = me) (messages d)))"
    using assms by (simp add: ids_ok_def sorted_wrt_map sorted_wrt_filter)
  then have sorted: "sorted_wrt (<) (map fst (fetch_rows d me))" by (simp add: fetch_rows_alt [OF assms] comp_def)
  moreover have "set (fetch_rows d me) = {(m_id m, m_from m, m_type m, m_content m) |m. m \<in> set (messages d) \<and> m_to m = me}"
    by (auto simp: fetch_rows_alt [OF assms])
  moreover have "rows = fetch_rows d me" if "sorted_wrt (<) (map fst rows)" "set rows = set (fetch_rows d me)"
    using that sorted by (intro map_sorted_distinct_set_unique [of fst])
      (auto simp: strict_sorted_iff distinct_map)
  ultimately show ?thesis by (auto simp: waiting_for_def)
qed

lemma drop_rows_alt: "drop_rows ids d = d\<lparr>messages := filter (\<lambda>m. m_id m \<notin> set ids) (messages d)\<rparr>"
  by (simp add: drop_rows_def delete_messages_def)

lemma ids_ok_drop: "ids_ok d \<Longrightarrow> ids_ok (drop_rows ids d)"
  by (simp add: ids_ok_def drop_rows_alt sorted_wrt_map sorted_wrt_filter)

lemma ids_ok_store: "ids_ok d \<Longrightarrow> ids_ok (snd (store_row t f ty c d))"
  by (auto simp: ids_ok_def store_row_def sorted_wrt_snoc less_Suc_eq_le)

lemma m_id_inj:
  assumes "ids_ok d" and "m \<in> set (messages d)" "n \<in> set (messages d)" "m_id m = m_id n"
  shows "m = n"
proof -
  have "distinct (map m_id (messages d))"
    using assms(1) strict_sorted_iff unfolding ids_ok_def by blast
  with assms show ?thesis by (auto simp: distinct_map dest: inj_onD)
qed

interpretation ms: message_store fetch_rows store_row drop_rows ids_ok
proof unfold_locales
  fix d r t f ty c
  assume d: "ids_ok d"
  show "fetch_rows (snd (store_row t f ty c d)) r =
      fetch_rows d r @ (if r = t then [(fst (store_row t f ty c d), f, ty, c)] else [])"
    by (simp add: fetch_rows_alt d ids_ok_store) (simp add: store_row_def)
  show "fst (store_row t f ty c d) \<notin> fst ` set (fetch_rows d r)"
    using d by (auto simp: fetch_rows_alt store_row_def ids_ok_def)
next
  fix d ids r
  assume d: "ids_ok d"
  then show "fetch_rows (drop_rows ids d) r = filter (\<lambda>m. fst m \<notin> set ids) (fetch_rows d r)"
    by (simp add: fetch_rows_alt ids_ok_drop) (simp add: drop_rows_alt filter_map o_def conj_commute)
  show "ids_ok (drop_rows ids d)" using d by (rule ids_ok_drop)
next
  fix d r s
  assume d: "ids_ok d" and "(r :: bytes) \<noteq> s"
  then show "fst ` set (fetch_rows d r) \<inter> fst ` set (fetch_rows d s) = {}"
    by (auto simp: fetch_rows_alt dest: m_id_inj [OF d])
qed

lemma get_waiting_messages_fetch: "get_waiting_messages True r d = Inr (fetch_rows d r)"
  by (simp add: fetch_rows_def get_waiting_messages_def)

lemma add_message_store:
  "seq d < 2 ^ 63 - 1 \<Longrightarrow> add_message True t f ty c d = (Inr (fst (store_row t f ty c d)), snd (store_row t f ty c d))"
  by (simp add: add_message_def store_row_def)

lemma delete_messages_drop:
  "length ids \<le> mv \<Longrightarrow> delete_messages True mv ids d = (Inr (), drop_rows ids d)"
  by (simp add: delete_messages_def drop_rows_def)

end
