(* ===== verification/Py_Bytes.thy ===== *)
theory Py_Bytes
  imports Client_Utilities
begin

text \<open>
  Python's \<^verbatim>\<open>int.from_bytes(.., "little")\<close>, \<^verbatim>\<open>int.to_bytes(n, "little")\<close> and the ASCII codec,
  as the server uses them, and the agreement of the number encodings with the client's.
\<close>

fun from_bytes :: "bytes \<Rightarrow> nat" where
  "from_bytes [] = 0"
| "from_bytes (b # bs) = unat b + 256 * from_bytes bs"

fun le_bytes :: "nat \<Rightarrow> nat \<Rightarrow> bytes" where
  "le_bytes 0 v = []"
| "le_bytes (Suc n) v = of_nat (v mod 256) # le_bytes n (v div 256)"

definition to_bytes :: "nat \<Rightarrow> nat \<Rightarrow> py_exn + bytes" where
  "to_bytes n v = (if 256 ^ n \<le> v then Inl OverflowError else Inr (le_bytes n v))"

definition decode_ascii :: "bytes \<Rightarrow> py_exn + bytes" where
  "decode_ascii bs = (if list_ex (\<lambda>c. 127 < c) bs then Inl UnicodeDecodeError else Inr bs)"

text \<open>\<^verbatim>\<open>str.encode("ascii", errors="replace")\<close>: a character outside ASCII becomes \<^verbatim>\<open>?\<close>.\<close>

definition encode_ascii_replace :: "bytes \<Rightarrow> bytes" where
  "encode_ascii_replace s = map (\<lambda>c. if 127 < c then 63 else c) s"

lemma length_le_bytes [wire_simps]: "length (le_bytes n v) = n"
  by (induction n arbitrary: v) auto

lemma from_le_bytes: "from_bytes (le_bytes n v) = v mod 256 ^ n"
proof (induction n arbitrary: v)
  case (Suc n)
  have "v mod 256 ^ Suc n = v mod 256 + 256 * ((v div 256) mod 256 ^ n)"
    by (simp add: mod_mult2_eq)
  then show ?case using Suc by (simp add: unat_of_nat)
qed simp

lemma from_bytes_less: "from_bytes bs < 256 ^ length bs"
proof (induction bs)
  case (Cons b bs)
  have "unat b < 256" using unsigned_less [of b, where 'a = nat] by simp
  with Cons show ?case by simp
qed simp

lemma byte_of_word:
  fixes w :: "'a::len word"
  shows "(ucast (w AND 0xFF) :: byte) = of_nat (unat w mod 256)"
proof -
  have m: "(0xFF :: 'a word) = mask 8" by (simp add: mask_eq_exp_minus_1)
  have "(ucast (w AND 0xFF) :: byte) = ucast w"
    unfolding m by (rule bit_word_eqI) (auto simp: bit_simps dest: bit_imp_le_length)
  also have "\<dots> = of_nat (unat w)" by simp
  also have "\<dots> = of_nat (unat w mod 256)" by (simp only: word_of_nat_eq_iff take_bit_eq_mod) simp
  finally show ?thesis .
qed

lemma le_bytes_2: "le_bytes 2 v = [of_nat (v mod 256), of_nat (v div 256 mod 256)]"
proof -
  have n: "2 = Suc (Suc 0)" by simp
  show ?thesis unfolding n le_bytes.simps by simp
qed

lemma le_bytes_4:
  "le_bytes 4 v = [of_nat (v mod 256), of_nat (v div 256 mod 256), of_nat (v div 65536 mod 256), of_nat (v div 16777216 mod 256)]"
proof -
  have n: "4 = Suc (Suc (Suc (Suc 0)))" by simp
  show ?thesis unfolding n le_bytes.simps by (simp add: div_mult2_eq [symmetric])
qed

lemma appendUint32LE_le_bytes: "appendUint32LE [] v = le_bytes 4 (unat v)"
  unfolding le_bytes_4 by (simp add: appendUint32LE_def byte_of_word drop_bit_eq_div unat_div)

lemma appendUint16LE_le_bytes: "appendUint16LE [] v = le_bytes 2 (unat v)"
  unfolding le_bytes_2 by (simp add: appendUint16LE_def byte_of_word drop_bit_eq_div unat_div)

lemma from_bytes_appendUint32LE: "from_bytes (appendUint32LE [] v) = unat v"
  using unsigned_less [of v, where 'a = nat] by (simp add: appendUint32LE_le_bytes from_le_bytes)

lemma from_bytes_appendUint16LE: "from_bytes (appendUint16LE [] v) = unat v"
  using unsigned_less [of v, where 'a = nat] by (simp add: appendUint16LE_le_bytes from_le_bytes)

lemma le_bytes_of_nat_u32: "v < 2 ^ 32 \<Longrightarrow> le_bytes 4 v = appendUint32LE [] (of_nat v)"
  by (simp add: appendUint32LE_le_bytes unat_of_nat)

end
