(* ===== verification/Server_Requests.thy ===== *)
theory Server_Requests
  imports Server_Db Py_Bytes Wire_Format
begin

text \<open>
  \<^verbatim>\<open>Server/request_handler.py\<close>: the dispatcher and the five request handlers. What one call
  takes from its surroundings is the record \<open>srv_env\<close>: the clock, the random token, whether
  each SQL statement of the call succeeds (numbered in the order the call runs them), and
  SQLite's limit on variables. A handler returns a Python exception or the response bytes
  with the database it leaves; the dispatcher turns every exception into the error
  response. The server's \<^verbatim>\<open>print\<close> lines are left out.
\<close>

record srv_env =
  now :: string
  token :: bytes
  stmt_ok :: "nat \<Rightarrow> bool"
  max_vars :: nat

text \<open>\<^verbatim>\<open>secrets.token_bytes(16)\<close> returns 16 bytes.\<close>

definition env_ok :: "srv_env \<Rightarrow> bool" where
  "env_ok e \<longleftrightarrow> length (token e) = SRV_CLIENT_ID_SIZE"

section \<open>Responses\<close>

definition build_response :: "nat \<Rightarrow> bytes \<Rightarrow> py_exn + bytes" where
  "build_response code payload =
     (if 2 ^ 16 \<le> code \<or> 2 ^ 32 \<le> length payload then Inl StructError
      else Inr (le_bytes 1 SRV_SERVER_VERSION @ le_bytes 2 code @ le_bytes 4 (length payload) @ payload))"

definition build_error_response :: "py_exn + bytes" where
  "build_error_response = build_response SRV_ERROR_GENERAL []"

section \<open>Handlers\<close>

definition register_handler :: "srv_env \<Rightarrow> bytes \<Rightarrow> db \<Rightarrow> (py_exn + bytes) \<times> db" where
  "register_handler e data d =
     (if length data \<noteq> SRV_HEADER_SIZE + SRV_NAME_SIZE + SRV_PUBLIC_KEY_SIZE then (build_error_response, d)
      else let raw_name = bslice SRV_HEADER_SIZE SRV_NAME_SIZE data;
               pubKey = bslice (SRV_HEADER_SIZE + SRV_NAME_SIZE) SRV_PUBLIC_KEY_SIZE data;
               raw_name = takeWhile (\<lambda>c. c \<noteq> 0) raw_name
      in case decode_ascii raw_name of Inl _ \<Rightarrow> (build_error_response, d) | Inr nm \<Rightarrow>
         if nm = [] then (build_error_response, d)
         else let cid = token e in
           case add_client (stmt_ok e 0) cid nm pubKey (now e) d of
             (Inl _, d) \<Rightarrow> (build_error_response, d)
           | (Inr _, d) \<Rightarrow> (build_response SRV_RESPONSE_REGISTER cid, d))"

definition client_list_entry :: "bytes \<times> bytes \<Rightarrow> bytes" where
  "client_list_entry r =
     (case r of (cid, username) \<Rightarrow>
      let name_bytes = take (SRV_NAME_SIZE - 1) (encode_ascii_replace username);
          name_bytes = name_bytes @ replicate (SRV_NAME_SIZE - length name_bytes) 0
      in cid @ name_bytes)"

definition clients_list_handler :: "srv_env \<Rightarrow> bytes \<Rightarrow> db \<Rightarrow> (py_exn + bytes) \<times> db" where
  "clients_list_handler e data d =
     (if length data \<noteq> SRV_HEADER_SIZE then (build_error_response, d)
      else let requester_id = take SRV_CLIENT_ID_SIZE data in
        case list_clients_except (stmt_ok e 2) requester_id d of Inl x \<Rightarrow> (Inl x, d) | Inr rows \<Rightarrow>
        let payload = foldl (\<lambda>payload r. payload @ client_list_entry r) [] rows
        in (build_response SRV_RESPONSE_CLIENT_LIST payload, d))"

definition public_key_handler :: "srv_env \<Rightarrow> bytes \<Rightarrow> db \<Rightarrow> (py_exn + bytes) \<times> db" where
  "public_key_handler e data d =
     (if length data \<noteq> SRV_HEADER_SIZE + SRV_CLIENT_ID_SIZE then (build_error_response, d)
      else let requested_id = bslice SRV_HEADER_SIZE SRV_CLIENT_ID_SIZE data in
        case get_public_key_by_id (stmt_ok e 2) requested_id d of Inl x \<Rightarrow> (Inl x, d) | Inr pk \<Rightarrow>
        case pk of
          None \<Rightarrow> (build_error_response, d)
        | Some k \<Rightarrow> if length k \<noteq> SRV_PUBLIC_KEY_SIZE then (build_error_response, d)
                    else (build_response SRV_RESPONSE_PUBLIC_KEY (requested_id @ k), d))"

fun waiting_payload :: "bytes \<Rightarrow> nat list \<Rightarrow> waiting_row list \<Rightarrow> py_exn + bytes \<times> nat list" where
  "waiting_payload payload ids [] = Inr (payload, ids)"
| "waiting_payload payload ids ((msg_id, from_client, msg_type, content) # rows) =
     (case to_bytes SRV_MESSAGE_ID msg_id of Inl x \<Rightarrow> Inl x | Inr i \<Rightarrow>
      case to_bytes SRV_MESSAGE_TYPE_SIZE msg_type of Inl x \<Rightarrow> Inl x | Inr t \<Rightarrow>
      case to_bytes SRV_CONTENT_SIZE (length content) of Inl x \<Rightarrow> Inl x | Inr n \<Rightarrow>
      waiting_payload (payload @ from_client @ i @ t @ n @ content) (ids @ [msg_id]) rows)"

definition waiting_messages_handler :: "srv_env \<Rightarrow> bytes \<Rightarrow> db \<Rightarrow> (py_exn + bytes) \<times> db" where
  "waiting_messages_handler e data d =
     (if length data \<noteq> SRV_HEADER_SIZE then (build_error_response, d)
      else let requester_id = take SRV_CLIENT_ID_SIZE data in
        case get_waiting_messages (stmt_ok e 2) requester_id d of Inl x \<Rightarrow> (Inl x, d) | Inr rows \<Rightarrow>
        case waiting_payload [] [] rows of Inl x \<Rightarrow> (Inl x, d) | Inr (payload, ids) \<Rightarrow>
        case delete_messages (stmt_ok e 3) (max_vars e) ids d of
          (Inl x, d) \<Rightarrow> (Inl x, d)
        | (Inr _, d) \<Rightarrow> (build_response SRV_RESPONSE_WAITING_MESSAGES payload, d))"

definition send_message_handler :: "srv_env \<Rightarrow> bytes \<Rightarrow> db \<Rightarrow> (py_exn + bytes) \<times> db" where
  "send_message_handler e data d =
     (let min_len = SRV_HEADER_SIZE + SRV_CLIENT_ID_SIZE + SRV_MESSAGE_TYPE_SIZE + SRV_CONTENT_SIZE in
      if length data < min_len then (build_error_response, d)
      else let requester_id = take SRV_CLIENT_ID_SIZE data;
               requested_id = bslice SRV_HEADER_SIZE SRV_CLIENT_ID_SIZE data in
        case client_exists (stmt_ok e 2) requested_id d of Inl x \<Rightarrow> (Inl x, d) | Inr found \<Rightarrow>
        if found = None then (build_error_response, d)
        else let msg_type = unat (data ! (SRV_HEADER_SIZE + SRV_CLIENT_ID_SIZE)) in
        if msg_type \<notin> {SRV_SYMMETRIC_KEY_REQUEST, SRV_SYMMETRIC_KEY_SEND, SRV_TEXT_MESSAGE}
        then (build_error_response, d)
        else let content_size = from_bytes (bslice (SRV_HEADER_SIZE + SRV_CLIENT_ID_SIZE + SRV_MESSAGE_TYPE_SIZE)
                                              SRV_CONTENT_SIZE data) in
        if length data \<noteq> min_len + content_size then (build_error_response, d)
        else if msg_type = SRV_SYMMETRIC_KEY_REQUEST \<and> content_size \<noteq> 0 then (build_error_response, d)
        else let content = bslice min_len content_size data in
        case add_message (stmt_ok e 3) requested_id requester_id msg_type content d of
          (Inl x, d) \<Rightarrow> (Inl x, d)
        | (Inr msg_id, d) \<Rightarrow>
            (case to_bytes SRV_MESSAGE_ID msg_id of Inl x \<Rightarrow> (Inl x, d) | Inr i \<Rightarrow>
             (build_response SRV_RESPONSE_MESSAGE_SENT (requested_id @ i), d)))"

section \<open>The dispatcher\<close>

text \<open>The body of the \<^verbatim>\<open>try\<close>.\<close>

definition dispatch :: "srv_env \<Rightarrow> nat \<Rightarrow> bytes \<Rightarrow> db \<Rightarrow> (py_exn + bytes) \<times> db" where
  "dispatch e code data d =
     (if code = SRV_REQUEST_REGISTER then register_handler e data d
      else let requester_id = take SRV_CLIENT_ID_SIZE data in
        case client_exists (stmt_ok e 0) requester_id d of Inl x \<Rightarrow> (Inl x, d) | Inr found \<Rightarrow>
        if found = None then (build_error_response, d)
        else case update_client_last_seen (stmt_ok e 1) requester_id (now e) d of
          (Inl x, d) \<Rightarrow> (Inl x, d)
        | (Inr _, d) \<Rightarrow>
            if code = SRV_REQUEST_CLIENTS_LIST then clients_list_handler e data d
            else if code = SRV_REQUEST_PUBLIC_KEY then public_key_handler e data d
            else if code = SRV_REQUEST_WAITING_MESSAGES then waiting_messages_handler e data d
            else if code = SRV_REQUEST_SEND_MESSAGE then send_message_handler e data d
            else (build_error_response, d))"

definition request_handler_main :: "srv_env \<Rightarrow> bytes \<Rightarrow> db \<Rightarrow> (py_exn + bytes) \<times> db" where
  "request_handler_main e data d =
     (if length data < SRV_HEADER_SIZE then (build_error_response, d)
      else let payload_size = from_bytes (bslice SRV_PAYLOAD_SIZE_OFFSET SRV_CONTENT_SIZE data) in
        if length data \<noteq> SRV_HEADER_SIZE + payload_size then (build_error_response, d)
        else if unat (data ! SRV_VERSION_OFFSET) \<noteq> SRV_CLIENT_VERSION then (build_error_response, d)
        else let code = from_bytes (bslice SRV_CODE_OFFSET SRV_CODE_SIZE data) in
        case dispatch e code data d of
          (Inl _, d) \<Rightarrow> (build_error_response, d)
        | (Inr r, d) \<Rightarrow> (Inr r, d))"

section \<open>The tables stay well-formed\<close>

lemma db_ok_register:
  assumes "db_ok d" and "env_ok e" and "register_handler e data d = (r, d')"
  shows "db_ok d'"
proof (cases "length data = 438")
  case False
  with assms show ?thesis by (simp add: register_handler_def)
next
  case True
  let ?raw = "takeWhile (\<lambda>c. c \<noteq> 0) (bslice 23 255 data)" and ?pk = "bslice 278 160 data"
  show ?thesis
  proof (cases "decode_ascii ?raw = Inr ?raw \<and> ?raw \<noteq> []")
    case bad: False
    with assms True show ?thesis
      by (auto simp: register_handler_def Let_def decode_ascii_def split: if_splits)
  next
    case good: True
    obtain x where add: "add_client (stmt_ok e 0) (token e) ?raw ?pk (now e) d = (x, d')"
      using assms(3) True good by (auto simp: register_handler_def Let_def split: prod.splits sum.splits)
    have "\<forall>c\<in>set ?raw. 0 < c \<and> c \<le> 127"
      using good by (auto simp: decode_ascii_def list_ex_iff not_less word_gt_0 dest: set_takeWhileD split: if_splits)
    moreover have "length ?raw \<le> 255"
      by (rule order_trans [OF length_takeWhile_le]) (simp add: wire_simps)
    ultimately show ?thesis
      using db_ok_add_client [OF assms(1) add] good True assms(2) by (simp add: env_ok_def wire_simps)
  qed
qed

lemma client_exists_mem:
  "client_exists ok cid d = Inr (Some x) \<Longrightarrow> cid \<in> c_id ` set (clients d)"
  by (auto simp: client_exists_def find_Some_iff split: if_splits)

lemma client_exists_ok:
  "client_exists ok cid d =
     (if ok then Inr (if cid \<in> c_id ` set (clients d) then Some cid else None) else Inl OperationalError)"
proof (cases "List.find (\<lambda>r. c_id r = cid) (clients d)")
  case None
  then show ?thesis by (force simp: client_exists_def find_None_iff)
next
  case (Some r)
  then have "c_id r = cid" and "r \<in> set (clients d)" by (auto simp: find_Some_iff)
  with Some show ?thesis by (auto simp: client_exists_def)
qed

lemma update_last_seen_keeps:
  assumes "update_client_last_seen ok cid t d = (r, d')"
  shows "messages d' = messages d" and "seq d' = seq d" and "map c_id (clients d') = map c_id (clients d)"
    and "map c_name (clients d') = map c_name (clients d)" and "map c_pubkey (clients d') = map c_pubkey (clients d)"
  using assms by (cases ok; auto simp: update_client_last_seen_def)+

lemma update_last_seen_ids:
  "update_client_last_seen ok cid t d = (r, d') \<Longrightarrow> c_id ` set (clients d') = c_id ` set (clients d)"
  by (metis update_last_seen_keeps(3) set_map)

text \<open>What a send request must be for its message to be stored.\<close>

definition send_accepted :: "bytes \<Rightarrow> db \<Rightarrow> bool" where
  "send_accepted data d \<longleftrightarrow> 44 \<le> length data \<and> bslice 23 16 data \<in> c_id ` set (clients d)
     \<and> unat (data ! 39) \<in> {1, 2, 3} \<and> length data = 44 + from_bytes (bslice 40 4 data)
     \<and> (unat (data ! 39) = 1 \<longrightarrow> length data = 44)"

lemma send_message_cases:
  "send_message_handler e data d =
    (if \<not> stmt_ok e 2 \<and> 44 \<le> length data then (Inl OperationalError, d)
     else if send_accepted data d then
       (case add_message (stmt_ok e 3) (bslice 23 16 data) (take 16 data) (unat (data ! 39)) (drop 44 data) d of
          (Inl x, d) \<Rightarrow> (Inl x, d)
        | (Inr i, d) \<Rightarrow> (case to_bytes 4 i of Inl x \<Rightarrow> (Inl x, d)
                       | Inr b \<Rightarrow> (build_response 2103 (bslice 23 16 data @ b), d)))
     else (build_error_response, d))"
proof -
  define t n ty where "t = bslice 23 16 data" and "n = from_bytes (bslice 40 4 data)" and "ty = unat (data ! 39)"
  have acc: "send_accepted data d \<longleftrightarrow> 44 \<le> length data \<and> t \<in> c_id ` set (clients d)
     \<and> ty \<in> {1, 2, 3} \<and> length data = 44 + n \<and> (ty = 1 \<longrightarrow> length data = 44)"
    by (simp only: send_accepted_def t_def n_def ty_def)
  have all: "length data = 44 + n \<Longrightarrow> bslice 44 n data = drop 44 data"
    by (simp add: bslice_def)
  have sums: "(23 :: nat) + 16 = 39" "(39 :: nat) + 1 = 40" "(40 :: nat) + 4 = 44" by simp_all
  have start: "send_message_handler e data d =
     (if length data < 44 then (build_error_response, d) else
      case client_exists (stmt_ok e 2) t d of Inl x \<Rightarrow> (Inl x, d) | Inr found \<Rightarrow>
        if found = None then (build_error_response, d)
        else if ty \<notin> {1, 2, 3} then (build_error_response, d)
        else if length data \<noteq> 44 + n then (build_error_response, d)
        else if ty = 1 \<and> n \<noteq> 0 then (build_error_response, d)
        else case add_message (stmt_ok e 3) t (take 16 data) ty (bslice 44 n data) d of
          (Inl x, d) \<Rightarrow> (Inl x, d)
        | (Inr i, d) \<Rightarrow> (case to_bytes 4 i of Inl x \<Rightarrow> (Inl x, d)
                       | Inr b \<Rightarrow> (build_response 2103 (t @ b), d)))"
    unfolding send_message_handler_def Let_def t_def n_def ty_def sums by (rule refl)
  show ?thesis
    unfolding start acc client_exists_ok t_def [symmetric] ty_def [symmetric]
    by (cases "stmt_ok e 2"; cases "length data < 44"; cases "t \<in> c_id ` set (clients d)";
        cases "ty \<in> {1, 2, 3}"; cases "length data = 44 + n"; cases "ty = 1")
       (simp_all only: all, simp_all)
qed

lemma db_ok_send:
  assumes "db_ok d" and "send_message_handler e data d = (r, d')" and "take 16 data \<in> c_id ` set (clients d)"
  shows "db_ok d'"
proof (cases "send_accepted data d \<and> stmt_ok e 2")
  case False
  with assms have "d' = d" by (auto simp: send_message_cases send_accepted_def split: if_splits)
  with assms show ?thesis by simp
next
  case True
  obtain y d1 where add:
    "add_message (stmt_ok e 3) (bslice 23 16 data) (take 16 data) (unat (data ! 39)) (drop 44 data) d = (y, d1)"
    by fastforce
  have "from_bytes (bslice 40 4 data) < 2 ^ 32"
    using from_bytes_less [of "bslice 40 4 data"] True by (simp add: send_accepted_def wire_simps)
  with True assms(3) have "message_row_ok (c_id ` set (clients d))
      \<lparr>m_id = 0, m_to = bslice 23 16 data, m_from = take 16 data, m_type = unat (data ! 39), m_content = drop 44 data\<rparr>"
    by (auto simp: message_row_ok_def send_accepted_def)
  then have "db_ok d1" by (rule db_ok_add_message [OF assms(1) add])
  moreover have "d' = d1"
    using assms(2) True add by (auto simp: send_message_cases split: sum.splits)
  ultimately show ?thesis by simp
qed

lemma db_ok_waiting:
  assumes "db_ok d" and "waiting_messages_handler e data d = (r, d')"
  shows "db_ok d'"
proof (cases "d' = d")
  case True
  with assms show ?thesis by blast
next
  case False
  with assms(2) obtain ids x where "delete_messages (stmt_ok e 3) (max_vars e) ids d = (x, d')"
    by (auto simp: waiting_messages_handler_def Let_def split: if_splits sum.splits prod.splits)
  with assms(1) show ?thesis by (rule db_ok_delete_messages)
qed

lemma reads_only:
  "clients_list_handler e data d = (r, d') \<Longrightarrow> d' = d"
  "public_key_handler e data d = (r', d'') \<Longrightarrow> d'' = d"
  by (auto simp: clients_list_handler_def public_key_handler_def Let_def split: if_splits sum.splits option.splits)

lemma db_ok_dispatch:
  assumes "db_ok d" and "env_ok e" and "dispatch e code data d = (r, d')"
  shows "db_ok d'"
proof (cases "code = 700")
  case True
  with assms db_ok_register show ?thesis by (simp add: dispatch_def)
next
  case False
  show ?thesis
  proof (cases "\<exists>x. client_exists (stmt_ok e 0) (take 16 data) d = Inr (Some x)")
    case no: False
    with assms False have "d' = d"
      by (auto simp: dispatch_def Let_def split: sum.splits if_splits)
    with assms show ?thesis by simp
  next
    case True
    then obtain x where x: "client_exists (stmt_ok e 0) (take 16 data) d = Inr (Some x)" ..
    obtain u v where u: "update_client_last_seen (stmt_ok e 1) (take 16 data) (now e) d = (u, v)" by fastforce
    have v: "db_ok v" and req: "take 16 data \<in> c_id ` set (clients v)"
      using db_ok_update_last_seen [OF assms(1) u] update_last_seen_ids [OF u] client_exists_mem [OF x] by simp_all
    have "d' = v \<or> clients_list_handler e data v = (r, d') \<or> public_key_handler e data v = (r, d')
      \<or> waiting_messages_handler e data v = (r, d') \<or> send_message_handler e data v = (r, d')"
      using assms(3) False x u by (auto simp: dispatch_def Let_def split: sum.splits if_splits)
    with v req show ?thesis
      using db_ok_waiting db_ok_send reads_only by metis
  qed
qed

lemma request_cases:
  "request_handler_main e data d =
     (if length data < 23 \<or> length data \<noteq> 23 + from_bytes (bslice 19 4 data) \<or> unat (data ! 16) \<noteq> 1
      then (build_error_response, d)
      else case dispatch e (from_bytes (bslice 17 2 data)) data d of
          (Inl _, d) \<Rightarrow> (build_error_response, d)
        | (Inr r, d) \<Rightarrow> (Inr r, d))"
  by (simp add: request_handler_main_def Let_def)

lemma db_ok_request:
  assumes "db_ok d" and "env_ok e" and "request_handler_main e data d = (r, d')"
  shows "db_ok d'"
proof -
  obtain x d1 where x: "dispatch e (from_bytes (bslice 17 2 data)) data d = (x, d1)" by fastforce
  from assms(3) have "d' = d \<or> d' = d1"
    unfolding request_cases x by (cases x) (auto split: if_splits)
  with assms(1) db_ok_dispatch [OF assms(1,2) x] show ?thesis by blast
qed

end
