(* ===== verification/Server_Lemmas.thy ===== *)
theory Server_Lemmas
  imports Server_Requests
begin

text \<open>
  What the request handlers compute: the payload loops as concatenations of encoded records
  (the server's side of \<open>stream_codec\<close>), the shape of every response, and each request code's
  effect on the tables.
\<close>

section \<open>Responses\<close>

text \<open>A response is a 7 byte header (version 2, code, payload size) and the payload.\<close>

definition response_bytes :: "nat \<Rightarrow> bytes \<Rightarrow> bytes" where
  "response_bytes code payload = le_bytes 1 2 @ le_bytes 2 code @ le_bytes 4 (length payload) @ payload"

definition error_bytes :: bytes where
  "error_bytes = response_bytes 9000 []"

definition response_ok :: "bytes \<Rightarrow> bool" where
  "response_ok r \<longleftrightarrow> (\<exists>code payload. code < 2 ^ 16 \<and> length payload < 2 ^ 32 \<and> r = response_bytes code payload)"

lemma build_response_alt:
  "build_response code p = (if 2 ^ 16 \<le> code \<or> 2 ^ 32 \<le> length p then Inl StructError else Inr (response_bytes code p))"
  by (simp add: build_response_def response_bytes_def)

lemma build_error_response_alt [simp]: "build_error_response = Inr error_bytes"
  by (simp add: build_error_response_def build_response_alt error_bytes_def)

lemma response_ok_error [simp]: "response_ok error_bytes"
  unfolding response_ok_def error_bytes_def by (rule exI [of _ 9000], rule exI [of _ "[]"]) simp

lemma response_ok_build: "build_response code p = Inr r \<Longrightarrow> response_ok r"
  unfolding response_ok_def build_response_alt by (metis Inl_Inr_False Inr_inject not_le)

lemma le_bytes_1: "le_bytes 1 v = [of_nat (v mod 256)]"
  by (simp add: One_nat_def)

lemma response_bytes_split: "response_bytes code p = [2] @ le_bytes 2 code @ le_bytes 4 (length p) @ p"
  by (simp add: response_bytes_def le_bytes_1)

lemma response_bytes_fields:
  assumes "code < 2 ^ 16" and "length p < 2 ^ 32"
  shows "length (response_bytes code p) = 7 + length p" and "response_bytes code p ! 0 = 2"
    and "from_bytes (bslice 1 2 (response_bytes code p)) = code"
    and "from_bytes (bslice 3 4 (response_bytes code p)) = length p"
    and "drop 7 (response_bytes code p) = p"
proof -
  note split = response_bytes_split [of code p]
  show "length (response_bytes code p) = 7 + length p"
    unfolding split by (simp add: length_le_bytes)
  show "response_bytes code p ! 0 = 2" unfolding split by simp
  have "bslice 1 2 (response_bytes code p) = le_bytes 2 code"
    unfolding split by (simp add: bslice_append length_le_bytes bslice_def)
  with assms show "from_bytes (bslice 1 2 (response_bytes code p)) = code"
    by (simp add: from_le_bytes)
  have "bslice 3 4 (response_bytes code p) = le_bytes 4 (length p)"
    unfolding split by (simp add: bslice_append length_le_bytes bslice_def)
  with assms show "from_bytes (bslice 3 4 (response_bytes code p)) = length p"
    by (simp add: from_le_bytes)
  show "drop 7 (response_bytes code p) = p"
    unfolding split by (simp add: length_le_bytes)
qed

section \<open>The client list\<close>

text \<open>What a reader of the list sees of a row: the id and the name, cut to 254 characters.\<close>

definition entry_view :: "bytes \<times> bytes \<Rightarrow> bytes \<times> bytes" where
  "entry_view r = (fst r, take 254 (snd r))"

definition entry_ok :: "bytes \<times> bytes \<Rightarrow> bool" where
  "entry_ok r \<longleftrightarrow> length (fst r) = 16 \<and> (\<forall>c\<in>set (snd r). 0 < c \<and> c \<le> 127)"

lemma encode_ascii_id: "\<forall>c\<in>set s. c \<le> 127 \<Longrightarrow> encode_ascii_replace s = s"
  unfolding encode_ascii_replace_def by (rule map_idI) (auto simp: not_less [symmetric])

lemma client_list_entry_alt:
  assumes "entry_ok r"
  shows "client_list_entry r = fst r @ take 254 (snd r) @ replicate (255 - length (take 254 (snd r))) 0"
proof -
  have "encode_ascii_replace (snd r) = snd r"
    using assms by (intro encode_ascii_id) (simp add: entry_ok_def)
  then show ?thesis by (cases r) (simp add: client_list_entry_def Let_def)
qed

lemma length_client_list_entry: "entry_ok r \<Longrightarrow> length (client_list_entry r) = 271"
  by (simp add: client_list_entry_alt entry_ok_def)

lemma dec_client_list_entry:
  assumes "entry_ok r"
  shows "dec_entry (client_list_entry r @ rest) = Some (entry_view r, rest)"
proof -
  define nm k where "nm = take 254 (snd r)" and "k = 254 - length nm"
  have cid: "length (fst r) = 16" and nz: "\<forall>c\<in>set nm. c \<noteq> 0"
    using assms by (auto simp: entry_ok_def nm_def dest: in_set_takeD)
  have k: "255 - length nm = Suc k" and len: "length nm + k = 254"
    by (simp_all add: nm_def k_def)
  have e: "client_list_entry r = fst r @ nm @ 0 # replicate k 0"
    using client_list_entry_alt [OF assms] by (simp add: nm_def [symmetric] k)
  have "bslice 16 255 (client_list_entry r @ rest) = nm @ 0 # replicate k 0"
    using cid len by (simp add: e bslice_def k)
  moreover have "takeWhile (\<lambda>c. c \<noteq> 0) (nm @ 0 # replicate k 0) = nm"
    using nz by (intro takeWhile_append_stop) simp_all
  ultimately show ?thesis
    using length_client_list_entry [OF assms] cid
    by (simp add: dec_entry_def entry_view_def e nm_def [symmetric] k)
qed

interpretation entries: stream_codec client_list_entry dec_entry entry_view entry_ok
  by unfold_locales (auto simp: dec_client_list_entry dec_entry_shrinks)

lemma payload_concat: "foldl (\<lambda>p r. p @ f r) p rows = p @ concat (map f rows)"
  by (induction rows arbitrary: p) auto

lemma clients_list_handler_alt:
  "length data = 23 \<Longrightarrow> stmt_ok e 2 \<Longrightarrow> clients_list_handler e data d =
    (build_response 2101 (concat (map (\<lambda>r. client_list_entry (c_id r, c_name r))
       (filter (\<lambda>r. c_id r \<noteq> take 16 data) (clients d)))), d)"
  by (simp add: clients_list_handler_def list_clients_except_def payload_concat Let_def comp_def)

section \<open>Waiting messages\<close>

definition encode_row :: "waiting_row \<Rightarrow> bytes" where
  "encode_row m = (case m of (i, f, ty, c) \<Rightarrow> f @ le_bytes 4 i @ le_bytes 1 ty @ le_bytes 4 (length c) @ c)"

definition row_ok :: "waiting_row \<Rightarrow> bool" where
  "row_ok m \<longleftrightarrow> (case m of (i, f, ty, c) \<Rightarrow> length f = 16 \<and> i < 2 ^ 32 \<and> ty < 2 ^ 8 \<and> length c < 2 ^ 32)"

definition row_view :: "waiting_row \<Rightarrow> waiting_record" where
  "row_view m = (case m of (i, f, ty, c) \<Rightarrow>
     \<lparr>wr_from = f, wr_id = of_nat i, wr_type = of_nat ty, wr_content = c\<rparr>)"

lemma length_encode_row: "length (encode_row (i, f, ty, c)) = length f + 9 + length c"
  by (simp add: encode_row_def length_le_bytes)

lemma dec_encode_row:
  assumes "row_ok m"
  shows "dec_record (encode_row m @ rest) = Some (row_view m, rest)"
proof -
  obtain i f ty c where m: "m = (i, f, ty, c)" by (cases m)
  have f: "length f = 16" and i: "i < 2 ^ 32" and ty: "ty < 2 ^ 8" and c: "length c < 2 ^ 32"
    using assms by (simp_all add: row_ok_def m)
  let ?bs = "encode_row m @ rest"
  have e: "?bs = f @ appendUint32LE [] (of_nat i) @ [of_nat ty] @ appendUint32LE [] (of_nat (length c)) @ c @ rest"
    using i ty c by (simp add: encode_row_def m le_bytes_1 le_bytes_of_nat_u32)
  have L: "length (appendUint32LE [] v) = 4" for v by (simp add: appendUint32LE_def)
  have "drop 16 ?bs = appendUint32LE [] (of_nat i) @ ([of_nat ty] @ appendUint32LE [] (of_nat (length c)) @ c @ rest)"
    by (simp add: e f)
  then have a: "le32 (drop 16 ?bs) = of_nat i" by (simp only: le32_append)
  have "drop 21 ?bs = appendUint32LE [] (of_nat (length c)) @ (c @ rest)"
    by (simp add: e f L)
  then have b: "le32 (drop 21 ?bs) = of_nat (length c)" by (simp only: le32_append)
  have n: "unat (of_nat (length c) :: u32) = length c"
    using c by (simp add: unat_of_nat)
  have t: "?bs ! 20 = of_nat ty" and w: "take 16 ?bs = f" and s: "bslice 25 (length c) ?bs = c"
    and r: "drop (25 + length c) ?bs = rest" and l: "length ?bs = 25 + length c + length rest"
    by (simp_all add: e f L nth_append bslice_def drop_Cons')
  show ?thesis
    unfolding dec_record_def Let_def a b n t w s r l by (simp add: row_view_def m)
qed

interpretation rows: stream_codec encode_row dec_record row_view row_ok
  by unfold_locales (auto simp: dec_encode_row dec_record_shrinks)

lemma waiting_payload_ok:
  "\<forall>m\<in>set rows. row_ok m \<Longrightarrow>
     waiting_payload p ids rows = Inr (p @ concat (map encode_row rows), ids @ map fst rows)"
proof (induction rows arbitrary: p ids)
  case (Cons m rows)
  obtain i f ty c where m: "m = (i, f, ty, c)" by (cases m)
  have "i < 256 ^ 4" "ty < 256 ^ 1" "length c < 256 ^ 4"
    using Cons.prems by (simp_all add: row_ok_def m)
  with Cons show ?case
    by (simp add: m encode_row_def to_bytes_def)
qed simp

text \<open>An id or a size that does not fit raises, whatever came before.\<close>

lemma waiting_payload_error:
  "Inl x = waiting_payload p ids rows \<Longrightarrow> x = OverflowError"
  by (induction p ids rows rule: waiting_payload.induct)
     (auto simp: to_bytes_def split: if_splits sum.splits)

section \<open>Requests\<close>

lemmas request_alt = request_cases [unfolded build_error_response_alt]
lemmas send_message_alt = send_message_cases [unfolded build_error_response_alt]

text \<open>A request is a 23 byte header (id, version 1, code, payload size) and the payload.\<close>

definition request_bytes :: "bytes \<Rightarrow> nat \<Rightarrow> bytes \<Rightarrow> bytes" where
  "request_bytes cid code p = cid @ [1] @ le_bytes 2 code @ le_bytes 4 (length p) @ p"

lemma request_bytes_fields:
  assumes "length cid = 16"
  shows "length (request_bytes cid code p) = 23 + length p" and "take 16 (request_bytes cid code p) = cid"
    and "request_bytes cid code p ! 16 = 1"
    and "bslice 17 2 (request_bytes cid code p) = le_bytes 2 code"
    and "bslice 19 4 (request_bytes cid code p) = le_bytes 4 (length p)"
    and "drop 23 (request_bytes cid code p) = p"
  using assms
  by (simp_all add: request_bytes_def length_le_bytes nth_append bslice_append bslice_def drop_Cons')

lemma bslice_request:
  assumes "length cid = 16" and "23 \<le> k"
  shows "bslice k n (request_bytes cid code p) = bslice (k - 23) n p"
proof -
  have "drop k (request_bytes cid code p) = drop (k - 23) (drop 23 (request_bytes cid code p))"
    using assms(2) by simp
  with assms(1) show ?thesis by (simp add: bslice_def request_bytes_fields)
qed

lemma nth_request:
  assumes "length cid = 16" and "23 \<le> k"
  shows "k < 23 + length p \<Longrightarrow> request_bytes cid code p ! k = p ! (k - 23)"
proof -
  assume "k < 23 + length p"
  moreover have "drop 23 (request_bytes cid code p) = p" using assms(1) by (rule request_bytes_fields)
  ultimately show ?thesis
    using assms nth_drop [of 23 "request_bytes cid code p" "k - 23"] by (simp add: request_bytes_fields)
qed

lemma request_main:
  assumes "length cid = 16" and "length p < 2 ^ 32" and "code < 2 ^ 16"
  shows "request_handler_main e (request_bytes cid code p) d =
     (case dispatch e code (request_bytes cid code p) d of
        (Inl _, d) \<Rightarrow> (Inr error_bytes, d) | (Inr r, d) \<Rightarrow> (Inr r, d))"
  using assms
  by (simp add: request_alt request_bytes_fields from_le_bytes)

text \<open>The tables after the requester's time stamp was set.\<close>

definition touched :: "string \<Rightarrow> bytes \<Rightarrow> db \<Rightarrow> db" where
  "touched t cid d = snd (update_client_last_seen True cid t d)"

lemma touched_eq: "update_client_last_seen True cid t d = (Inr (), touched t cid d)"
  by (simp add: touched_def update_client_last_seen_def)

lemmas touched_keeps = update_last_seen_keeps [OF touched_eq] update_last_seen_ids [OF touched_eq]

lemma db_ok_touched: "db_ok d \<Longrightarrow> db_ok (touched t cid d)"
  by (rule db_ok_update_last_seen [OF _ touched_eq])

lemma fetch_rows_touched [db_simps]: "fetch_rows (touched t cid d) r = fetch_rows d r"
  by (simp add: fetch_rows_def touched_keeps)

lemma names_touched [db_simps]:
  "map (\<lambda>r. (c_id r, c_name r)) (clients (touched t cid d)) = map (\<lambda>r. (c_id r, c_name r)) (clients d)"
  by (simp add: touched_def update_client_last_seen_def)

text \<open>The four handlers behind the dispatcher, for a requester in the table.\<close>

lemma dispatch_known:
  assumes "code \<noteq> 700" and "stmt_ok e 0" "stmt_ok e 1" and "take 16 data \<in> c_id ` set (clients d)"
  shows "dispatch e code data d =
     (let d1 = touched (now e) (take 16 data) d in
      if code = 701 then clients_list_handler e data d1
      else if code = 702 then public_key_handler e data d1
      else if code = 704 then waiting_messages_handler e data d1
      else if code = 703 then send_message_handler e data d1
      else (Inr error_bytes, d1))"
  using assms by (simp add: dispatch_def client_exists_ok touched_eq Let_def)

lemma dispatch_unknown:
  assumes "code \<noteq> 700" and "stmt_ok e 0" and "take 16 data \<notin> c_id ` set (clients d)"
  shows "dispatch e code data d = (Inr error_bytes, d)"
  using assms by (simp add: dispatch_def client_exists_ok)

section \<open>Every response is well-formed\<close>

lemma response_ok_handlers:
  "register_handler e data d = (Inr r, d') \<Longrightarrow> response_ok r"
  "clients_list_handler e data d = (Inr r, d') \<Longrightarrow> response_ok r"
  "public_key_handler e data d = (Inr r, d') \<Longrightarrow> response_ok r"
  "waiting_messages_handler e data d = (Inr r, d') \<Longrightarrow> response_ok r"
     apply (auto simp: register_handler_def Let_def dest: response_ok_build
       split: if_splits sum.splits prod.splits)[1]
    apply (auto simp: clients_list_handler_def Let_def dest: response_ok_build split: if_splits sum.splits)[1]
   apply (auto simp: public_key_handler_def Let_def dest: response_ok_build split: if_splits sum.splits option.splits)[1]
  apply (auto simp: waiting_messages_handler_def Let_def dest: response_ok_build split: if_splits sum.splits prod.splits)[1]
  done

lemma response_ok_send: "send_message_handler e data d = (Inr r, d') \<Longrightarrow> response_ok r"
  by (auto simp: send_message_cases dest: response_ok_build split: if_splits sum.splits prod.splits)

lemma response_ok_dispatch: "dispatch e code data d = (Inr r, d') \<Longrightarrow> response_ok r"
  by (auto simp: dispatch_def Let_def client_exists_ok dest: response_ok_handlers response_ok_send
      split: if_splits sum.splits prod.splits)

lemma response_ok_request:
  obtains r d' where "request_handler_main e data d = (Inr r, d')" and "response_ok r"
proof -
  obtain x d1 where x: "dispatch e (from_bytes (bslice 17 2 data)) data d = (x, d1)" by fastforce
  show ?thesis
  proof (cases "length data < 23 \<or> length data \<noteq> 23 + from_bytes (bslice 19 4 data) \<or> unat (data ! 16) \<noteq> 1")
    case True
    then have "request_handler_main e data d = (Inr error_bytes, d)" by (simp only: request_alt if_True)
    then show ?thesis by (rule that) simp
  next
    case False
    then have run: "request_handler_main e data d =
      (case x of Inl _ \<Rightarrow> (Inr error_bytes, d1) | Inr r \<Rightarrow> (Inr r, d1))"
      by (simp only: request_alt if_False x prod.case)
    show ?thesis
    proof (cases x)
      case Inl
      with run show ?thesis by (intro that [of error_bytes d1]) simp_all
    next
      case (Inr r)
      with x have "response_ok r" by (auto dest: response_ok_dispatch)
      with run Inr show ?thesis by (intro that [of r d1]) simp_all
    qed
  qed
qed

end
