(* ===== verification/Server_Effects.thy ===== *)
theory Server_Effects
  imports Server_Lemmas
begin

text \<open>
  The effect of each request code on a database whose statements succeed: the response bytes
  and the tables afterwards, for a request written as \<open>request_bytes\<close>. The cross-program
  properties rest on these.
\<close>

section \<open>Register\<close>

definition padded_name :: "bytes \<Rightarrow> bytes" where
  "padded_name nm = nm @ replicate (255 - length nm) 0"

definition name_ok :: "bytes \<Rightarrow> bool" where
  "name_ok nm \<longleftrightarrow> nm \<noteq> [] \<and> length nm \<le> 254 \<and> (\<forall>c\<in>set nm. 0 < c \<and> c \<le> 127)"

lemma takeWhile_padded:
  assumes "name_ok nm"
  shows "takeWhile (\<lambda>c. c \<noteq> 0) (padded_name nm) = nm"
proof -
  have "255 - length nm = Suc (254 - length nm)" using assms unfolding name_ok_def by linarith
  then have "padded_name nm = nm @ 0 # replicate (254 - length nm) 0" by (simp add: padded_name_def)
  moreover have "\<forall>c\<in>set nm. c \<noteq> 0" using assms by (auto simp: name_ok_def)
  ultimately show ?thesis by (simp add: takeWhile_append_stop)
qed

lemma length_padded_name: "name_ok nm \<Longrightarrow> length (padded_name nm) = 255"
  by (simp add: padded_name_def name_ok_def)

lemma decode_ascii_name: "name_ok nm \<Longrightarrow> decode_ascii nm = Inr nm"
  by (auto simp: decode_ascii_def name_ok_def list_ex_iff)

lemma register_run:
  assumes cid: "length cid = 16" and nm: "name_ok nm" and pk: "length pk = 160"
    and ok: "stmt_ok e 0" and fresh: "token e \<notin> c_id ` set (clients d)" "nm \<notin> c_name ` set (clients d)"
    and env: "env_ok e"
  shows "request_handler_main e (request_bytes cid 700 (padded_name nm @ pk)) d =
    (Inr (response_bytes 2100 (token e)),
     d\<lparr>clients := clients d @ [\<lparr>c_id = token e, c_name = nm, c_pubkey = pk, c_last_seen = now e\<rparr>]\<rparr>)"
proof -
  let ?p = "padded_name nm @ pk"
  have len: "length (request_bytes cid 700 ?p) = 438"
    using cid pk length_padded_name [OF nm] by (simp add: request_bytes_fields)
  have s1: "bslice 23 255 (request_bytes cid 700 ?p) = padded_name nm"
    and s2: "bslice 278 160 (request_bytes cid 700 ?p) = pk"
    using cid pk length_padded_name [OF nm] by (simp_all add: bslice_request bslice_append)
  have ne: "nm \<noteq> []" using nm by (simp add: name_ok_def)
  have "register_handler e (request_bytes cid 700 ?p) d =
    (Inr (response_bytes 2100 (token e)),
     d\<lparr>clients := clients d @ [\<lparr>c_id = token e, c_name = nm, c_pubkey = pk, c_last_seen = now e\<rparr>]\<rparr>)"
    using ok fresh env ne
    by (simp add: register_handler_def len s1 s2 takeWhile_padded [OF nm] decode_ascii_name [OF nm]
        add_client_def build_response_alt env_ok_def Let_def)
  moreover have "length ?p < 2 ^ 32" using pk length_padded_name [OF nm] by simp
  ultimately show ?thesis
    using cid by (simp add: request_main dispatch_def)
qed

lemma register_taken:
  assumes cid: "length cid = 16" and nm: "name_ok nm" and pk: "length pk = 160" and ok: "stmt_ok e 0"
    and taken: "nm \<in> c_name ` set (clients d)"
  shows "request_handler_main e (request_bytes cid 700 (padded_name nm @ pk)) d = (Inr error_bytes, d)"
proof -
  let ?p = "padded_name nm @ pk"
  have len: "length (request_bytes cid 700 ?p) = 438"
    using cid pk length_padded_name [OF nm] by (simp add: request_bytes_fields)
  have s1: "bslice 23 255 (request_bytes cid 700 ?p) = padded_name nm"
    using cid length_padded_name [OF nm] by (simp add: bslice_request bslice_append)
  have ne: "nm \<noteq> []" using nm by (simp add: name_ok_def)
  have "register_handler e (request_bytes cid 700 ?p) d = (Inr error_bytes, d)"
    using ok taken ne
    by (simp add: register_handler_def len s1 takeWhile_padded [OF nm] decode_ascii_name [OF nm] add_client_def)
  moreover have "length ?p < 2 ^ 32" using pk length_padded_name [OF nm] by simp
  ultimately show ?thesis
    using cid by (simp add: request_main dispatch_def)
qed

section \<open>Client list and public key\<close>

definition db_ready :: "srv_env \<Rightarrow> bool" where
  "db_ready e \<longleftrightarrow> (\<forall>i < 4. stmt_ok e i)"

lemma db_readyD: "db_ready e \<Longrightarrow> stmt_ok e 0 \<and> stmt_ok e (Suc 0) \<and> stmt_ok e 1 \<and> stmt_ok e 2 \<and> stmt_ok e 3"
  by (simp add: db_ready_def)

definition other_clients :: "bytes \<Rightarrow> db \<Rightarrow> (bytes \<times> bytes) list" where
  "other_clients me d = filter (\<lambda>r. fst r \<noteq> me) (map (\<lambda>r. (c_id r, c_name r)) (clients d))"

lemma other_clients_touched [db_simps]: "other_clients me (touched t cid d) = other_clients me d"
  by (simp add: other_clients_def names_touched)

lemma entry_ok_other: "db_ok d \<Longrightarrow> r \<in> set (other_clients me d) \<Longrightarrow> entry_ok r"
  by (auto simp: other_clients_def entry_ok_def client_row_ok_def dest!: db_okD(3))

lemma clients_list_run:
  assumes "length me = 16" and "db_ready e" and "me \<in> c_id ` set (clients d)"
    and "271 * length (other_clients me d) < 2 ^ 32" and "db_ok d"
  shows "request_handler_main e (request_bytes me 701 []) d =
    (Inr (response_bytes 2101 (concat (map client_list_entry (other_clients me d)))), touched (now e) me d)"
proof -
  let ?d = "touched (now e) me d"
  have rows: "concat (map (\<lambda>r. client_list_entry (c_id r, c_name r)) (filter (\<lambda>r. c_id r \<noteq> me) (clients ?d)))
      = concat (map client_list_entry (other_clients me d))"
    unfolding other_clients_touched [of me "now e" me d, symmetric]
    by (simp add: other_clients_def filter_map comp_def)
  have "length (concat (map client_list_entry xs)) = 271 * length xs" if "\<forall>r\<in>set xs. entry_ok r" for xs
    using that by (induction xs) (simp_all add: length_client_list_entry)
  then have "length (concat (map client_list_entry (other_clients me d))) < 2 ^ 32"
    using assms(4) entry_ok_other [OF assms(5)] by simp
  then show ?thesis
    using assms(1,3) db_readyD [OF assms(2)]
    by (simp add: request_main dispatch_known request_bytes_fields Let_def clients_list_handler_alt rows build_response_alt)
qed

lemma public_key_run:
  assumes "length me = 16" and "db_ready e" and "me \<in> c_id ` set (clients d)" and "db_ok d"
    and "r \<in> set (clients d)"
  shows "request_handler_main e (request_bytes me 702 (c_id r)) d =
    (Inr (response_bytes 2102 (c_id r @ c_pubkey r)), touched (now e) me d)"
proof -
  let ?d = "touched (now e) me d"
  have ok: "client_row_ok r" using assms(4,5) by (rule db_okD)
  have lid: "length (c_id r) = 16" and lk: "length (c_pubkey r) = 160" using ok by (simp_all add: client_row_ok_def)
  obtain s where s: "s \<in> set (clients ?d)" "c_id s = c_id r" "c_pubkey s = c_pubkey r"
  proof -
    let ?f = "\<lambda>x. if c_id x = me then x\<lparr>c_last_seen := now e\<rparr> else x"
    have "?f r \<in> set (clients ?d)"
      unfolding touched_def update_client_last_seen_def using assms(5) by simp
    then show ?thesis by (rule that) simp_all
  qed
  have "List.find (\<lambda>x. c_id x = c_id r) (clients ?d) = Some s"
  proof -
    obtain x where x: "List.find (\<lambda>x. c_id x = c_id r) (clients ?d) = Some x"
      using s by (cases "List.find (\<lambda>x. c_id x = c_id r) (clients ?d)") (auto simp: find_None_iff)
    then have "x \<in> set (clients ?d)" "c_id x = c_id r" by (auto simp: find_Some_iff)
    with s db_okD(1) [OF db_ok_touched [OF assms(4)]] have "x = s"
      by (metis distinct_map inj_onD)
    with x show ?thesis by simp
  qed
  then have "get_public_key_by_id True (c_id r) ?d = Inr (Some (c_pubkey r))"
    using s by (simp add: get_public_key_by_id_def)
  moreover have "bslice 23 16 (request_bytes me 702 (c_id r)) = c_id r"
    using assms(1) lid by (simp add: bslice_request)
  ultimately show ?thesis
    using assms(1,3) db_readyD [OF assms(2)] lid lk
    by (simp add: request_main dispatch_known request_bytes_fields Let_def public_key_handler_def build_response_alt)
qed

section \<open>Send\<close>

definition send_payload :: "bytes \<Rightarrow> byte \<Rightarrow> bytes \<Rightarrow> bytes" where
  "send_payload t ty c = t @ [ty] @ le_bytes 4 (length c) @ c"

lemma send_payload_fields:
  fixes ty :: byte and c :: bytes
  assumes "length me = 16" and "length t = 16"
  defines "q \<equiv> request_bytes me 703 (send_payload t ty c)"
  shows "length q = 44 + length c" and "take 16 q = me" and "bslice 23 16 q = t" and "q ! 39 = ty"
    and "bslice 40 4 q = le_bytes 4 (length c)" and "drop 44 q = c"
proof -
  show "length q = 44 + length c" "take 16 q = me"
    using assms by (simp_all add: q_def request_bytes_fields send_payload_def length_le_bytes)
  show "bslice 23 16 q = t" "bslice 40 4 q = le_bytes 4 (length c)"
    using assms by (simp_all add: q_def bslice_request send_payload_def bslice_append length_le_bytes bslice_Cons)
  show "q ! 39 = ty"
    using assms by (simp add: q_def nth_request send_payload_def length_le_bytes nth_append)
  have "drop 44 q = drop 21 (drop 23 q)" by simp
  also have "drop 23 q = send_payload t ty c" using assms by (simp add: q_def request_bytes_fields)
  finally show "drop 44 q = c" using assms by (simp add: send_payload_def length_le_bytes drop_Cons')
qed

lemma send_run:
  assumes "length me = 16" and "db_ready e" and "me \<in> c_id ` set (clients d)"
    and "length t = 16" and "t \<in> c_id ` set (clients d)" and "ty \<in> {1, 2, 3}" and "ty = 1 \<longrightarrow> c = []"
    and "21 + length c < 2 ^ 32" and "Suc (seq d) < 2 ^ 32"
  shows "request_handler_main e (request_bytes me 703 (send_payload t ty c)) d =
    (Inr (response_bytes 2103 (t @ le_bytes 4 (Suc (seq d)))), snd (store_row t me (unat ty) c (touched (now e) me d)))"
proof -
  let ?q = "request_bytes me 703 (send_payload t ty c)" and ?d = "touched (now e) me d"
  note f = send_payload_fields [OF assms(1,4), of ty c]
  have ty: "unat ty \<in> {1, 2, 3}" "unat ty = 1 \<longrightarrow> c = []" using assms(6,7) by auto
  have seq: "seq ?d = seq d" by (rule touched_keeps)
  have ids: "c_id ` set (clients ?d) = c_id ` set (clients d)" by (rule touched_keeps)
  have "send_accepted ?q ?d"
    unfolding send_accepted_def f ids using assms(5,8) ty by (auto simp: from_le_bytes)
  moreover have "add_message True t me (unat ty) c ?d = (Inr (Suc (seq d)), snd (store_row t me (unat ty) c ?d))"
    using assms(9) by (simp add: add_message_store seq) (simp add: store_row_def seq)
  moreover have "to_bytes 4 (Suc (seq d)) = Inr (le_bytes 4 (Suc (seq d)))"
    using assms(9) by (simp add: to_bytes_def)
  ultimately have "send_message_handler e ?q ?d =
      (Inr (response_bytes 2103 (t @ le_bytes 4 (Suc (seq d)))), snd (store_row t me (unat ty) c ?d))"
    using db_readyD [OF assms(2)] assms(4) by (simp add: send_message_alt f build_response_alt length_le_bytes)
  moreover have "length (send_payload t ty c) < 2 ^ 32"
    using assms(4,8) by (simp add: send_payload_def length_le_bytes)
  ultimately show ?thesis
    using assms(1,3) db_readyD [OF assms(2)] by (simp add: request_main dispatch_known f Let_def)
qed

lemma fetch_after_store:
  "ids_ok d \<Longrightarrow> fetch_rows (snd (store_row t f ty c d)) r =
     fetch_rows d r @ (if r = t then [(Suc (seq d), f, ty, c)] else [])"
  using ms.fetch_add [of d t f ty c r] by (simp add: store_row_def)

section \<open>Fetch\<close>

text \<open>The rows a fetch can put on the wire.\<close>

definition fits :: "waiting_row list \<Rightarrow> bool" where
  "fits rows \<longleftrightarrow> (\<forall>m\<in>set rows. row_ok m) \<and> length (concat (map encode_row rows)) < 2 ^ 32"

lemma waiting_run:
  assumes "length me = 16" and "db_ready e" and "me \<in> c_id ` set (clients d)"
    and "fits (fetch_rows d me)" and "length (fetch_rows d me) \<le> max_vars e"
  shows "request_handler_main e (request_bytes me 704 []) d =
    (Inr (response_bytes 2104 (concat (map encode_row (fetch_rows d me)))),
     drop_rows (map fst (fetch_rows d me)) (touched (now e) me d))"
proof -
  let ?q = "request_bytes me 704 []" and ?d = "touched (now e) me d" and ?rows = "fetch_rows d me"
  have "waiting_messages_handler e ?q ?d =
      (Inr (response_bytes 2104 (concat (map encode_row ?rows))), drop_rows (map fst ?rows) ?d)"
    using assms db_readyD [OF assms(2)]
    by (simp add: waiting_messages_handler_def request_bytes_fields Let_def get_waiting_messages_fetch fetch_rows_touched
        waiting_payload_ok fits_def delete_messages_drop build_response_alt)
  then show ?thesis
    using assms(1,3) db_readyD [OF assms(2)] by (simp add: request_main dispatch_known request_bytes_fields Let_def)
qed

lemma fetch_after_fetch:
  assumes "ids_ok d"
  shows "fetch_rows (drop_rows (map fst (fetch_rows d me)) (touched t me d)) r =
    (if r = me then [] else fetch_rows d r)"
proof -
  have "ids_ok (touched t me d)" using assms by (simp add: ids_ok_def touched_keeps)
  then show ?thesis
    using ms.fetch_deleted_own [of "touched t me d" me] ms.fetch_deleted_other [of "touched t me d" me r]
    by (simp add: fetch_rows_touched)
qed

lemma row_ok_fetched:
  assumes "db_ok d" and "seq d < 2 ^ 32" and "m \<in> set (fetch_rows d me)"
  shows "row_ok m"
proof -
  obtain x where x: "x \<in> set (messages d)" "m = (m_id x, m_from x, m_type x, m_content x)"
    using assms(3) fetch_rows_alt [OF db_ok_ids_ok [OF assms(1)], of me] by auto
  have "message_row_ok (c_id ` set (clients d)) x" using assms(1) x(1) by (rule db_okD)
  moreover have "length (m_from x) = 16"
    using calculation db_okD(3) [OF assms(1)] by (auto simp: message_row_ok_def client_row_ok_def)
  moreover have "m_id x < 2 ^ 32" using db_okD(5) [OF assms(1) x(1)] assms(2) by simp
  ultimately show ?thesis by (auto simp: x(2) row_ok_def message_row_ok_def)
qed

end
