(* ===== verification/Server_Shape.thy ===== *)
theory Server_Shape
  imports Server_Effects
begin

text \<open>
  Every response the server gives on well-formed tables, whatever bytes it was sent and
  whichever SQL statements fail, is the error or has the shape that belongs to the code of its
  request. The client's handlers are shown to accept each of them.
\<close>

definition response_shape :: "bytes \<Rightarrow> bytes \<Rightarrow> bool" where
  "response_shape q r \<longleftrightarrow>
     r = error_bytes
   \<or> (\<exists>cid. from_bytes (bslice 17 2 q) = 700 \<and> length cid = 16 \<and> r = response_bytes 2100 cid)
   \<or> (\<exists>es. from_bytes (bslice 17 2 q) = 701 \<and> (\<forall>x\<in>set es. entry_ok x) \<and> length (concat (map client_list_entry es)) < 2 ^ 32
          \<and> r = response_bytes 2101 (concat (map client_list_entry es)))
   \<or> (\<exists>k. from_bytes (bslice 17 2 q) = 702 \<and> length q = 39 \<and> length k = 160 \<and> r = response_bytes 2102 (bslice 23 16 q @ k))
   \<or> (\<exists>i. 44 \<le> length q \<and> from_bytes (bslice 17 2 q) = 703 \<and> i < 2 ^ 32 \<and> r = response_bytes 2103 (bslice 23 16 q @ le_bytes 4 i))
   \<or> (\<exists>rows. from_bytes (bslice 17 2 q) = 704 \<and> fits rows \<and> r = response_bytes 2104 (concat (map encode_row rows)))"

lemma waiting_payload_Inr:
  "waiting_payload p ids rows = Inr (p', ids') \<Longrightarrow> \<forall>m\<in>set rows. length (fst (snd m)) = 16 \<Longrightarrow>
     (\<forall>m\<in>set rows. row_ok m) \<and> p' = p @ concat (map encode_row rows) \<and> ids' = ids @ map fst rows"
proof (induction p ids rows rule: waiting_payload.induct)
  case (2 p ids i f ty c rows)
  from "2.prems"(1) have b: "i < 256 ^ 4" "ty < 256 ^ 1" "length c < 256 ^ 4"
    and rest: "waiting_payload (p @ f @ le_bytes 4 i @ le_bytes 1 ty @ le_bytes 4 (length c) @ c) (ids @ [i]) rows
      = Inr (p', ids')"
    by (auto simp: to_bytes_def split: if_splits)
  have "(\<forall>m\<in>set rows. row_ok m)
      \<and> p' = (p @ f @ le_bytes 4 i @ le_bytes 1 ty @ le_bytes 4 (length c) @ c) @ concat (map encode_row rows)
      \<and> ids' = (ids @ [i]) @ map fst rows"
    using "2.IH" [of "le_bytes 4 i" "le_bytes 1 ty" "le_bytes 4 (length c)"] b rest "2.prems"(2)
    by (simp add: to_bytes_def)
  moreover have "encode_row (i, f, ty, c) = f @ le_bytes 4 i @ le_bytes 1 ty @ le_bytes 4 (length c) @ c"
    by (simp add: encode_row_def)
  ultimately show ?case using b "2.prems"(2) by (simp add: row_ok_def)
qed simp

lemma fetched_from:
  assumes "db_ok d" and "m \<in> set (fetch_rows d me)"
  shows "length (fst (snd m)) = 16"
proof -
  obtain x where x: "x \<in> set (messages d)" "m = (m_id x, m_from x, m_type x, m_content x)"
    using assms(2) fetch_rows_alt [OF db_ok_ids_ok [OF assms(1)], of me] by auto
  have "m_from x \<in> c_id ` set (clients d)"
    using db_okD(6) [OF assms(1) x(1)] by (simp add: message_row_ok_def)
  then show ?thesis using db_okD(3) [OF assms(1)] by (auto simp: x(2) client_row_ok_def)
qed

lemma shape_error [simp]: "response_shape q error_bytes"
  by (simp add: response_shape_def)

lemma shape_register:
  assumes "env_ok e" and "from_bytes (bslice 17 2 q) = 700" and "register_handler e q d = (Inr r, d')"
  shows "response_shape q r"
proof -
  from assms(3) have "r = error_bytes \<or> r = response_bytes 2100 (token e)"
    by (auto simp: register_handler_def Let_def build_response_alt split: if_splits sum.splits prod.splits)
  then show ?thesis
    using assms(1,2) by (auto simp: response_shape_def env_ok_def)
qed

lemma shape_clients_list:
  assumes "db_ok d" and "clients_list_handler e q d = (Inr r, d')" and "from_bytes (bslice 17 2 q) = 701"
  shows "response_shape q r"
proof (cases "r = error_bytes")
  case False
  then have len: "length q = 23" and ok: "stmt_ok e 2"
    using assms(2) by (auto simp: clients_list_handler_def list_clients_except_def Let_def split: if_splits)
  let ?es = "other_clients (take 16 q) d"
  have "map (\<lambda>r. client_list_entry (c_id r, c_name r)) (filter (\<lambda>r. c_id r \<noteq> take 16 q) (clients d))
      = map client_list_entry ?es"
    by (simp add: other_clients_def filter_map comp_def)
  with assms(2) have "build_response 2101 (concat (map client_list_entry ?es)) = Inr r"
    by (auto simp: clients_list_handler_alt [OF len ok])
  then have "r = response_bytes 2101 (concat (map client_list_entry ?es))"
    and "length (concat (map client_list_entry ?es)) < 2 ^ 32"
    unfolding build_response_alt by (simp_all split: if_splits)
  moreover have "\<forall>x\<in>set ?es. entry_ok x" using entry_ok_other [OF assms(1)] by blast
  ultimately show ?thesis using assms(3) unfolding response_shape_def by blast
qed simp

lemma shape_public_key:
  assumes "public_key_handler e q d = (Inr r, d')" and "from_bytes (bslice 17 2 q) = 702"
  shows "response_shape q r"
proof (cases "r = error_bytes")
  case False
  with assms(1) obtain k where len: "length q = 39" and k: "length k = 160" and r: "r = response_bytes 2102 (bslice 23 16 q @ k)"
    by (auto simp: public_key_handler_def Let_def build_response_alt split: if_splits sum.splits option.splits)
  with k assms(2) show ?thesis unfolding response_shape_def by blast
qed simp

lemma shape_waiting:
  assumes "db_ok d" and "waiting_messages_handler e q d = (Inr r, d')" and "from_bytes (bslice 17 2 q) = 704"
  shows "response_shape q r"
proof (cases "r = error_bytes")
  case False
  with assms(2) have ok: "stmt_ok e 2"
    by (auto simp: waiting_messages_handler_def get_waiting_messages_def Let_def split: if_splits)
  let ?rows = "fetch_rows d (take 16 q)"
  from assms(2) False ok obtain p ids where p: "waiting_payload [] [] ?rows = Inr (p, ids)"
    and r: "build_response 2104 p = Inr r"
    by (auto simp: waiting_messages_handler_def get_waiting_messages_fetch Let_def split: if_splits sum.splits prod.splits)
  have "\<forall>m\<in>set ?rows. length (fst (snd m)) = 16" using fetched_from [OF assms(1)] by blast
  from waiting_payload_Inr [OF p this] r have "fits ?rows" "r = response_bytes 2104 (concat (map encode_row ?rows))"
    unfolding fits_def build_response_alt by (simp_all split: if_splits)
  then show ?thesis using assms(3) unfolding response_shape_def by blast
qed simp

lemma shape_send:
  assumes "from_bytes (bslice 17 2 q) = 703" and "send_message_handler e q d = (Inr r, d')"
  shows "response_shape q r"
proof (cases "r = error_bytes")
  case False
  with assms(2) obtain i d1 where acc: "send_accepted q d"
    and i: "to_bytes 4 i = Inr (le_bytes 4 i)" "i < 2 ^ 32"
    and b: "build_response 2103 (bslice 23 16 q @ le_bytes 4 i) = Inr r"
    by (auto simp: send_message_alt to_bytes_def not_le split: if_splits sum.splits prod.splits)
  from b have r: "r = response_bytes 2103 (bslice 23 16 q @ le_bytes 4 i)"
    by (simp add: build_response_alt split: if_splits)
  have "44 \<le> length q" using acc by (simp add: send_accepted_def)
  with r i(2) assms(1) show ?thesis unfolding response_shape_def by blast
qed simp

lemma shape_dispatch:
  assumes "db_ok d" and "env_ok e" and "dispatch e (from_bytes (bslice 17 2 q)) q d = (Inr r, d')"
  shows "response_shape q r"
proof -
  let ?code = "from_bytes (bslice 17 2 q)"
  obtain u v where u: "update_client_last_seen (stmt_ok e 1) (take 16 q) (now e) d = (u, v)" by fastforce
  have v: "db_ok v" by (rule db_ok_update_last_seen [OF assms(1) u])
  from assms(3) u have "r = error_bytes \<or> ?code = 700 \<and> register_handler e q d = (Inr r, d')
    \<or> ?code = 701 \<and> clients_list_handler e q v = (Inr r, d')
    \<or> ?code = 702 \<and> public_key_handler e q v = (Inr r, d') \<or> ?code = 704 \<and> waiting_messages_handler e q v = (Inr r, d')
    \<or> ?code = 703 \<and> send_message_handler e q v = (Inr r, d')"
    by (auto simp: dispatch_def Let_def client_exists_ok split: if_splits sum.splits)
  then show ?thesis
    by (elim disjE conjE)
       (simp_all add: shape_register [OF assms(2)] shape_clients_list [OF v] shape_public_key shape_waiting [OF v] shape_send)
qed

lemma shape_request:
  assumes "db_ok d" and "env_ok e" and "request_handler_main e q d = (Inr r, d')"
  shows "response_shape q r"
proof -
  obtain x d1 where x: "dispatch e (from_bytes (bslice 17 2 q)) q d = (x, d1)" by fastforce
  from assms(3) have "r = error_bytes \<or> x = Inr r"
    unfolding request_alt x by (cases x) (auto split: if_splits)
  with shape_dispatch [OF assms(1,2)] x show ?thesis by auto
qed

end
