(* ===== verification/Server_Main.thy ===== *)
theory Server_Main
  imports Server_Requests
begin

text \<open>
  \<^verbatim>\<open>Server/connection.py\<close>, \<^verbatim>\<open>Server/main.py\<close> and \<^verbatim>\<open>Server/get_port.py\<close>. The socket of a client is
  the sequence of pieces \<^verbatim>\<open>recv\<close> still delivers and what it does when they are used up: it
  returns \<^verbatim>\<open>b''\<close> (the peer closed) or raises. A thread of the server is the function
  \<open>handle_client\<close> on its socket and the database; the accept loop of \<^verbatim>\<open>main\<close> starts one per
  connection.
\<close>

section \<open>connection.py\<close>

record sock =
  incoming :: "bytes list"
  at_end :: "py_exn option"

definition recv :: "nat \<Rightarrow> sock \<Rightarrow> (py_exn + bytes) \<times> sock" where
  "recv n s =
     (case incoming s of
        [] \<Rightarrow> (case at_end s of None \<Rightarrow> (Inr [], s) | Some e \<Rightarrow> (Inl e, s))
      | c # cs \<Rightarrow> (Inr (take n c), s\<lparr>incoming := (if length c \<le> n then cs else drop n c # cs)\<rparr>))"

function receive_loop :: "nat \<Rightarrow> bytes \<Rightarrow> sock \<Rightarrow> (py_exn + bytes) \<times> sock" where
  "receive_loop sz data s =
     (if length data < sz
      then (case recv (sz - length data) s of
              (Inl e, s) \<Rightarrow> (Inl e, s)
            | (Inr chunk, s) \<Rightarrow>
                if chunk = [] then (Inl ConnectionError, s)
                else receive_loop sz (data @ chunk) s)
      else (Inr data, s))"
  by pat_completeness auto
termination
  by (relation "measure (\<lambda>(sz, data, s). sz - length data)") (auto intro!: diff_less_mono2)

declare receive_loop.simps [simp del]

definition receive_exact :: "nat \<Rightarrow> sock \<Rightarrow> (py_exn + bytes) \<times> sock" where
  "receive_exact sz s = receive_loop sz [] s"

definition get_payload_size :: "bytes \<Rightarrow> nat" where
  "get_payload_size header = from_bytes (bslice SRV_PAYLOAD_SIZE_OFFSET SRV_CONTENT_SIZE header)"

section \<open>What \<^verbatim>\<open>receive_exact\<close> reads\<close>

lemma recv_consumes:
  assumes "recv n s = (Inr chunk, s')" and "chunk \<noteq> []"
  shows "concat (incoming s) = chunk @ concat (incoming s')" and "length chunk \<le> n" and "at_end s' = at_end s"
    and "[] \<notin> set (incoming s) \<Longrightarrow> [] \<notin> set (incoming s')"
  using assms by (auto simp: recv_def split: list.splits option.splits if_splits)

lemma receive_loop_Inr:
  "receive_loop sz data s = (Inr out, s') \<Longrightarrow> length data \<le> sz \<Longrightarrow>
     \<exists>new. out = data @ new \<and> concat (incoming s) = new @ concat (incoming s') \<and> length out = sz
       \<and> at_end s' = at_end s \<and> ([] \<notin> set (incoming s) \<longrightarrow> [] \<notin> set (incoming s'))"
proof (induction sz data s arbitrary: out rule: receive_loop.induct)
  case (1 sz data s)
  show ?case
  proof (cases "length data < sz")
    case False
    with "1.prems" show ?thesis by (auto simp: receive_loop.simps [of sz data s])
  next
    case True
    with "1.prems"(1) obtain chunk s1 where r: "recv (sz - length data) s = (Inr chunk, s1)" "chunk \<noteq> []"
      and rest: "receive_loop sz (data @ chunk) s1 = (Inr out, s')"
      by (auto simp: receive_loop.simps [of sz data s] split: prod.splits sum.splits if_splits)
    note c = recv_consumes [OF r]
    have "length (data @ chunk) \<le> sz" using c(2) True by simp
    from "1.IH" [OF True r(1) [symmetric] refl r(2) rest this] c show ?thesis by auto
  qed
qed

text \<open>With pieces that are not empty, the outcome depends on the bytes of the stream only.\<close>

lemma receive_loop_enough:
  "[] \<notin> set (incoming s) \<Longrightarrow> length data \<le> sz \<Longrightarrow> sz - length data \<le> length (concat (incoming s)) \<Longrightarrow>
     \<exists>out s'. receive_loop sz data s = (Inr out, s')"
proof (induction sz data s rule: receive_loop.induct)
  case (1 sz data s)
  show ?case
  proof (cases "length data < sz")
    case False
    then show ?thesis by (simp add: receive_loop.simps [of sz data s])
  next
    case True
    with "1.prems" obtain c cs where s: "incoming s = c # cs" "c \<noteq> []" by (cases "incoming s") auto
    obtain s1 where r: "recv (sz - length data) s = (Inr (take (sz - length data) c), s1)"
      by (simp add: recv_def s)
    have ne: "take (sz - length data) c \<noteq> []" using s True by simp
    note k = recv_consumes [OF r ne]
    have "length (data @ take (sz - length data) c) \<le> sz" using True by simp
    moreover have "sz - length (data @ take (sz - length data) c) \<le> length (concat (incoming s1))"
      using "1.prems"(3) k(1) by simp
    moreover have "[] \<notin> set (incoming s1)" using k(4) "1.prems"(1) by simp
    ultimately obtain out s' where "receive_loop sz (data @ take (sz - length data) c) s1 = (Inr out, s')"
      using "1.IH" [OF True r [symmetric] refl ne] by blast
    then show ?thesis using True r ne by (simp add: receive_loop.simps [of sz data s])
  qed
qed

lemma receive_exact_Inr:
  assumes "receive_exact sz s = (Inr out, s')"
  shows "concat (incoming s) = out @ concat (incoming s')" and "length out = sz" and "at_end s' = at_end s"
    and "[] \<notin> set (incoming s) \<Longrightarrow> [] \<notin> set (incoming s')"
  using receive_loop_Inr [of sz "[]" s out s'] assms by (auto simp: receive_exact_def)

lemma receive_exact_enough:
  assumes "[] \<notin> set (incoming s)" and "sz \<le> length (concat (incoming s))"
  obtains s' where "receive_exact sz s = (Inr (take sz (concat (incoming s))), s')"
    and "concat (incoming s') = drop sz (concat (incoming s))" and "[] \<notin> set (incoming s')" and "at_end s' = at_end s"
proof -
  obtain out s' where r: "receive_exact sz s = (Inr out, s')"
    using receive_loop_enough [of s "[]" sz] assms by (auto simp: receive_exact_def)
  note k = receive_exact_Inr [OF r]
  have out: "out = take sz (concat (incoming s))" and rest: "concat (incoming s') = drop sz (concat (incoming s))"
    unfolding k(1) using k(2) by simp_all
  show ?thesis
    by (rule that [OF r [unfolded out] rest k(4) [OF assms(1)] k(3)])
qed

lemma receive_exact_short:
  assumes "length (concat (incoming s)) < sz"
  shows "\<exists>e s'. receive_exact sz s = (Inl e, s')"
proof -
  obtain r s' where r: "receive_exact sz s = (r, s')" by fastforce
  show ?thesis
  proof (cases r)
    case (Inr out)
    with r have "receive_exact sz s = (Inr out, s')" by simp
    from receive_exact_Inr(1,2) [OF this] assms show ?thesis by simp
  qed (use r in blast)
qed

section \<open>main.py: the thread of a client\<close>

text \<open>One turn of the loop. \<open>send_ok\<close> tells whether \<^verbatim>\<open>sendall\<close> succeeds. The result is the
  response that was sent, or \<open>None\<close> after a \<^verbatim>\<open>break\<close>.\<close>

definition handle_turn :: "srv_env \<Rightarrow> bool \<Rightarrow> sock \<Rightarrow> db \<Rightarrow> bytes option \<times> sock \<times> db" where
  "handle_turn e send_ok s d =
     (case receive_exact SRV_HEADER_SIZE s of (Inl _, s) \<Rightarrow> (None, s, d) | (Inr data, s) \<Rightarrow>
      case receive_exact (get_payload_size data) s of (Inl _, s) \<Rightarrow> (None, s, d) | (Inr payload, s) \<Rightarrow>
      case request_handler_main e (data @ payload) d of (Inl _, d) \<Rightarrow> (None, s, d) | (Inr response, d) \<Rightarrow>
      if send_ok then (Some response, s, d) else (None, s, d))"

lemma handle_turn_shrinks:
  assumes "handle_turn e ok s d = (Some r, s', d')"
  shows "length (concat (incoming s')) < length (concat (incoming s))"
proof -
  from assms obtain h s1 p where "receive_exact 23 s = (Inr h, s1)"
    and "receive_exact (get_payload_size h) s1 = (Inr p, s')"
    by (auto simp: handle_turn_def split: prod.splits sum.splits if_splits)
  from receive_exact_Inr(1,2) [OF this(1)] receive_exact_Inr(1) [OF this(2)] show ?thesis by simp
qed

text \<open>The loop: turn \<open>n\<close> has its own surroundings. The result is the list of the responses
  sent and what is left of the socket and the database.\<close>

function handle_client ::
    "(nat \<Rightarrow> srv_env \<times> bool) \<Rightarrow> nat \<Rightarrow> sock \<Rightarrow> db \<Rightarrow> bytes list \<times> sock \<times> db" where
  "handle_client es n s d =
     (case handle_turn (fst (es n)) (snd (es n)) s d of
        (None, s, d) \<Rightarrow> ([], s, d)
      | (Some response, s, d) \<Rightarrow>
          (case handle_client es (Suc n) s d of (rs, s, d) \<Rightarrow> (response # rs, s, d)))"
  by pat_completeness auto
termination
  by (relation "measure (\<lambda>(es, n, s, d). length (concat (incoming s)))") (auto dest: sym intro: handle_turn_shrinks)

declare handle_client.simps [simp del]

section \<open>The thread serves the requests in its stream, one after the other\<close>

definition whole_request :: "bytes \<Rightarrow> bool" where
  "whole_request q \<longleftrightarrow> 23 \<le> length q \<and> length q = 23 + get_payload_size (take 23 q)"

text \<open>What is left of the stream when it ends in the middle of a request, or of nothing.\<close>

definition cut_request :: "bytes \<Rightarrow> bool" where
  "cut_request q \<longleftrightarrow> length q < 23 \<or> length q < 23 + get_payload_size (take 23 q)"

fun serve :: "(nat \<Rightarrow> srv_env \<times> bool) \<Rightarrow> nat \<Rightarrow> bytes list \<Rightarrow> db \<Rightarrow> bytes list \<times> db" where
  "serve es n [] d = ([], d)"
| "serve es n (q # qs) d =
     (case request_handler_main (fst (es n)) q d of
        (Inl _, d) \<Rightarrow> ([], d)
      | (Inr r, d) \<Rightarrow> if snd (es n) then (case serve es (Suc n) qs d of (rs, d) \<Rightarrow> (r # rs, d)) else ([], d))"

lemma handle_turn_whole:
  assumes "[] \<notin> set (incoming s)" and "concat (incoming s) = q @ rest" and "whole_request q"
  obtains s' where "concat (incoming s') = rest" and "[] \<notin> set (incoming s')"
    and "handle_turn e ok s d =
      (case request_handler_main e q d of (Inl _, d) \<Rightarrow> (None, s', d)
       | (Inr r, d) \<Rightarrow> if ok then (Some r, s', d) else (None, s', d))"
proof -
  have len: "23 \<le> length q" "length q = 23 + get_payload_size (take 23 q)"
    using assms(3) by (simp_all add: whole_request_def)
  have enough: "23 \<le> length (concat (incoming s))"
    using assms(2) len(1) by simp
  obtain s1 where s1: "receive_exact 23 s = (Inr (take 23 (concat (incoming s))), s1)"
      "concat (incoming s1) = drop 23 (concat (incoming s))" "[] \<notin> set (incoming s1)"
    by (rule receive_exact_enough [OF assms(1) enough])
  have h: "take 23 (concat (incoming s)) = take 23 q" and r1: "concat (incoming s1) = drop 23 q @ rest"
    using assms(2) len(1) s1(2) by simp_all
  let ?n = "get_payload_size (take 23 q)"
  have n: "?n \<le> length (concat (incoming s1))" using r1 len by simp
  obtain s2 where s2: "receive_exact ?n s1 = (Inr (take ?n (concat (incoming s1))), s2)"
      "concat (incoming s2) = drop ?n (concat (incoming s1))" "[] \<notin> set (incoming s2)"
    by (rule receive_exact_enough [OF s1(3) n])
  have ln: "length (drop 23 q) = ?n" using len(2) by simp
  have p: "take ?n (concat (incoming s1)) = drop 23 q" and r2: "concat (incoming s2) = rest"
    unfolding s2(2) r1 ln [symmetric] by simp_all
  have q: "take 23 q @ drop 23 q = q" by simp
  have "handle_turn e ok s d =
      (case request_handler_main e q d of (Inl _, d) \<Rightarrow> (None, s2, d)
       | (Inr r, d) \<Rightarrow> if ok then (Some r, s2, d) else (None, s2, d))"
    unfolding handle_turn_def s1(1) h prod.case sum.case s2(1) p q ..
  with r2 s2(3) show ?thesis by (rule that)
qed

lemma handle_turn_cut:
  assumes "[] \<notin> set (incoming s)" and "cut_request (concat (incoming s))"
  shows "\<exists>s'. handle_turn e ok s d = (None, s', d)"
proof (cases "length (concat (incoming s)) < 23")
  case True
  then show ?thesis using receive_exact_short [of s 23] by (auto simp: handle_turn_def)
next
  case False
  then have enough: "23 \<le> length (concat (incoming s))" by simp
  obtain s1 where s1: "receive_exact 23 s = (Inr (take 23 (concat (incoming s))), s1)"
      "concat (incoming s1) = drop 23 (concat (incoming s))"
    by (rule receive_exact_enough [OF assms(1) enough])
  let ?n = "get_payload_size (take 23 (concat (incoming s)))"
  have "length (concat (incoming s1)) < ?n"
    using assms(2) False s1(2) by (simp add: cut_request_def)
  from receive_exact_short [OF this] show ?thesis using s1(1) by (auto simp: handle_turn_def)
qed

lemma handle_client_serve:
  assumes "[] \<notin> set (incoming s)" and "concat (incoming s) = concat qs @ rest"
    and "\<forall>q\<in>set qs. whole_request q" and "cut_request rest"
  shows "\<exists>s'. handle_client es n s d = (fst (serve es n qs d), s', snd (serve es n qs d))"
  using assms
proof (induction qs arbitrary: n s d)
  case Nil
  then show ?case
    using handle_turn_cut [of s "fst (es n)" "snd (es n)" d] by (auto simp: handle_client.simps [of es n s d])
next
  case (Cons q qs)
  obtain r d1 where r: "request_handler_main (fst (es n)) q d = (r, d1)" by fastforce
  have split: "concat (incoming s) = q @ (concat qs @ rest)" using Cons.prems(2) by simp
  obtain s' where s': "concat (incoming s') = concat qs @ rest" "[] \<notin> set (incoming s')"
    and turn: "handle_turn (fst (es n)) (snd (es n)) s d =
      (case r of Inl _ \<Rightarrow> (None, s', d1) | Inr r \<Rightarrow> if snd (es n) then (Some r, s', d1) else (None, s', d1))"
    using handle_turn_whole [OF Cons.prems(1) split, of "fst (es n)" "snd (es n)" d thesis] Cons.prems(3) r by auto
  obtain t where t: "handle_client es (Suc n) s' d1 = (fst (serve es (Suc n) qs d1), t, snd (serve es (Suc n) qs d1))"
    using Cons.IH [OF s'(2,1), of "Suc n" d1] Cons.prems(3,4) by auto
  show ?case
    unfolding handle_client.simps [of es n s d] turn serve.simps r
    by (cases r; cases "snd (es n)") (auto simp: t split: prod.splits)
qed

end
