(* ===== verification/Machine.thy ===== *)
theory Machine
  imports MU_Prelude
begin

text \<open>
  Step relations in general: an invariant that every step keeps holds in every state that is
  reached, and so does a relation to the first state that is reflexive and transitive. Both
  are stated for a step relation with its own invariant, which the programs' relations
  provide by interpretation.
\<close>

locale machine =
  fixes step :: "'s \<Rightarrow> 's \<Rightarrow> bool"
    and inv :: "'s \<Rightarrow> bool"
    and grows :: "'s \<Rightarrow> 's \<Rightarrow> bool"
  assumes inv_step: "inv s \<Longrightarrow> step s t \<Longrightarrow> inv t"
    and grows_step: "inv s \<Longrightarrow> step s t \<Longrightarrow> grows s t"
    and grows_refl: "grows s s"
    and grows_trans: "grows s t \<Longrightarrow> grows t u \<Longrightarrow> grows s u"
begin

lemma reach_inv: "step\<^sup>*\<^sup>* s t \<Longrightarrow> inv s \<Longrightarrow> inv t"
  by (induction rule: rtranclp_induct) (auto intro: inv_step)

lemma reach_grows: "step\<^sup>*\<^sup>* s t \<Longrightarrow> inv s \<Longrightarrow> grows s t"
proof (induction rule: rtranclp_induct)
  case base
  show ?case by (rule grows_refl)
next
  case (step t u)
  then have "inv t" using reach_inv by blast
  with step show ?case using grows_step grows_trans by blast
qed

end

end
