(* ===== verification/System.thy ===== *)
theory System
  imports Client_Main Server_Shape Server_Main Machine
begin

text \<open>
  Client and server together. The client's requests are the server's \<open>request_bytes\<close>, the
  server's responses are what the client's dispatcher expects, and the connection between
  them is the server's own thread run on what the client wrote. The step relation
  \<open>sys_step\<close> interleaves the two threads of a client with each other and with the requests
  of all other clients.
\<close>

section \<open>The client's requests as the server reads them\<close>

lemma createBuffer_request:
  assumes "length (m_payload m) < 2 ^ 32" and "m_version m = 1"
  shows "createBuffer m = request_bytes (m_clientID m) (unat (m_code m)) (m_payload m)"
proof -
  have "appendUint32LE [] (of_nat (length (m_payload m))) = le_bytes 4 (length (m_payload m))"
    using assms(1) by (simp only: appendUint32LE_le_bytes) (simp add: unat_of_nat)
  with assms(2) show ?thesis
    by (simp add: createBuffer_alt request_bytes_def appendUint16LE_le_bytes)
qed

lemma whole_request_bytes:
  assumes "length cid = 16" and "length p < 2 ^ 32"
  shows "whole_request (request_bytes cid code p)"
proof -
  have "bslice 19 4 (take 23 (request_bytes cid code p)) = bslice 19 4 (request_bytes cid code p)"
    by (simp add: bslice_def drop_take)
  then show ?thesis
    using assms by (simp add: whole_request_def get_payload_size_def request_bytes_fields from_le_bytes)
qed

section \<open>The server's responses as the client reads them\<close>

lemma responseCode_bytes:
  "responseCode (response_bytes 2100 p) = 2100" "responseCode (response_bytes 2101 p) = 2101"
  "responseCode (response_bytes 2102 p) = 2102" "responseCode (response_bytes 2103 p) = 2103"
  "responseCode (response_bytes 2104 p) = 2104" "responseCode (response_bytes 9000 p) = 9000"
  by (simp_all add: responseCode_def response_bytes_split le_bytes_2)

lemma length_response: "length (response_bytes code p) = 7 + length p"
  by (simp add: response_bytes_split length_le_bytes)

lemma drop_response: "drop 7 (response_bytes code p) = p"
  by (simp add: response_bytes_split length_le_bytes)

lemma bslice_response: "7 \<le> k \<Longrightarrow> bslice k n (response_bytes code p) = bslice (k - 7) n p"
proof -
  assume "7 \<le> k"
  then have "drop k (response_bytes code p) = drop (k - 7) (drop 7 (response_bytes code p))" by simp
  then show ?thesis by (simp add: bslice_def drop_response)
qed

text \<open>The header of a response announces its payload.\<close>

lemma announced_size:
  assumes "length p < 2 ^ 32"
  shows "getPayloadSize (take 7 (response_bytes code p)) = Inr (length p)"
proof -
  let ?h = "take 7 (response_bytes code p)"
  have hdr: "?h = [2] @ le_bytes 2 code @ le_bytes 4 (length p)"
    by (simp add: response_bytes_split length_le_bytes)
  have "drop 3 ?h = le_bytes 4 (length p)"
    unfolding hdr by (simp add: length_le_bytes)
  moreover have "le_bytes 4 (length p) = appendUint32LE [] (of_nat (length p))"
    using assms by (rule le_bytes_of_nat_u32)
  ultimately have "readUint32LE ?h 3 = Inr (of_nat (length p))"
    using readUint32LE_le32 [of 3 ?h] le32_append [of "of_nat (length p)" "[]"]
    by (simp add: length_response)
  then show ?thesis
    using assms by (simp add: getPayloadSize_def length_response unat_of_nat)
qed

text \<open>The waiting messages of a response are shown in order.\<close>

lemma client_shows_rows:
  assumes "fits rows" and "rows \<noteq> []" and "RSAPrivateWrapper_load cr (privateKey (ctx w)) = Inr sk"
  shows "responseClientMain cr (response_bytes 2104 (concat (map encode_row rows))) w
    = (Inr (), showAll cr sk (map row_view rows) w)"
proof -
  let ?p = "concat (map encode_row rows)" and ?r = "response_bytes 2104 (concat (map encode_row rows))"
  have ok: "\<forall>m\<in>set rows. row_ok m" using assms(1) by (simp add: fits_def)
  have "?p \<noteq> []" using assms(2) ok rows.enc_nonempty by (cases rows) auto
  then have len: "length ?r \<noteq> 7" by (simp add: length_response)
  have dec: "decode_all (length ?r) dec_record (drop 7 ?r) = (map row_view rows, [])"
    unfolding drop_response by (rule rows.decode_concat [OF ok]) (simp add: length_response)
  have "waitingMessages_loop cr sk ?r 7 w = (cut_result [], showAll cr sk (map row_view rows) w)"
    by (rule waitingMessages_loop_refines [OF _ _ dec]) (simp_all add: length_response)
  then show ?thesis
    using len assms(3)
    by (auto simp: responseClientMain_def responseCode_bytes length_response responseWaitingMessages_def cut_result_def)
qed

lemma client_learns_entries:
  assumes "\<forall>x\<in>set es. entry_ok x"
  shows "responseClientMain cr (response_bytes 2101 (concat (map client_list_entry es))) w
    = (Inr (), fold learn (map entry_view es) w)"
proof -
  let ?r = "response_bytes 2101 (concat (map client_list_entry es))"
  have "length (concat (map client_list_entry es)) = 271 * length es"
    using assms by (induction es) (simp_all add: length_client_list_entry)
  then have mult: "(length ?r - 7) mod 271 = 0" by (simp add: length_response)
  have dec: "decode_all (length ?r) dec_entry (drop 7 ?r) = (map entry_view es, [])"
    unfolding drop_response by (rule entries.decode_concat [OF assms]) (simp add: length_response)
  have "responseClientList ?r w = (Inr (), fold learn (map entry_view es) w)"
    by (rule responseClientList_refines [OF _ mult dec]) (simp add: length_response)
  then show ?thesis by (simp add: responseClientMain_def responseCode_bytes length_response)
qed

lemma client_stores_key:
  assumes "length cid = 16" and "length k = 160"
  shows "\<exists>w'. responseClientMain cr (response_bytes 2102 (cid @ k)) w = (Inr (), w')
    \<and> ctx w' = setFriendPublicKey cid k
        (if tryGetFriendCopy (ctx w) cid = None then setFriendBase cid [] (ctx w) else ctx w)"
proof -
  let ?r = "response_bytes 2102 (cid @ k)"
  have "readClientID ?r 7 = Inr cid" "bslice 23 160 ?r = k"
    using assms by (simp_all add: readClientID_def length_response bslice_response bslice_append)
  then show ?thesis
    using assms by (simp add: responseClientMain_def responseCode_bytes length_response responsePublicKey_def Let_def)
qed

lemma client_confirms:
  assumes "length t = 16" and "tryGetFriendCopy (ctx w) t = Some f" and "i < 2 ^ 32"
  shows "responseClientMain cr (response_bytes 2103 (t @ le_bytes 4 i)) w = (Inr (),
     say (lit ''Your message has been sent to '' @ friendName f @ lit '' and assigned '' @ show_dec i
          @ lit '' message ID.'' @ nl) w)"
proof -
  let ?r = "response_bytes 2103 (t @ le_bytes 4 i)"
  have rd: "readClientID ?r 7 = Inr t"
    using assms(1) by (simp add: readClientID_def length_response bslice_response bslice_append length_le_bytes)
  have "le_bytes 4 i = appendUint32LE [] (of_nat i)"
    by (rule le_bytes_of_nat_u32 [OF assms(3)])
  moreover have "drop 23 ?r = le_bytes 4 i"
  proof -
    have "drop 23 ?r = drop 16 (drop 7 ?r)" by simp
    then show ?thesis using assms(1) by (simp only: drop_response) simp
  qed
  ultimately have "readUint32LE ?r 23 = Inr (of_nat i)"
    using le32_append [of "of_nat i" "[]"] assms(1) readUint32LE_le32 [of 23 ?r]
    by (simp add: length_response length_appendUint32LE)
  with rd assms show ?thesis
    by (simp add: responseClientMain_def responseCode_bytes length_response length_le_bytes responseMessageSent_def unat_of_nat)
qed

text \<open>Every shape of response is handled without an exception, given a private key that loads,
  a path for \<^verbatim>\<open>my.info.txt\<close>, and a cached target for a confirmation.\<close>

lemma client_accepts_shape:
  assumes "response_shape q r" and "RSAPrivateWrapper_load cr (privateKey (ctx w)) = Inr sk"
    and "getExecutableDirectory w = Inr ()"
    and "44 \<le> length q \<and> from_bytes (bslice 17 2 q) = 703 \<longrightarrow> tryGetFriendCopy (ctx w) (bslice 23 16 q) \<noteq> None"
  shows "\<exists>w'. responseClientMain cr r w = (Inr (), w')"
  using assms(1) unfolding response_shape_def
proof (elim disjE exE conjE)
  assume "r = error_bytes"
  then show ?thesis
    by (simp add: responseClientMain_def error_bytes_def responseCode_bytes length_response)
next
  fix cid assume cid: "length cid = 16" and r: "r = response_bytes 2100 cid"
  obtain w1 where "saveMyInfo cr (upd_ctx (setClientID cid) w) = (Inr (), w1)"
    using saveMyInfo_returns [of "upd_ctx (setClientID cid) w" cr] assms(3)
    by (cases "saveMyInfo cr (upd_ctx (setClientID cid) w)") auto
  then show ?thesis
    using cid by (simp add: r responseClientMain_def responseCode_bytes length_response responseRegister_def
        readClientID_def bslice_response)
next
  fix es assume "\<forall>x\<in>set es. entry_ok x" and r: "r = response_bytes 2101 (concat (map client_list_entry es))"
  then show ?thesis by (simp add: client_learns_entries)
next
  fix k assume q: "length q = 39" "length k = 160" and r: "r = response_bytes 2102 (bslice 23 16 q @ k)"
  have "length (bslice 23 16 q) = 16" using q(1) by (simp add: length_bslice)
  then show ?thesis unfolding r using client_stores_key q(2) by blast
next
  fix i assume q: "44 \<le> length q" "from_bytes (bslice 17 2 q) = 703" "i < 2 ^ 32" and r: "r = response_bytes 2103 (bslice 23 16 q @ le_bytes 4 i)"
  have "length (bslice 23 16 q) = 16" using q(1) by (simp add: length_bslice)
  moreover obtain f where "tryGetFriendCopy (ctx w) (bslice 23 16 q) = Some f" using assms(4) q by blast
  ultimately show ?thesis unfolding r using client_confirms q(3) by blast
next
  fix rows assume f: "fits rows" and r: "r = response_bytes 2104 (concat (map encode_row rows))"
  show ?thesis
  proof (cases "rows = []")
    case True
    then show ?thesis
      by (simp add: r responseClientMain_def responseCode_bytes length_response responseWaitingMessages_def)
  next
    case False
    from client_shows_rows [OF f False assms(2)] show ?thesis by (simp add: r)
  qed
qed

section \<open>The server behind the connection\<close>

record srv_net =
  sdb :: db
  inbox :: bytes
  turns :: nat

text \<open>What the client writes is one delivery on the socket of the server's thread, which runs
  one turn on it; the bytes of the response wait in \<open>inbox\<close>. Turn \<open>n\<close> of the server has the
  surroundings \<open>envs n\<close>.\<close>

definition loop_write :: "(nat \<Rightarrow> srv_env) \<Rightarrow> bytes \<Rightarrow> srv_net \<Rightarrow> (exn + unit) \<times> srv_net" where
  "loop_write envs data net =
     (case handle_turn (envs (turns net)) True \<lparr>incoming = [data], at_end = None\<rparr> (sdb net) of (resp, s, d) \<Rightarrow>
      (Inr (), net\<lparr>sdb := d, turns := Suc (turns net),
                 inbox := inbox net @ (case resp of None \<Rightarrow> [] | Some r \<Rightarrow> r)\<rparr>))"

definition loop_read :: "nat \<Rightarrow> srv_net \<Rightarrow> (exn + bytes) \<times> srv_net" where
  "loop_read n net =
     (if n \<le> length (inbox net) then (Inr (take n (inbox net)), net\<lparr>inbox := drop n (inbox net)\<rparr>)
      else (Inl (System_error ''End of file''), net))"

definition loopback :: "(nat \<Rightarrow> srv_env) \<Rightarrow> srv_net asio" where
  "loopback envs = \<lparr>asio_connect = (\<lambda>address port net. (Inr (), net)), asio_write = loop_write envs, asio_read = loop_read\<rparr>"

lemma asio_ok_loopback: "asio_ok (loopback envs)"
  by (auto simp: asio_ok_def loopback_def loop_read_def split: if_splits)

lemma loop_write_whole:
  assumes "whole_request q" and "request_handler_main (envs (turns net)) q (sdb net) = (Inr r, d)"
  shows "loop_write envs q net = (Inr (), net\<lparr>sdb := d, turns := Suc (turns net), inbox := inbox net @ r\<rparr>)"
proof -
  have ne: "[] \<notin> set [q]" using assms(1) by (auto simp: whole_request_def)
  obtain s' where "handle_turn (envs (turns net)) True \<lparr>incoming = [q], at_end = None\<rparr> (sdb net) = (Some r, s', d)"
    using handle_turn_whole [of "\<lparr>incoming = [q], at_end = None\<rparr>" q "[]" "envs (turns net)" True "sdb net" thesis] ne assms
    by auto
  then show ?thesis by (simp add: loop_write_def)
qed

text \<open>An exchange over this connection is one run of the server's request handler.\<close>

lemma exchange:
  assumes "whole_request q" and "inbox net = []"
    and "request_handler_main (envs (turns net)) q (sdb net) = (Inr r, d)" and "response_ok r"
  shows "sendAndReceive (loopback envs) q net = (Inr r, net\<lparr>sdb := d, turns := Suc (turns net)\<rparr>)"
proof -
  let ?n = "net\<lparr>sdb := d, turns := Suc (turns net)\<rparr>"
  obtain code p where r: "r = response_bytes code p" and p: "length p < 2 ^ 32"
    using assms(4) by (auto simp: response_ok_def)
  have w: "sendData (loopback envs) q net = (Inr (), ?n\<lparr>inbox := r\<rparr>)"
    using loop_write_whole [where envs = envs and net = net, OF assms(1,3)] assms(2) by (simp add: sendData_def loopback_def)
  have h: "receiveExact (loopback envs) 7 (?n\<lparr>inbox := r\<rparr>) = (Inr (take 7 r), ?n\<lparr>inbox := p\<rparr>)"
    using length_response [of code p] drop_response [of code p]
    by (simp add: receiveExact_def loopback_def loop_read_def r)
  have n: "getPayloadSize (take 7 r) = Inr (length p)" unfolding r by (rule announced_size [OF p])
  have b: "receiveExact (loopback envs) (length p) (?n\<lparr>inbox := p\<rparr>) = (Inr p, ?n\<lparr>inbox := []\<rparr>)"
    by (simp add: receiveExact_def loopback_def loop_read_def)
  have "take 7 r @ p = r" using drop_response [of code p] append_take_drop_id [of 7 r] by (simp add: r)
  moreover have "?n\<lparr>inbox := []\<rparr> = ?n" using assms(2) by simp
  ultimately show ?thesis
    unfolding sendAndReceive_def w h n b prod.case sum.case by simp
qed

section \<open>All threads together\<close>

text \<open>Runs in which no request of the client has 4 GiB or more: such a payload does not fit
  the size field.\<close>

definition below_4G :: "srv_net threads \<Rightarrow> bool" where
  "below_4G t \<longleftrightarrow> (case main_pending t of Request data \<Rightarrow> length data < 23 + 2 ^ 32 | _ \<Rightarrow> True)"

inductive sys_step :: "('sk, 'pk) crypto \<Rightarrow> (nat \<Rightarrow> srv_env) \<Rightarrow> srv_net threads \<Rightarrow> srv_net threads \<Rightarrow> bool"
  for cr envs where
  client: "thread_step cr (loopback envs) t u \<Longrightarrow> below_4G u \<Longrightarrow> sys_step cr envs t u"
| other: "request_handler_main (envs (turns (network t))) q (sdb (network t)) = (r, d) \<Longrightarrow>
      sys_step cr envs t (t\<lparr>network := (network t)\<lparr>sdb := d, turns := Suc (turns (network t))\<rparr>\<rparr>)"

inductive_cases sys_stepE: "sys_step cr envs t u"

definition sys_inv :: "srv_net threads \<Rightarrow> bool" where
  "sys_inv t \<longleftrightarrow> world_wf (world t) \<and> db_ok (sdb (network t)) \<and> inbox (network t) = []
     \<and> (case main_pending t of
          Request data \<Rightarrow> good_request (world t) data \<and> length data < 23 + 2 ^ 32
        | Response r \<Rightarrow> (\<exists>q. good_request (world t) q \<and> length q < 23 + 2 ^ 32 \<and> response_shape q r)
        | _ \<Rightarrow> True)"

lemma good_request_whole:
  assumes "good_request w q" and "length q < 23 + 2 ^ 32"
  shows "whole_request q" and "44 \<le> length q \<and> from_bytes (bslice 17 2 q) = 703 \<longrightarrow> tryGetFriendCopy (ctx w) (bslice 23 16 q) \<noteq> None"
proof -
  obtain m where m: "q = createBuffer m" "length (m_clientID m) = 16" "m_version m = 1" "m_code m \<in> {700, 701, 702, 703, 704}"
    and t: "m_code m = 703 \<longrightarrow> (\<exists>t rest. m_payload m = t @ rest \<and> length t = 16 \<and> tryGetFriendCopy (ctx w) t \<noteq> None)"
    using assms(1) unfolding good_request_def by blast
  have len: "length (m_payload m) < 2 ^ 32" using assms(2) m(1,2) by (simp add: length_createBuffer)
  have q: "q = request_bytes (m_clientID m) (unat (m_code m)) (m_payload m)"
    unfolding m(1) by (rule createBuffer_request [OF len m(3)])
  show "whole_request q" unfolding q by (rule whole_request_bytes [OF m(2) len])
  have "unat (m_code m) < 65536" using unsigned_less [of "m_code m", where 'a = nat] by simp
  then have code: "from_bytes (bslice 17 2 q) = unat (m_code m)"
    unfolding q using m(2) by (simp add: request_bytes_fields from_le_bytes)
  have target: "bslice 23 16 q = take 16 (m_payload m)"
    unfolding q using m(2) by (simp add: bslice_request bslice_0)
  show "44 \<le> length q \<and> from_bytes (bslice 17 2 q) = 703 \<longrightarrow> tryGetFriendCopy (ctx w) (bslice 23 16 q) \<noteq> None"
    unfolding code target using m(4) t by auto
qed

lemma server_answers:
  assumes "db_ok (sdb net)" and "inbox net = []" and "env_ok (envs (turns net))" and "whole_request q"
    and "sendAndReceive (loopback envs) q net = (x, net')"
  shows "\<exists>r. x = Inr r \<and> response_shape q r \<and> db_ok (sdb net') \<and> inbox net' = []"
proof -
  obtain r d where r: "request_handler_main (envs (turns net)) q (sdb net) = (Inr r, d)" "response_ok r"
    by (rule response_ok_request)
  from exchange [where envs = envs and net = net, OF assms(4,2) r] assms(5)
  have "x = Inr r" "net' = net\<lparr>sdb := d, turns := Suc (turns net)\<rparr>" by simp_all
  moreover have "response_shape q r" by (rule shape_request [OF assms(1,3) r(1)])
  moreover have "db_ok d" by (rule db_ok_request [OF assms(1,3) r(1)])
  ultimately show ?thesis using assms(2) by simp
qed

lemma sys_exchange:
  assumes "sys_inv t" and "env_ok (envs (turns (network t)))" and "whole_request q"
    and "sendAndReceive (loopback envs) q (network t) = (x, net)"
  shows "\<exists>r. x = Inr r \<and> response_shape q r \<and> db_ok (sdb net) \<and> inbox net = []"
  using server_answers [OF _ _ assms(2-4)] assms(1) by (simp add: sys_inv_def)

text \<open>One step of the client's threads, with the server's answers.\<close>

lemma main_world:
  assumes "clientMenuMain w = Some (input, v)"
  shows "ctx v = ctx w"
  using menu.run_Some [OF assms] same_but_console_fields(1) by metis

lemma keeps_act:
  assumes "clientMenuMain w = Some (input, v)" and "handleMenuChoice cr input v = Some (r, u)"
  shows "keeps w u"
  using keeps_trans [OF keeps_same_ctx [OF main_world [OF assms(1)]] keeps_handleMenuChoice [OF assms(2)]] .

lemma sys_inv_response:
  assumes "keeps (world t) w" and "sys_inv t"
  shows "world_wf w"
  using assms by (simp add: keeps_def sys_inv_def)

lemma thread_step_keeps:
  "thread_step cr io t u \<Longrightarrow> keeps (world t) (world u)"
proof (induction rule: thread_step.induct)
  case (main_exit t v)
  have "keeps (world t) v" by (rule keeps_same_ctx) (rule main_world [OF main_exit(2)])
  then show ?case using keeps_trans [OF _ keeps_say] by simp
next
  case (pull_handle t buffer r w)
  then show ?case using keeps_trans [OF keeps_say keeps_responseClientMain] by simp
qed (simp_all add: keeps_act keeps_responseClientMain)

lemma sys_step_keeps: "sys_step cr envs t u \<Longrightarrow> keeps (world t) (world u)"
  by (auto elim!: sys_stepE dest: thread_step_keeps)

lemma pull_request_whole:
  assumes "world_wf w"
  shows "whole_request (createBuffer (Message_no_payload (clientID (ctx w)) 704))"
proof -
  have "good_request w (createBuffer (Message_no_payload (clientID (ctx w)) 704))"
    using world_wf_id [OF assms] by (simp add: good_requestI)
  moreover have "length (createBuffer (Message_no_payload (clientID (ctx w)) 704)) < 23 + 2 ^ 32"
    using world_wf_id [OF assms] by (simp add: length_createBuffer Message_no_payload_def)
  ultimately show ?thesis by (rule good_request_whole(1))
qed

text \<open>What a thread has in its hands stays good when the context grows.\<close>

definition pending_ok :: "client_world \<Rightarrow> pending \<Rightarrow> bool" where
  "pending_ok w p \<longleftrightarrow> (case p of
       Request data \<Rightarrow> good_request w data \<and> length data < 23 + 2 ^ 32
     | Response r \<Rightarrow> (\<exists>q. good_request w q \<and> length q < 23 + 2 ^ 32 \<and> response_shape q r)
     | _ \<Rightarrow> True)"

lemma sys_inv_alt:
  "sys_inv t \<longleftrightarrow> world_wf (world t) \<and> db_ok (sdb (network t)) \<and> inbox (network t) = [] \<and> pending_ok (world t) (main_pending t)"
  by (simp add: sys_inv_def pending_ok_def)

lemma pending_ok_mono: "pending_ok v p \<Longrightarrow> keeps v w \<Longrightarrow> pending_ok w p"
  unfolding pending_ok_def by (cases p) (auto intro: good_request_mono)

lemma pending_ok_done [simp]: "pending_ok w Idle" "pending_ok w (Finished x)"
  by (simp_all add: pending_ok_def)

lemma sys_inv_thread:
  assumes "thread_step cr (loopback envs) t u" and "\<forall>n. env_ok (envs n)" and "sys_inv t" and "below_4G u"
  shows "sys_inv u"
proof -
  note env = spec [OF assms(2), of "turns (network t)"]
  have wf: "world_wf (world t)" and db: "db_ok (sdb (network t))" "inbox (network t) = []"
    and p: "pending_ok (world t) (main_pending t)"
    using assms(3) by (simp_all add: sys_inv_alt)
  note k = thread_step_keeps [OF assms(1)]
  then have wf': "world_wf (world u)" using wf by (simp add: keeps_def)
  from assms(1) show ?thesis
  proof cases
    case (main_act input v data w)
    have "world_wf v" using main_world [OF main_act(3)] wf by (simp add: world_wf_def)
    from good_handleMenuChoice [OF this main_act(5)] assms(4)
    have "pending_ok w (if data = [] then Idle else Request data)"
      by (auto simp: pending_ok_def main_act(1) below_4G_def split: if_splits)
    with wf' db show ?thesis by (simp add: sys_inv_alt main_act(1))
  next
    case (main_exchange data r net)
    have good: "good_request (world t) data" "length data < 23 + 2 ^ 32"
      using p by (simp_all add: pending_ok_def main_exchange(2))
    obtain b where "r = Inr b" "response_shape data b" "db_ok (sdb net)" "inbox net = []"
      using sys_exchange [OF assms(3) env good_request_whole(1) [OF good] main_exchange(3)] by blast
    with good wf show ?thesis by (auto simp: sys_inv_alt main_exchange(1) pending_ok_def)
  next
    case (pull_exchange r net)
    from sys_exchange [OF assms(3) env pull_request_whole [OF wf] pull_exchange(4)]
    have "db_ok (sdb net)" "inbox net = []" by auto
    with wf p show ?thesis by (simp add: sys_inv_alt pull_exchange(1))
  next
    case (pull_handle buffer r w)
    then have "pending_ok (world u) (main_pending u)" using pending_ok_mono [OF p k] by simp
    with wf' db show ?thesis by (simp add: sys_inv_alt pull_handle(1))
  qed (use wf' db in \<open>simp_all add: sys_inv_alt split: sum.split\<close>)
qed

lemma sys_inv_step:
  assumes "sys_step cr envs t u" and "\<forall>n. env_ok (envs n)" and "sys_inv t"
  shows "sys_inv u"
  using assms(1)
proof cases
  case client
  with assms show ?thesis by (simp add: sys_inv_thread)
next
  case (other q r d)
  have "db_ok d"
    by (rule db_ok_request [OF _ _ other(2)]) (use assms(2,3) in \<open>simp_all add: sys_inv_alt\<close>)
  with assms(3) show ?thesis by (simp add: sys_inv_alt other(1))
qed

text \<open>The system as a machine, for any surroundings of the server.\<close>

definition good_envs :: "(nat \<Rightarrow> srv_env) \<Rightarrow> nat \<Rightarrow> srv_env" where
  "good_envs envs n = (if env_ok (envs n) then envs n else (envs n)\<lparr>token := replicate 16 0\<rparr>)"

lemma good_envs_ok: "env_ok (good_envs envs n)"
  by (simp add: good_envs_def env_ok_def)

lemma good_envs_id: "\<forall>n. env_ok (envs n) \<Longrightarrow> good_envs envs = envs"
  by (auto simp: good_envs_def)

interpretation sys: machine "sys_step cr (good_envs envs)" sys_inv "\<lambda>t u. keeps (world t) (world u)" for cr envs
  by unfold_locales (auto intro: sys_inv_step sys_step_keeps keeps_trans simp: good_envs_ok)

text \<open>Where both threads are idle and nothing is on the wire.\<close>

definition sys_start :: "srv_net threads \<Rightarrow> bool" where
  "sys_start t \<longleftrightarrow> main_pending t = Idle \<and> pull_pending t = Idle \<and> world_wf (world t)
     \<and> db_ok (sdb (network t)) \<and> inbox (network t) = []"

lemma sys_start_inv: "sys_start t \<Longrightarrow> sys_inv t"
  by (simp add: sys_start_def sys_inv_alt)

lemma sys_reach:
  assumes "(sys_step cr envs)\<^sup>*\<^sup>* t u" and "\<forall>n. env_ok (envs n)" and "sys_start t"
  shows "sys_inv u" and "keeps (world t) (world u)"
proof -
  have r: "(sys_step cr (good_envs envs))\<^sup>*\<^sup>* t u" using assms(1) good_envs_id [OF assms(2)] by simp
  show "sys_inv u" by (rule sys.reach_inv [OF r sys_start_inv [OF assms(3)]])
  show "keeps (world t) (world u)" by (rule sys.reach_grows [OF r sys_start_inv [OF assms(3)]])
qed

end
