(* ===== verification/Crypto_Instance.thy ===== *)
theory Crypto_Instance
  imports Crypto_Wrappers
begin

text \<open>
  A concrete \<open>crypto\<close> that satisfies \<open>crypto_ok\<close>, so that the hypothesis can hold and the
  properties that have it can be evaluated. A key pair is one byte; the ciphers put the key
  in front of the text and check it when they decrypt; the text encoding escapes line breaks.
\<close>

definition toy_cbc_decrypt :: "bytes \<Rightarrow> bytes \<Rightarrow> bytes \<Rightarrow> exn + bytes" where
  "toy_cbc_decrypt k iv c = (if take 16 c = k then Inr (drop 16 c) else Inl (Crypto_exception ''invalid padding''))"

definition toy_oaep_decrypt :: "byte \<Rightarrow> bytes \<Rightarrow> exn + bytes" where
  "toy_oaep_decrypt sk c = (case c of [] \<Rightarrow> Inl (Crypto_exception ''invalid ciphertext'')
     | x # m \<Rightarrow> if x = sk then Inr m else Inl (Crypto_exception ''invalid ciphertext''))"

definition toy_load_private :: "bytes \<Rightarrow> exn + byte" where
  "toy_load_private bs = (case bs of [b] \<Rightarrow> Inr b | _ \<Rightarrow> Inl (Crypto_exception ''BER decode error''))"

definition toy_load_public :: "bytes \<Rightarrow> exn + byte" where
  "toy_load_public bs =
     (if length bs = 160 \<and> tl bs = replicate 159 0 then Inr (hd bs) else Inl (Crypto_exception ''BER decode error''))"

definition toy_encode :: "bytes \<Rightarrow> bytes" where
  "toy_encode s = concat (map (\<lambda>b. if b \<in> {1, 10, 13} then [1, b + 1] else [b]) s)"

fun toy_decode :: "bytes \<Rightarrow> exn + bytes" where
  "toy_decode [] = Inr []"
| "toy_decode [b] = Inr [b]"
| "toy_decode (b # c # bs) =
     (if b = 1 then (case toy_decode bs of Inl e \<Rightarrow> Inl e | Inr r \<Rightarrow> Inr ((c - 1) # r))
      else (case toy_decode (c # bs) of Inl e \<Rightarrow> Inl e | Inr r \<Rightarrow> Inr (b # r)))"

definition toy :: "(byte, byte) crypto" where
  "toy = \<lparr>rdrand32 = (\<lambda>n. of_nat (n + 7)),
     cbc_encrypt = (\<lambda>k iv m. k @ m), cbc_decrypt = toy_cbc_decrypt,
     rsa_generate = (\<lambda>n. of_nat (n + 33)), rsa_load_private = toy_load_private, rsa_save_private = (\<lambda>sk. [sk]),
     rsa_load_public = toy_load_public, rsa_save_public = (\<lambda>pk. pk # replicate 159 0), rsa_public_of = (\<lambda>sk. sk),
     oaep_encrypt = (\<lambda>n pk m. Inr (pk # m)), oaep_decrypt = toy_oaep_decrypt,
     base64_encode = toy_encode, base64_decode = toy_decode\<rparr>"

lemma toy_encode_clean: "c \<in> set (toy_encode s) \<Longrightarrow> c \<noteq> 10 \<and> c \<noteq> 13"
  by (auto simp: toy_encode_def split: if_splits)

lemma toy_encode_Cons: "toy_encode (b # s) = (if b \<in> {1, 10, 13} then [1, b + 1] else [b]) @ toy_encode s"
  by (simp add: toy_encode_def)

lemma toy_decode_Cons: "b \<noteq> 1 \<Longrightarrow> toy_decode (b # s) = (case toy_decode s of Inl e \<Rightarrow> Inl e | Inr r \<Rightarrow> Inr (b # r))"
  by (cases s) simp_all

lemma toy_decode_encode: "toy_decode (toy_encode s) = Inr s"
proof (induction s)
  case (Cons b s)
  show ?case
  proof (cases "b \<in> {1, 10, 13}")
    case True
    with Cons show ?thesis by (simp add: toy_encode_Cons)
  next
    case False
    with Cons show ?thesis by (simp add: toy_encode_Cons toy_decode_Cons)
  qed
qed (simp add: toy_encode_def)

lemma crypto_ok_toy: "crypto_ok toy"
proof -
  have id: "filter (\<lambda>c. c \<noteq> 10 \<and> c \<noteq> 13) (toy_encode s) = toy_encode s" for s
    using toy_encode_clean by (intro filter_True) blast
  have ne: "s \<noteq> [] \<Longrightarrow> toy_encode s \<noteq> []" for s
    by (cases s) (simp_all add: toy_encode_Cons)
  show ?thesis
    unfolding crypto_ok_def
    by (intro conjI allI impI)
       (simp_all add: toy_def id ne toy_decode_encode toy_cbc_decrypt_def toy_oaep_decrypt_def
          toy_load_private_def toy_load_public_def, auto)
qed

end
