(* ===== verification/Flows.thy ===== *)
theory Flows
  imports System Crypto_Instance
begin

text \<open>
  The requests of each menu action in closed form, for a console input that leads to them.
  The end-to-end properties put them together with the effects on the server and the
  client's handling of the responses.
\<close>

section \<open>Requests in closed form\<close>

lemma empty_request:
  assumes "length cid = 16"
  shows "createBuffer (Message_no_payload cid code) = request_bytes cid (unat code) []"
  by (subst createBuffer_request) (simp_all add: Message_no_payload_def)

lemma payload_request:
  assumes "length p < 2 ^ 32"
  shows "createBuffer (Message_payload cid code p) = request_bytes cid (unat code) p"
  using assms by (subst createBuffer_request) (simp_all add: Message_payload_def)

lemma prompt_first:
  assumes "cin w = nm # rest" and "isValidUsername nm"
  obtains v where "getValidUsername prompt w = Some (nm, v)" and "cin v = rest" and "same_but_console w v"
  using username.run_accept [of w nm rest prompt] assms by (auto simp: acceptable_iff)

section \<open>Register\<close>

definition client_name :: "bytes \<Rightarrow> bool" where
  "client_name nm \<longleftrightarrow> isValidUsername nm \<and> 0 \<notin> set nm"

lemma client_name_ok: "client_name nm \<longleftrightarrow> name_ok nm"
  by (auto simp: client_name_def name_ok_def isValidUsername_iff word_gt_0)

lemma name_field:
  assumes "length nm \<le> 254"
  shows "(take (min (length nm) (NAME_SIZE - 1)) nm @ drop (min (length nm) (NAME_SIZE - 1)) (replicate NAME_SIZE 0))[length nm := 0]
     = padded_name nm"
proof -
  have m: "min (length nm) (NAME_SIZE - 1) = length nm" using assms by simp
  have r: "255 - length nm = Suc (254 - length nm)" using assms by simp
  show ?thesis
    unfolding m padded_name_def by (simp add: list_update_append r)
qed

lemma handleRegister_run:
  assumes "world_wf w" and "\<not> hasClientID (ctx w)" and "cin w = nm # rest" and "isValidUsername nm"
    and "length (rsa_save_public cr (rsa_public_of cr (rsa_generate cr (rng w)))) = 160"
  shows "\<exists>w'. handleRegister cr w = Some (Inr (request_bytes (clientID (ctx w)) 700
       (padded_name nm @ rsa_save_public cr (rsa_public_of cr (rsa_generate cr (rng w))))), w')
     \<and> ctx w' = setPrivateKey (rsa_save_private cr (rsa_generate cr (rng w))) (setName nm (ctx w))
     \<and> exe_path_len w' = exe_path_len w \<and> my_info_open_ok w' = my_info_open_ok w
     \<and> my_info_short_write w' = my_info_short_write w"
proof -
  let ?pk = "rsa_save_public cr (rsa_public_of cr (rsa_generate cr (rng w)))"
  obtain v where v: "getValidUsername (lit ''Please enter your username: '') w = Some (nm, v)" "same_but_console w v"
    using prompt_first [OF assms(3,4)] by blast
  note same = same_but_console_fields [OF v(2)]
  have len: "length nm \<le> 254" using assms(4) by (simp add: isValidUsername_iff)
  have key: "RSAPrivateWrapper_getPublicKey cr (RSAPrivateWrapper_generate cr (rng w)) (replicate RSA_KEYSIZE 0) RSA_KEYSIZE = ?pk"
    using assms(5) by (simp add: RSAPrivateWrapper_generate_def RSAPrivateWrapper_getPublicKey_full)
  have "length (padded_name nm @ ?pk) < 2 ^ 32" using len assms(5) by (simp add: padded_name_def)
  note req = payload_request [OF this, of "clientID (ctx w)" 700]
  let ?w = "upd_ctx (setPrivateKey (RSAPrivateWrapper_getPrivateKey cr (RSAPrivateWrapper_generate cr (rng v))))
      ((upd_ctx (setName nm) v)\<lparr>rng := rng v + 1\<rparr>)"
  have "handleRegister cr w = Some (Inr (request_bytes (clientID (ctx w)) 700 (padded_name nm @ ?pk)), ?w)"
    using assms(2) v(1) name_field [OF len] key req same
    by (simp add: handleRegister_def Let_def ctx_simps)
  then show ?thesis
    using same by (intro exI [of _ ?w]) (simp add: RSAPrivateWrapper_getPrivateKey_def RSAPrivateWrapper_generate_def)
qed

section \<open>Messages\<close>

lemma text_lines_run:
  "[] \<notin> set lines \<Longrightarrow> text_lines msg (lines @ [] # rest) = (msg @ concat (map (\<lambda>l. l @ nl) lines), rest)"
  by (induction lines arbitrary: msg) auto

lemma message_request_bytes:
  assumes "length t = 16" and "21 + length c < 2 ^ 32"
  shows "message_request w t (Some ty) c = request_bytes (clientID (ctx w)) 703 (send_payload t ty c)"
proof -
  have n: "appendUint32LE [] (of_nat (length c)) = le_bytes 4 (length c)"
    using assms(2) by (simp add: le_bytes_of_nat_u32)
  have p: "appendUint32LE (t @ [ty]) (of_nat (length c)) @ c = send_payload t ty c"
    unfolding appendUint32LE_app [of "t @ [ty]"] n by (simp add: send_payload_def)
  have "length (send_payload t ty c) < 2 ^ 32"
    using assms by (simp add: send_payload_def length_le_bytes)
  then show ?thesis
    unfolding message_request_def Let_def option.case p by (simp add: payload_request)
qed

lemma target_first:
  assumes "cin w = nm # rest" and "isValidUsername nm" and "nm \<noteq> lit ''0''" and "tryGetFriendIdByName (ctx w) nm = Some t"
  obtains v where "getValidUsername target_prompt w = Some (nm, v)" and "cin v = rest" and "ctx v = ctx w" and "rng v = rng w"
    and "tryGetFriendIdByName (ctx v) nm = Some t"
proof -
  obtain v where v: "getValidUsername target_prompt w = Some (nm, v)" "cin v = rest" "same_but_console w v"
    using prompt_first [OF assms(1,2)] by blast
  note same = same_but_console_fields(1,2) [OF v(3)]
  show ?thesis
    by (rule that [OF v(1,2) same]) (simp add: same assms(4))
qed

lemma send_text_run:
  assumes "cin w = nm # lines @ [] # rest" and "isValidUsername nm" and "nm \<noteq> lit ''0''"
    and "lines \<noteq> []" and "[] \<notin> set lines" and "tryGetFriendIdByName (ctx w) nm = Some t" and "length t = 16"
    and "tryGetFriendCopy (ctx w) t = Some f" and "symmetricKey f = Some k" and "length k = 16"
    and "msg = concat (map (\<lambda>l. l @ nl) lines)" and "length msg < 2 ^ 32"
    and "aes_encrypt cr k msg \<noteq> []" and "21 + length (aes_encrypt cr k msg) < 2 ^ 32"
  shows "\<exists>w'. handleAllMessages cr 150 w =
      Some (Inr (request_bytes (clientID (ctx w)) 703 (send_payload t 3 (aes_encrypt cr k msg))), w') \<and> ctx w' = ctx w"
proof -
  obtain v where v: "getValidUsername target_prompt w = Some (nm, v)" "cin v = lines @ [] # rest" "ctx v = ctx w"
      "tryGetFriendIdByName (ctx v) nm = Some t"
    using target_first [OF assms(1,2,3,6)] by blast
  have ne: "msg \<noteq> []" using assms(4,5,11) by (cases lines) (auto simp: nl_def)
  have tk: "take (unat (of_nat (length msg) :: u32)) msg = msg" using assms(12) by (simp add: unat_of_nat)
  have lines: "text_lines [] (cin v) = (msg, rest)" using text_lines_run [OF assms(5), of "[]" rest] v(2) assms(11) by simp
  obtain v' where "handleSendText cr t v = (Inr (aes_encrypt cr k msg), v')" "ctx v' = ctx w"
    using assms(8,9,10) ne tk lines v(3) by (simp add: handleSendText_def AESWrapper_key_def Let_def)
  then show ?thesis
    using v assms(3,7,13,14) by (simp add: handleAllMessages_def message_request_bytes)
qed

lemma send_key_run:
  assumes "cin w = nm # rest" and "isValidUsername nm" and "nm \<noteq> lit ''0''"
    and "tryGetFriendIdByName (ctx w) nm = Some t" and "length t = 16"
    and "tryGetFriendCopy (ctx w) t = Some f" and "publicKey f = Some pkb" and "length pkb = 160"
    and "rsa_load_public cr pkb = Inr pk" and "k = AESWrapper_random cr (rng w) (replicate 16 0)"
    and "oaep_encrypt cr (rng w + 4) pk k = Inr c" and "c \<noteq> []" and "21 + length c < 2 ^ 32"
  shows "\<exists>w'. handleAllMessages cr 152 w =
      Some (Inr (request_bytes (clientID (ctx w)) 703 (send_payload t 2 c)), w')
      \<and> ctx w' = setFriendSymmetricKey t k (ctx w)"
proof -
  obtain v where v: "getValidUsername target_prompt w = Some (nm, v)" "cin v = rest" "ctx v = ctx w" "rng v = rng w"
      "tryGetFriendIdByName (ctx v) nm = Some t"
    using target_first [OF assms(1,2,3,4)] by blast
  have k: "length k = 16" by (simp add: assms(10) length_AESWrapper_random)
  obtain v' where "handleSendSymmetricKey cr t v = (Inr c, v')" "ctx v' = setFriendSymmetricKey t k (ctx w)"
    using assms(6-11) v(3,4) k
    by (simp add: handleSendSymmetricKey_def RSAPublicWrapper_load_def RSAPublicWrapper_encrypt_def Let_def)
  then show ?thesis
    using v assms(3,5,12,13) by (simp add: handleAllMessages_def message_request_bytes ctx_simps)
qed

section \<open>What the receiver shows\<close>

lemma show_text:
  assumes "tryGetFriendCopy (ctx w) a = Some f" and "symmetricKey f = Some k" and "length k = 16"
    and "aes_decrypt cr k c = Inr msg"
  shows "showRecord cr sk a 3 c w =
    say (lit ''From: '' @ displayName (ctx w) a @ nl @ lit ''Content:'' @ nl @ msg @ nl @ lit ''-----<EOM>-----'' @ nl @ nl) w"
  using assms by (simp add: showRecord_def handleTextMessage_def AESWrapper_key_def Let_def say_def)

lemma show_key:
  assumes "oaep_decrypt cr sk c = Inr k" and "length k = 16"
  shows "ctx (showRecord cr sk a 2 c w) =
    setFriendSymmetricKey a k (if tryGetFriendCopy (ctx w) a = None then setFriendBase a [] (ctx w) else ctx w)"
  using assms by (simp add: showRecord_def handleSymmetricKeyMessage_def RSAPrivateWrapper_decrypt_def Let_def)

section \<open>The server between two clients\<close>

text \<open>A message of \<open>a\<close> to \<open>b\<close>, stored while \<open>b\<close> has nothing waiting, then fetched by \<open>b\<close>.\<close>

lemma send_then_fetch:
  assumes "db_ok d" and "db_ready e1" "db_ready e2" and "a \<in> c_id ` set (clients d)" "b \<in> c_id ` set (clients d)"
    and "ty \<in> {1, 2, 3}" and "ty = 1 \<longrightarrow> c = []" and "25 + length c < 2 ^ 32" and "Suc (seq d) < 2 ^ 32"
    and "fetch_rows d b = []" and "1 \<le> max_vars e2"
  obtains d1 d2 where
    "request_handler_main e1 (request_bytes a 703 (send_payload b ty c)) d =
       (Inr (response_bytes 2103 (b @ le_bytes 4 (Suc (seq d)))), d1)"
    and "request_handler_main e2 (request_bytes b 704 []) d1 =
       (Inr (response_bytes 2104 (encode_row (Suc (seq d), a, unat ty, c))), d2)"
    and "fetch_rows d2 b = []" and "row_ok (Suc (seq d), a, unat ty, c)"
    and "fits [(Suc (seq d), a, unat ty, c)]"
proof -
  have len: "length a = 16" "length b = 16"
    using assms(4,5) db_okD(3) [OF assms(1)] by (auto simp: client_row_ok_def)
  let ?d = "touched (now e1) a d" and ?row = "(Suc (seq d), a, unat ty, c)"
  let ?d1 = "snd (store_row b a (unat ty) c ?d)"
  have c21: "21 + length c < 2 ^ 32" using assms(8) by simp
  note send = send_run [OF len(1) assms(2,4) len(2) assms(5,6,7) c21 assms(9)]
  have ids: "ids_ok ?d" using db_ok_ids_ok [OF db_ok_touched [OF assms(1)]] .
  have rows: "fetch_rows ?d1 b = [?row]"
    using fetch_after_store [OF ids, of b a "unat ty" c b] assms(10) by (simp add: fetch_rows_touched touched_keeps)
  have ids1: "ids_ok ?d1" using ids by (rule ids_ok_store)
  have row: "row_ok ?row" using len assms(6,8,9) by (auto simp: row_ok_def)
  have fits: "fits [?row]" using row len assms(8) by (simp add: fits_def length_encode_row)
  have "clients ?d1 = clients ?d" by (simp add: store_row_def)
  then have b: "b \<in> c_id ` set (clients ?d1)" using assms(5) by (simp add: touched_keeps)
  have "request_handler_main e2 (request_bytes b 704 []) ?d1 =
      (Inr (response_bytes 2104 (encode_row ?row)), drop_rows (map fst (fetch_rows ?d1 b)) (touched (now e2) b ?d1))"
    using waiting_run [OF len(2) assms(3) b] fits assms(11) unfolding rows by simp
  moreover have "fetch_rows (drop_rows (map fst (fetch_rows ?d1 b)) (touched (now e2) b ?d1)) b = []"
    using fetch_after_fetch [OF ids1, of b "now e2" b] by simp
  ultimately show ?thesis using that send row fits by blast
qed

end
