(* ===== verification/Sample.thy ===== *)
theory Sample
  imports Flows
begin

text \<open>
  One concrete pair of clients, Alice and Bob, with the tables of a server that knows both,
  at which the properties with hypotheses are evaluated.
\<close>

definition alice :: bytes where
  "alice = replicate 16 1"

definition bob :: bytes where
  "bob = replicate 16 2"

definition alice_name :: bytes where
  "alice_name = lit ''Alice''"

definition bob_name :: bytes where
  "bob_name = lit ''Bob''"

definition shared_key :: bytes where
  "shared_key = replicate 16 9"

text \<open>Alice's key pair is the byte 65, Bob's 66.\<close>

definition alice_pub :: bytes where
  "alice_pub = 65 # replicate 159 0"

definition bob_pub :: bytes where
  "bob_pub = 66 # replicate 159 0"

definition sample_db :: db where
  "sample_db = \<lparr>clients = [\<lparr>c_id = alice, c_name = alice_name, c_pubkey = alice_pub, c_last_seen = ''''\<rparr>,
                          \<lparr>c_id = bob, c_name = bob_name, c_pubkey = bob_pub, c_last_seen = ''''\<rparr>],
               messages = [], seq = 6\<rparr>"

definition sample_env :: srv_env where
  "sample_env = \<lparr>now = ''2024-01-01T00:00:00'', token = replicate 16 7, stmt_ok = (\<lambda>i. True), max_vars = 32766\<rparr>"

definition alice_ctx :: client_ctx where
  "alice_ctx = \<lparr>clientID = alice, userName = alice_name, privateKey = [65],
     friends = [(bob, \<lparr>friendID = bob, friendName = bob_name, publicKey = Some bob_pub, symmetricKey = Some shared_key\<rparr>)]\<rparr>"

definition bob_ctx :: client_ctx where
  "bob_ctx = \<lparr>clientID = bob, userName = bob_name, privateKey = [66],
     friends = [(alice, \<lparr>friendID = alice, friendName = alice_name, publicKey = Some alice_pub, symmetricKey = Some shared_key\<rparr>)]\<rparr>"

definition alice_world :: "bytes list \<Rightarrow> client_world" where
  "alice_world ls = init_world\<lparr>ctx := alice_ctx, cin := ls\<rparr>"

definition bob_world :: client_world where
  "bob_world = init_world\<lparr>ctx := bob_ctx\<rparr>"

text \<open>A client that has not registered.\<close>

definition new_world :: "bytes list \<Rightarrow> client_world" where
  "new_world ls = init_world\<lparr>cin := ls\<rparr>"

section \<open>Facts about them\<close>

lemma sample_ids [simp]: "length alice = 16" "length bob = 16" "alice \<noteq> bob" "bob \<noteq> alice"
  "length alice_pub = 160" "length bob_pub = 160" "length shared_key = 16"
  by (simp_all add: alice_def bob_def alice_pub_def bob_pub_def shared_key_def)

lemma lit_Cons: "lit (c # s) = of_char c # lit s" "lit [] = []"
  by (simp_all add: lit_def)

lemma sample_names: "isValidUsername alice_name" "isValidUsername bob_name" "alice_name \<noteq> bob_name"
  "alice_name \<noteq> lit ''0''" "bob_name \<noteq> lit ''0''" "client_row_ok \<lparr>c_id = alice, c_name = alice_name, c_pubkey = alice_pub, c_last_seen = t\<rparr>"
  "client_row_ok \<lparr>c_id = bob, c_name = bob_name, c_pubkey = bob_pub, c_last_seen = t\<rparr>"
  by (simp_all add: isValidUsername_def alice_name_def bob_name_def lit_Cons client_row_ok_def)

lemma db_ok_sample: "db_ok sample_db"
  using sample_names by (auto simp: db_ok_def sample_db_def)

lemma sample_clients: "clients sample_db =
    [\<lparr>c_id = alice, c_name = alice_name, c_pubkey = alice_pub, c_last_seen = ''''\<rparr>,
     \<lparr>c_id = bob, c_name = bob_name, c_pubkey = bob_pub, c_last_seen = ''''\<rparr>]"
  "messages sample_db = []" "seq sample_db = 6"
  by (simp_all add: sample_db_def)

lemma sample_env_facts: "env_ok sample_env" "db_ready sample_env" "max_vars sample_env = 32766"
  "token sample_env = replicate 16 7" "stmt_ok sample_env i" "now sample_env = ''2024-01-01T00:00:00''"
  by (simp_all add: sample_env_def env_ok_def db_ready_def)

lemma sample_fetch: "fetch_rows sample_db r = []"
  by (simp add: fetch_rows_def sample_clients)

lemma ctx_wf_sample: "ctx_wf alice_ctx" "ctx_wf bob_ctx"
  by (simp_all add: ctx_wf_def alice_ctx_def bob_ctx_def map_ok_def friend_wf_def)

lemma world_wf_sample: "world_wf (alice_world ls)" "world_wf bob_world" "world_wf (new_world ls)"
  by (simp_all add: world_wf_def alice_world_def bob_world_def new_world_def init_world_def ctx_wf_sample ctx_wf_init)

lemma sample_worlds: "ctx (alice_world ls) = alice_ctx" "cin (alice_world ls) = ls" "ctx bob_world = bob_ctx"
  "rng (alice_world ls) = 0" "ctx (new_world ls) = init_ctx" "cin (new_world ls) = ls" "rng (new_world ls) = 0"
  by (simp_all add: alice_world_def bob_world_def new_world_def init_world_def)

lemma sample_paths: "getExecutableDirectory (alice_world ls) = Inr ()" "getExecutableDirectory bob_world = Inr ()"
  "getExecutableDirectory (new_world ls) = Inr ()"
  by (simp_all add: alice_world_def bob_world_def new_world_def init_world_def getExecutableDirectory_def)

lemma sample_friends:
  "tryGetFriendIdByName alice_ctx bob_name = Some bob"
  "tryGetFriendCopy alice_ctx bob = Some \<lparr>friendID = bob, friendName = bob_name, publicKey = Some bob_pub, symmetricKey = Some shared_key\<rparr>"
  "tryGetFriendCopy bob_ctx alice = Some \<lparr>friendID = alice, friendName = alice_name, publicKey = Some alice_pub, symmetricKey = Some shared_key\<rparr>"
  "clientID alice_ctx = alice" "clientID bob_ctx = bob" "privateKey bob_ctx = [66]" "privateKey alice_ctx = [65]"
  by (simp_all add: alice_ctx_def bob_ctx_def tryGetFriendIdByName_def tryGetFriendCopy_def)

lemma sample_registered: "hasClientID alice_ctx" "\<not> hasClientID init_ctx"
  by (simp_all add: hasClientID_def list_ex_iff alice_ctx_def alice_def init_ctx_def)

lemma toy_facts: "rsa_load_private toy [x] = Inr x" "rsa_load_public toy bob_pub = Inr 66"
  "aes_encrypt toy k m = k @ m" "rsa_load_public toy alice_pub = Inr 65"
  by (simp_all add: toy_def toy_load_private_def toy_load_public_def aes_encrypt_def bob_pub_def alice_pub_def)

lemma toy_keys: "rsa_save_public toy x = x # replicate 159 0" "rsa_public_of toy x = x" "rsa_generate toy n = of_nat (n + 33)"
  "rsa_save_private toy x = [x]" "oaep_encrypt toy n x m = Inr (x # m)"
  by (simp_all add: toy_def)

section \<open>A run\<close>

definition sample_threads :: "srv_net threads" where
  "sample_threads = \<lparr>world = alice_world [lit ''120''], network = \<lparr>sdb = sample_db, inbox = [], turns = 0\<rparr>,
     main_pending = Idle, pull_pending = Idle\<rparr>"

lemma sample_envs: "\<forall>n :: nat. env_ok ((\<lambda>n. sample_env) n)"
  by (simp add: sample_env_facts)

lemma sample_start: "sys_start sample_threads"
  by (simp add: sys_start_def sample_threads_def world_wf_sample db_ok_sample)

lemma option_120: "option_line (lit ''120'')" "parse_input (lit ''120'') = 120"
  by (simp_all add: option_line_def parse_input_def isNumber_def strtoul_def lit_Cons isspace_def isdigit_def dec_value_def
      isValidMenuOption_def)

text \<open>Alice asks for the clients list and has the response in her hands.\<close>

lemma sample_run:
  "\<exists>u r. (sys_step toy (\<lambda>n. sample_env))\<^sup>*\<^sup>* sample_threads u \<and> main_pending u = Response r
     \<and> same_but_console (alice_world [lit ''120'']) (world u)"
proof -
  let ?w = "alice_world [lit ''120'']" and ?net = "\<lparr>sdb = sample_db, inbox = [], turns = 0\<rparr>" and ?q = "request_bytes alice 701 []"
  obtain v where v: "clientMenuMain ?w = Some (120, v)" "same_but_console ?w v"
    using menu.run_accept [of ?w "lit ''120''" "[]"] option_120 by (auto simp: sample_worlds)
  have "ctx v = alice_ctx" using same_but_console_fields(1) [OF v(2)] by (simp add: sample_worlds)
  then have act: "handleMenuChoice toy 120 v = Some (Inr ?q, v)"
    by (simp add: handleMenuChoice_def handleClientList_def empty_request sample_friends)
  let ?t1 = "sample_threads\<lparr>world := v, main_pending := Request ?q\<rparr>"
  have ne: "?q \<noteq> []" by (simp add: request_bytes_def)
  have "thread_step toy (loopback (\<lambda>n. sample_env)) sample_threads
      (sample_threads\<lparr>world := v, main_pending := (if ?q = [] then Idle else Request ?q)\<rparr>)"
    by (rule main_act [OF _ _ _ act]) (use v(1) in \<open>simp_all add: sample_threads_def\<close>)
  then have s1: "sys_step toy (\<lambda>n. sample_env) sample_threads ?t1"
    using ne by (intro sys_step.client) (simp_all add: below_4G_def request_bytes_fields)
  obtain r d where r: "request_handler_main sample_env ?q sample_db = (Inr r, d)" "response_ok r"
    by (rule response_ok_request)
  have "sendAndReceive (loopback (\<lambda>n. sample_env)) ?q ?net = (Inr r, ?net\<lparr>sdb := d, turns := Suc 0\<rparr>)"
    using exchange [of ?q ?net "\<lambda>n. sample_env" r d] r by (simp add: whole_request_bytes)
  then have ex: "sendAndReceive (loopback (\<lambda>n. sample_env)) ?q (network ?t1) = (Inr r, ?net\<lparr>sdb := d, turns := Suc 0\<rparr>)"
    by (simp add: sample_threads_def)
  let ?t2 = "?t1\<lparr>network := ?net\<lparr>sdb := d, turns := Suc 0\<rparr>, main_pending := Response r\<rparr>"
  have "thread_step toy (loopback (\<lambda>n. sample_env)) ?t1 ?t2"
    using main_exchange [OF _ ex, of toy] by simp
  then have s2: "sys_step toy (\<lambda>n. sample_env) ?t1 ?t2"
    by (intro sys_step.client) (simp_all add: below_4G_def)
  have "(sys_step toy (\<lambda>n. sample_env))\<^sup>*\<^sup>* sample_threads ?t2"
    using s1 s2 by (rule rtranclp.rtrancl_into_rtrancl [OF r_into_rtranclp])
  then show ?thesis using v(2) by (intro exI [of _ ?t2] exI [of _ r]) simp
qed

end
