(* ===== verification/Server_Port.thy ===== *)
theory Server_Port
  imports MU_Prelude
begin

text \<open>
  \<^verbatim>\<open>Server/get_port.py\<close>: the port the server listens on. A text is the list of its code points.
  The record \<open>py_text\<close> holds what Python's Unicode tables say of the code points from 128 on
  and the limit on the digits of \<^verbatim>\<open>int\<close>. The result is the port and the warnings printed.
\<close>

record py_text =
  u_space :: "nat \<Rightarrow> bool"
  u_decimal :: "nat \<Rightarrow> nat option"
  int_max_str_digits :: nat

section \<open>Text\<close>

fun universal_newlines :: "nat list \<Rightarrow> nat list" where
  "universal_newlines [] = []"
| "universal_newlines [c] = [if c = 13 then 10 else c]"
| "universal_newlines (c # c' # cs) =
     (if c = 13 \<and> c' = 10 then 10 # universal_newlines cs
      else (if c = 13 then 10 else c) # universal_newlines (c' # cs))"

text \<open>\<^verbatim>\<open>readlines\<close> keeps the newline of each line.\<close>

fun readlines :: "nat list \<Rightarrow> nat list list" where
  "readlines [] = []"
| "readlines (c # cs) =
     (if c = 10 then [10] # readlines cs
      else case readlines cs of [] \<Rightarrow> [[c]] | l # ls \<Rightarrow> (c # l) # ls)"

definition py_isspace :: "py_text \<Rightarrow> nat \<Rightarrow> bool" where
  "py_isspace u c = (if c < 128 then 9 \<le> c \<and> c \<le> 13 \<or> 28 \<le> c \<and> c \<le> 32 else u_space u c)"

definition strip :: "py_text \<Rightarrow> nat list \<Rightarrow> nat list" where
  "strip u s = rev (dropWhile (py_isspace u) (rev (dropWhile (py_isspace u) s)))"

definition py_digit :: "py_text \<Rightarrow> nat \<Rightarrow> nat option" where
  "py_digit u c = (if c < 128 then if 48 \<le> c \<and> c \<le> 57 then Some (c - 48) else None else u_decimal u c)"

text \<open>\<^verbatim>\<open>int(s)\<close> of a stripped string: a sign, then digits with single underscores between them.
  \<open>prev\<close> tells whether a digit came just before; the result is the value and the number of
  digits.\<close>

fun int_digits :: "py_text \<Rightarrow> bool \<Rightarrow> nat \<Rightarrow> nat \<Rightarrow> nat list \<Rightarrow> (nat \<times> nat) option" where
  "int_digits u prev v n [] = (if prev then Some (v, n) else None)"
| "int_digits u prev v n (c # cs) =
     (if c = 95 then if prev then int_digits u False v n cs else None
      else case py_digit u c of None \<Rightarrow> None | Some k \<Rightarrow> int_digits u True (10 * v + k) (Suc n) cs)"

definition py_int :: "py_text \<Rightarrow> nat list \<Rightarrow> py_exn + int" where
  "py_int u s =
     (let neg = (s \<noteq> [] \<and> hd s = 45);
          ds = (if s \<noteq> [] \<and> (hd s = 45 \<or> hd s = 43) then tl s else s)
      in case int_digits u False 0 0 ds of None \<Rightarrow> Inl ValueError
         | Some (v, n) \<Rightarrow>
             if int_max_str_digits u \<noteq> 0 \<and> int_max_str_digits u < n then Inl ValueError
             else Inr (if neg then - int v else int v))"

section \<open>get_port.py\<close>

abbreviation (input) DEFAULT_PORT :: nat where "DEFAULT_PORT \<equiv> 1357"

text \<open>\<open>file\<close> is what opening and reading the file gives: an exception, or the decoded text.\<close>

definition get_server_port :: "py_text \<Rightarrow> py_exn + nat list \<Rightarrow> nat \<times> string list" where
  "get_server_port u file =
     (case file of
        Inl FileNotFoundError \<Rightarrow> (DEFAULT_PORT, [''Warning: myport.info.txt not found.''])
      | Inl _ \<Rightarrow> (DEFAULT_PORT, [''Warning: error reading myport.info.txt.''])
      | Inr text \<Rightarrow>
          let lines = readlines (universal_newlines text) in
          if length lines \<noteq> 1 then (DEFAULT_PORT, [''Warning: myport.info.txt contains more than 1 line.''])
          else let line = strip u (lines ! 0) in
            (case py_int u line of
               Inl _ \<Rightarrow> (DEFAULT_PORT, [''Warning: error reading myport.info.txt.''])
             | Inr port \<Rightarrow>
                 if 0 < port \<and> port < 2 ^ 16 then (nat port, [])
                 else (DEFAULT_PORT, [''Warning: invalid port in myport.info.txt.''])))"

section \<open>What is accepted\<close>

lemma get_server_port_range: "1 \<le> fst (get_server_port u file) \<and> fst (get_server_port u file) < 2 ^ 16"
  by (auto simp: get_server_port_def Let_def split: sum.splits py_exn.splits if_splits)

text \<open>The decimal digits of a number, as code points.\<close>

definition digits_of :: "nat \<Rightarrow> nat list" where
  "digits_of n = map unat (show_dec n)"

lemma int_digits_append:
  "\<forall>c\<in>set ds. c < 128 \<and> 48 \<le> c \<and> c \<le> 57 \<Longrightarrow> ds \<noteq> [] \<Longrightarrow>
   int_digits u p v n (ds @ es) = int_digits u True (foldl (\<lambda>v c. 10 * v + (c - 48)) v ds) (n + length ds) es"
proof (induction ds arbitrary: p v n)
  case (Cons c ds)
  then show ?case
    by (cases ds) (auto simp: py_digit_def)
qed simp

lemma unat_digit: "k < 10 \<Longrightarrow> unat (of_nat (48 + k) :: byte) = 48 + k"
  by (simp only: unat_of_nat) simp

lemma digits_of_rec:
  "digits_of n = (if n < 10 then [48 + n] else digits_of (n div 10) @ [48 + n mod 10])"
proof -
  have "n mod 10 < 10" by simp
  then show ?thesis
    unfolding digits_of_def show_dec.simps [of n] by (cases "n < 10") (simp_all only: if_True if_False list.map map_append unat_digit)
qed

lemma digits_of_props:
  "digits_of n \<noteq> [] \<and> (\<forall>c\<in>set (digits_of n). 48 \<le> c \<and> c \<le> 57)
   \<and> foldl (\<lambda>v c. 10 * v + (c - 48)) 0 (digits_of n) = n"
proof (induction n rule: less_induct)
  case (less n)
  show ?case
  proof (cases "n < 10")
    case True
    then show ?thesis by (simp add: digits_of_rec [of n])
  next
    case False
    then have IH: "digits_of (n div 10) \<noteq> [] \<and> (\<forall>c\<in>set (digits_of (n div 10)). 48 \<le> c \<and> c \<le> 57)
       \<and> foldl (\<lambda>v c. 10 * v + (c - 48)) 0 (digits_of (n div 10)) = n div 10"
      by (intro less) simp
    have "n mod 10 \<le> 9" using mod_less_divisor [of 10 n] by linarith
    with IH False show ?thesis by (auto simp: digits_of_rec [of n])
  qed
qed

lemma length_digits_of: "n < 10 ^ k \<Longrightarrow> 0 < k \<Longrightarrow> length (digits_of n) \<le> k"
proof (induction k arbitrary: n)
  case (Suc k)
  show ?case
  proof (cases "n < 10")
    case False
    then have "0 < k" using Suc.prems(1) by (cases k) auto
    moreover have "n div 10 < 10 ^ k" using Suc.prems(1) by (simp add: less_mult_imp_div_less)
    ultimately show ?thesis using Suc.IH False by (subst digits_of_rec) simp
  qed (simp add: digits_of_rec [of n])
qed simp

lemma one_line:
  "\<forall>c\<in>set l. c \<noteq> 10 \<Longrightarrow> l \<noteq> [] \<Longrightarrow> readlines l = [l]"
  "\<forall>c\<in>set l. c \<noteq> 10 \<Longrightarrow> readlines (l @ [10]) = [l @ [10]]"
proof (induction l)
  case (Cons c l)
  { case 1 with Cons show ?case by (cases "l = []") simp_all }
  { case 2 with Cons show ?case by simp }
qed simp_all

lemma universal_newlines_id: "\<forall>c\<in>set l. c \<noteq> 13 \<Longrightarrow> universal_newlines l = l"
  by (induction l rule: universal_newlines.induct) auto

lemma strip_id:
  assumes "l \<noteq> []" and "\<forall>c\<in>set l. \<not> py_isspace u c" and "\<forall>c\<in>set b. py_isspace u c"
  shows "strip u (l @ b) = l"
proof -
  have id: "dropWhile (py_isspace u) xs = xs" if "\<forall>c\<in>set xs. \<not> py_isspace u c" for xs
    using that by (cases xs) auto
  have "dropWhile (py_isspace u) (l @ b) = l @ b"
    using assms(1,2) by (cases l) auto
  moreover have "dropWhile (py_isspace u) (rev b @ rev l) = rev l"
    using assms(2,3) id [of "rev l"] by (simp add: dropWhile_append)
  ultimately show ?thesis by (simp add: strip_def)
qed

lemma get_server_port_decimal:
  assumes "0 < p" "p < 2 ^ 16" and "int_max_str_digits u = 0 \<or> 5 \<le> int_max_str_digits u"
    and "text = digits_of p \<or> text = digits_of p @ [10] \<or> text = digits_of p @ [13, 10]"
  shows "get_server_port u (Inr text) = (p, [])"
proof -
  note d = digits_of_props [of p]
  have dig: "\<forall>c\<in>set (digits_of p). c < 128 \<and> 48 \<le> c \<and> c \<le> 57 \<and> c \<noteq> 10 \<and> c \<noteq> 13"
    using d by force
  have "length (digits_of p) \<le> 5"
    by (rule length_digits_of) (use assms(2) in simp_all)
  have nospace: "\<forall>c\<in>set (digits_of p). \<not> py_isspace u c"
    using dig by (force simp: py_isspace_def)
  have lines: "\<exists>b. readlines (universal_newlines text) = [digits_of p @ b] \<and> (\<forall>c\<in>set b. py_isspace u c)"
  proof -
    have crlf: "universal_newlines (l @ [13, 10]) = l @ [10]" if "\<forall>c\<in>set l. c \<noteq> (13 :: nat)" for l
      using that by (induction l rule: universal_newlines.induct) auto
    have sp: "py_isspace u 10" by (simp add: py_isspace_def)
    have n10: "\<forall>c\<in>set (digits_of p). c \<noteq> 10" and n13: "\<forall>c\<in>set (digits_of p). c \<noteq> 13"
      using dig by auto
    from assms(4) consider "text = digits_of p" | "text = digits_of p @ [10]" | "text = digits_of p @ [13, 10]" by blast
    then show ?thesis
    proof cases
      case 1
      have "readlines (universal_newlines text) = [digits_of p @ []]"
        using d n10 n13 by (simp add: 1 universal_newlines_id one_line)
      then show ?thesis by (intro exI [of _ "[]"]) simp
    next
      case 2
      have "readlines (universal_newlines text) = [digits_of p @ [10]]"
        using n10 n13 by (simp add: 2 universal_newlines_id one_line)
      then show ?thesis using sp by (intro exI [of _ "[10]"]) simp
    next
      case 3
      have "readlines (universal_newlines text) = [digits_of p @ [10]]"
        using n10 n13 by (simp add: 3 crlf one_line)
      then show ?thesis using sp by (intro exI [of _ "[10]"]) simp
    qed
  qed
  then obtain b where b: "readlines (universal_newlines text) = [digits_of p @ b]" "\<forall>c\<in>set b. py_isspace u c" by blast
  have line: "strip u (digits_of p @ b) = digits_of p"
    by (rule strip_id) (use d nospace b in simp_all)
  have "int_digits u False 0 0 (digits_of p) = Some (p, length (digits_of p))"
    using int_digits_append [of "digits_of p" u False 0 0 "[]"] d dig by simp
  moreover have "hd (digits_of p) \<noteq> 45" "hd (digits_of p) \<noteq> 43"
    using d hd_in_set [of "digits_of p"] by fastforce+
  ultimately have "py_int u (digits_of p) = Inr (int p)"
    using assms(3) \<open>length (digits_of p) \<le> 5\<close> d by (auto simp: py_int_def Let_def)
  then show ?thesis
    using assms(1,2) by (simp add: get_server_port_def b(1) line Let_def)
qed

end
