(* ===== verification/Server_Properties.thy ===== *)
theory Server_Properties
  imports Sample Server_Port
begin

text \<open>
  The properties of the server alone: what the request handlers do to the tables, which
  response every request gets, and how a connection is served. Each stands after its claim
  and, where it has hypotheses, before its instance at the sample tables.
\<close>

section \<open>Requests\<close>

text \<open>A request, whatever its bytes and whichever SQL statements fail, leaves the tables
  well-formed: ids and names unique, lengths and characters within the protocol, message ids
  ascending and below the counter, and every message between two clients of the table.\<close>

lemma request_keeps_tables:
  assumes "db_ok d" and "env_ok e" and "request_handler_main e q d = (r, d')"
  shows "db_ok d'"
  using assms by (rule db_ok_request)

lemma request_keeps_tables_witness:
  "db_ok (snd (request_handler_main sample_env (request_bytes alice 703 (send_payload bob 3 [1, 2])) sample_db))"
  by (rule request_keeps_tables [OF db_ok_sample sample_env_facts(1) prod.collapse [symmetric]])

text \<open>No request makes the dispatcher raise, and what it returns is always a well-formed
  response.\<close>

lemma every_request_answered:
  "\<exists>r d'. request_handler_main e q d = (Inr r, d') \<and> response_ok r"
  using response_ok_request [of e q d] by blast

text \<open>A fetch takes the messages that wait for its sender.\<close>

lemma left_after_fetch:
  assumes "ids_ok d"
  shows "messages (drop_rows (map fst (fetch_rows d me)) (touched t me d)) = filter (\<lambda>m. m_to m \<noteq> me) (messages d)"
proof -
  have "m_id m \<in> fst ` set (fetch_rows d me) \<longleftrightarrow> m_to m = me" if m: "m \<in> set (messages d)" for m
  proof
    assume "m_id m \<in> fst ` set (fetch_rows d me)"
    then obtain n where "n \<in> set (messages d)" "m_to n = me" "m_id n = m_id m" by (auto simp: fetch_rows_alt [OF assms])
    with m_id_inj [OF assms m] show "m_to m = me" by metis
  qed (use m in \<open>force simp: fetch_rows_alt [OF assms]\<close>)
  then show ?thesis unfolding drop_rows_alt by (simp add: touched_keeps cong: filter_cong)
qed

text \<open>C32: a fetch returns exactly the messages that wait for the requester, each with its id, sender, type
  and content, in ascending order of their ids, and leaves exactly the messages to the others in the
  table, unchanged and in their order. \<open>waiting_for\<close> says which list that is without the code's query;
  the ids and the response fit their 32-bit fields, and the fetched ids one DELETE statement.\<close>

lemma fetch_delivers_and_deletes:
  assumes "db_ok d" and "seq d < 2 ^ 32" and "db_ready e" and "me \<in> c_id ` set (clients d)"
    and "waiting_for d me rows" and "length (concat (map encode_row rows)) < 2 ^ 32" and "length rows \<le> max_vars e"
  shows "\<exists>d'. request_handler_main e (request_bytes me 704 []) d = (Inr (response_bytes 2104 (concat (map encode_row rows))), d')
    \<and> messages d' = filter (\<lambda>m. m_to m \<noteq> me) (messages d)"
proof -
  have rows: "rows = fetch_rows d me" using assms(5) waiting_for_iff [OF db_ok_ids_ok [OF assms(1)]] by blast
  have len: "length me = 16" using assms(4) db_okD(3) [OF assms(1)] by (auto simp: client_row_ok_def)
  have "fits (fetch_rows d me)"
    using assms(6) row_ok_fetched [OF assms(1,2)] by (simp add: fits_def rows)
  from waiting_run [OF len assms(3,4) this] assms(7) left_after_fetch [OF db_ok_ids_ok [OF assms(1)]] show ?thesis
    by (simp add: rows)
qed

text \<open>Two messages to Bob with one to Alice between them.\<close>

definition post_db :: db where
  "post_db = sample_db\<lparr>messages := [\<lparr>m_id = 7, m_to = bob, m_from = alice, m_type = 3, m_content = [1]\<rparr>,
     \<lparr>m_id = 8, m_to = alice, m_from = bob, m_type = 1, m_content = []\<rparr>,
     \<lparr>m_id = 9, m_to = bob, m_from = alice, m_type = 3, m_content = [2, 5]\<rparr>], seq := 9\<rparr>"

lemma fetch_delivers_and_deletes_witness:
  "\<exists>d'. request_handler_main sample_env (request_bytes bob 704 []) post_db =
       (Inr (response_bytes 2104 (encode_row (7, alice, 3, [1]) @ encode_row (9, alice, 3, [2, 5]))), d')
     \<and> messages d' = [\<lparr>m_id = 8, m_to = alice, m_from = bob, m_type = 1, m_content = []\<rparr>]"
proof -
  have ok: "db_ok post_db"
    using db_ok_sample by (simp add: post_db_def db_ok_def message_row_ok_def sample_clients)
  have ne: "alice \<noteq> bob" by (simp add: alice_def bob_def)
  have rows: "waiting_for post_db bob [(7, alice, 3, [1]), (9, alice, 3, [2, 5])]"
    using ne by (simp add: waiting_for_iff [OF db_ok_ids_ok [OF ok]]) (simp add: fetch_rows_def post_db_def)
  have bob: "bob \<in> c_id ` set (clients post_db)" by (simp add: post_db_def sample_clients)
  have "\<exists>d'. request_handler_main sample_env (request_bytes bob 704 []) post_db =
       (Inr (response_bytes 2104 (concat (map encode_row [(7, alice, 3, [1]), (9, alice, 3, [2, 5])]))), d')
     \<and> messages d' = filter (\<lambda>m. m_to m \<noteq> bob) (messages post_db)"
    by (rule fetch_delivers_and_deletes [OF ok _ sample_env_facts(2) bob rows])
       (simp_all add: post_db_def length_encode_row sample_env_facts sample_clients)
  then show ?thesis using ne by (simp add: post_db_def)
qed

text \<open>A message another thread stores between the SELECT and the DELETE of its recipient's
  fetch is not deleted with the fetched ones.\<close>

lemma message_between_survives:
  assumes "ids_ok d" and "get_waiting_messages True t d = Inr rows" and "add_message True t f ty c d = (Inr i, d1)"
    and "delete_messages True mv (map fst rows) d1 = (Inr (), d2)"
  shows "get_waiting_messages True t d2 = Inr [(i, f, ty, c)]"
proof -
  have rows: "rows = fetch_rows d t" using assms(2) by (simp add: get_waiting_messages_fetch)
  have i: "i = fst (store_row t f ty c d)" and d1: "d1 = snd (store_row t f ty c d)"
    using assms(3) by (auto simp: add_message_def store_row_def split: if_splits)
  have "d2 = drop_rows (map fst rows) d1"
    using assms(4) by (auto simp: delete_messages_def drop_rows_def split: if_splits)
  with ms.add_between [OF assms(1) ids_ok_store [OF assms(1)], of t f ty c] show ?thesis
    by (simp add: get_waiting_messages_fetch rows i d1)
qed

lemma message_between_survives_witness:
  "get_waiting_messages True bob (sample_db\<lparr>messages := [\<lparr>m_id = 7, m_to = bob, m_from = alice, m_type = 3, m_content = [1]\<rparr>], seq := 7\<rparr>)
     = Inr [(7, alice, 3, [1])]"
  by (rule message_between_survives [of sample_db bob "[]" alice 3 "[1]" 7 _ 0])
     (simp_all add: db_ok_ids_ok db_ok_sample get_waiting_messages_def add_message_def delete_messages_def sample_clients)

text \<open>An accepted message is confirmed with the recipient's id and the next message id, is
  appended to the recipient's waiting messages, and changes nobody else's.\<close>

lemma send_stores_one:
  assumes "db_ok d" and "db_ready e" and "me \<in> c_id ` set (clients d)" and "t \<in> c_id ` set (clients d)"
    and "ty \<in> {1, 2, 3}" and "ty = 1 \<longrightarrow> c = []" and "21 + length c < 2 ^ 32" and "Suc (seq d) < 2 ^ 32"
  shows "\<exists>d'. request_handler_main e (request_bytes me 703 (send_payload t ty c)) d =
      (Inr (response_bytes 2103 (t @ le_bytes 4 (Suc (seq d)))), d')
    \<and> fetch_rows d' t = fetch_rows d t @ [(Suc (seq d), me, unat ty, c)]
    \<and> (\<forall>r. r \<noteq> t \<longrightarrow> fetch_rows d' r = fetch_rows d r)"
proof -
  have len: "length me = 16" "length t = 16"
    using assms(3,4) db_okD(3) [OF assms(1)] by (auto simp: client_row_ok_def)
  have "ids_ok (touched (now e) me d)" using db_ok_ids_ok [OF db_ok_touched [OF assms(1)]] .
  from fetch_after_store [OF this, of t me "unat ty" c] send_run [OF len(1) assms(2,3) len(2) assms(4-8)]
  show ?thesis by (auto simp: fetch_rows_touched touched_keeps)
qed

lemma send_stores_one_witness:
  "\<exists>d'. request_handler_main sample_env (request_bytes alice 703 (send_payload bob 3 [5])) sample_db =
      (Inr (response_bytes 2103 (bob @ le_bytes 4 7)), d') \<and> fetch_rows d' bob = [(7, alice, 3, [5])]"
  using send_stores_one [OF db_ok_sample sample_env_facts(2), of alice bob 3 "[5]"]
  by (auto simp: sample_fetch sample_clients)

text \<open>A request other than a registration, from an id that is not in the table, gets the
  general error and changes nothing.\<close>

lemma unknown_requester_refused:
  assumes "length cid = 16" and "length p < 2 ^ 32" and "code < 2 ^ 16" and "code \<noteq> 700"
    and "cid \<notin> c_id ` set (clients d)"
  shows "request_handler_main e (request_bytes cid code p) d = (Inr error_bytes, d)"
  using assms by (simp add: request_main dispatch_def request_bytes_fields client_exists_ok)

lemma unknown_requester_refused_witness:
  "request_handler_main sample_env (request_bytes (replicate 16 3) 704 []) sample_db = (Inr error_bytes, sample_db)"
  by (rule unknown_requester_refused) (simp_all add: sample_clients alice_def bob_def)

text \<open>When SQLite carries out no statement, every request gets the general error and the
  tables are untouched.\<close>

lemma failing_database_changes_nothing:
  assumes "\<forall>i. \<not> stmt_ok e i"
  shows "request_handler_main e q d = (Inr error_bytes, d)"
proof -
  have "register_handler e q d = (Inr error_bytes, d)"
    using assms by (auto simp: register_handler_def add_client_def Let_def split: sum.split)
  then have "dispatch e code q d = (Inr error_bytes, d) \<or> dispatch e code q d = (Inl OperationalError, d)" for code
    using assms by (simp add: dispatch_def client_exists_ok)
  note out = this [of "from_bytes (bslice 17 2 q)"]
  show ?thesis unfolding request_alt using out by auto
qed

lemma failing_database_changes_nothing_witness:
  "request_handler_main (sample_env\<lparr>stmt_ok := (\<lambda>i. False)\<rparr>) (request_bytes alice 701 []) sample_db = (Inr error_bytes, sample_db)"
  by (rule failing_database_changes_nothing) simp

text \<open>A registration under a name that is taken gets the general error and changes
  nothing.\<close>

lemma taken_name_refused:
  assumes "length cid = 16" and "name_ok nm" and "length pk = 160" and "stmt_ok e 0" and "nm \<in> c_name ` set (clients d)"
  shows "request_handler_main e (request_bytes cid 700 (padded_name nm @ pk)) d = (Inr error_bytes, d)"
  using assms by (rule register_taken)

lemma taken_name_refused_witness:
  "request_handler_main sample_env (request_bytes (replicate 16 0) 700 (padded_name bob_name @ alice_pub)) sample_db
     = (Inr error_bytes, sample_db)"
  by (rule taken_name_refused) (simp_all add: sample_env_facts sample_clients name_ok_def bob_name_def lit_Cons)

text \<open>Message ids are never reused: every message in the tables after a request was there
  before it or has the one new id above the counter, and the counter never goes back.\<close>

lemma message_ids_fresh:
  "seq d \<le> seq (snd (request_handler_main e q d))
   \<and> set (messages (snd (request_handler_main e q d))) \<subseteq>
       set (messages d) \<union> {m. m_id m = Suc (seq d) \<and> m_id m = seq (snd (request_handler_main e q d))}"
proof -
  let ?P = "\<lambda>d'. seq d \<le> seq d' \<and> set (messages d') \<subseteq> set (messages d) \<union> {m. m_id m = Suc (seq d) \<and> m_id m = seq d'}"
  have same: "?P d'" if "messages d' = messages d" "seq d' = seq d" for d' using that by simp
  have reg: "?P (snd (register_handler e q d))"
    by (rule same) (auto simp: register_handler_def add_client_def Let_def split: sum.split)
  let ?code = "from_bytes (bslice 17 2 q)"
  have disp: "?P (snd (dispatch e ?code q d))"
  proof -
    obtain u v where u: "update_client_last_seen (stmt_ok e 1) (take 16 q) (now e) d = (u, v)" by fastforce
    note v = update_last_seen_keeps(1,2) [OF u]
    have lists: "?P (snd (clients_list_handler e q v))" "?P (snd (public_key_handler e q v))"
      using reads_only(1) [OF prod.collapse [symmetric], of e q v] reads_only(2) [OF prod.collapse [symmetric], of e q v] v
      by simp_all
    have wait: "?P (snd (waiting_messages_handler e q v))"
      using v by (auto simp: waiting_messages_handler_def delete_messages_def Let_def split: sum.split)
    have send: "?P (snd (send_message_handler e q v))"
      using v by (auto simp: send_message_alt add_message_def split: sum.split)
    show ?thesis
      using same [OF refl refl] reg lists wait send v u
      unfolding dispatch_def Let_def client_exists_ok by (auto split: sum.split)
  qed
  show ?thesis
    using disp same [OF refl refl] unfolding request_alt
    by (cases "dispatch e ?code q d") (auto split: sum.split)
qed

section \<open>Connections\<close>

text \<open>C33: however the network cuts the stream of a client into pieces, its thread answers the
  requests in it one after the other, in order, up to the first response that cannot be sent,
  and ignores a request that is cut off.\<close>

lemma connection_serves_in_order:
  assumes "[] \<notin> set (incoming s)" and "concat (incoming s) = concat qs @ rest"
    and "\<forall>q\<in>set qs. whole_request q" and "cut_request rest"
  shows "\<exists>s'. handle_client es n s d = (fst (serve es n qs d), s', snd (serve es n qs d))"
  using assms by (rule handle_client_serve)

lemma connection_serves_in_order_witness:
  "\<exists>s'. handle_client (\<lambda>n. (sample_env, True)) 0 \<lparr>incoming = [take 5 (request_bytes bob 704 []), drop 5 (request_bytes bob 704 []) @ [1]],
       at_end = None\<rparr> sample_db
     = (fst (serve (\<lambda>n. (sample_env, True)) 0 [request_bytes bob 704 []] sample_db), s',
        snd (serve (\<lambda>n. (sample_env, True)) 0 [request_bytes bob 704 []] sample_db))"
proof -
  have len: "length (request_bytes bob 704 []) = 23" by (simp add: request_bytes_fields)
  show ?thesis
  proof (rule connection_serves_in_order [where rest = "[1]"])
    show "[] \<notin> set (incoming \<lparr>incoming = [take 5 (request_bytes bob 704 []), drop 5 (request_bytes bob 704 []) @ [1]],
       at_end = None\<rparr>)"
      using len by auto
    show "\<forall>q\<in>set [request_bytes bob 704 []]. whole_request q"
      by (simp add: whole_request_bytes)
  qed (simp_all add: cut_request_def)
qed

text \<open>\<^verbatim>\<open>receive_exact\<close> returns the next \<open>sz\<close> bytes of the stream and leaves the rest, whatever
  the pieces, and raises when the stream has fewer.\<close>

lemma receive_exact_reads_stream:
  assumes "[] \<notin> set (incoming s)"
  shows "if sz \<le> length (concat (incoming s))
         then \<exists>s'. receive_exact sz s = (Inr (take sz (concat (incoming s))), s')
                 \<and> concat (incoming s') = drop sz (concat (incoming s))
         else \<exists>e s'. receive_exact sz s = (Inl e, s')"
proof (cases "sz \<le> length (concat (incoming s))")
  case True
  obtain s' where "receive_exact sz s = (Inr (take sz (concat (incoming s))), s')"
    "concat (incoming s') = drop sz (concat (incoming s))"
    by (rule receive_exact_enough [OF assms True])
  with True show ?thesis by auto
next
  case False
  then show ?thesis using receive_exact_short [of s sz] by auto
qed

lemma receive_exact_reads_stream_witness:
  "\<exists>s'. receive_exact 3 \<lparr>incoming = [[1, 2], [3, 4]], at_end = None\<rparr> = (Inr [1, 2, 3], s')"
  using receive_exact_reads_stream [of "\<lparr>incoming = [[1, 2], [3, 4]], at_end = None\<rparr>" 3] by auto

section \<open>The port\<close>

text \<open>C34: whatever \<^verbatim>\<open>myport.info.txt\<close> holds, or if it cannot be read, the server gets a valid
  TCP port.\<close>

lemma port_always_valid:
  "1 \<le> fst (get_server_port u file) \<and> fst (get_server_port u file) < 2 ^ 16"
  by (rule get_server_port_range)

text \<open>A file with one port in decimal, with or without an end of line of either kind, gives
  that port and no warning.\<close>

lemma port_decimal:
  assumes "0 < p" "p < 2 ^ 16" and "int_max_str_digits u = 0 \<or> 5 \<le> int_max_str_digits u"
    and "content = digits_of p \<or> content = digits_of p @ [10] \<or> content = digits_of p @ [13, 10]"
  shows "get_server_port u (Inr content) = (p, [])"
  using assms by (rule get_server_port_decimal)

lemma port_decimal_witness:
  "get_server_port \<lparr>u_space = (\<lambda>c. False), u_decimal = (\<lambda>c. None), int_max_str_digits = 4300\<rparr> (Inr (digits_of 8080 @ [10])) = (8080, [])"
  by (rule port_decimal) simp_all

end
