(* ===== verification/Server_Tables.thy ===== *)
theory Server_Tables
  imports Server_Db
begin

text \<open>
  The tables of \<^verbatim>\<open>database.py\<close> as SQLite objects that may be missing: their creation when a
  connection is opened, and the debug functions, which nothing calls. \<open>Server_Db\<close> describes the
  file once both tables exist, which every connection sees to before its first request.
\<close>

record tables =
  clients_table :: "client_row list option"
  messages_table :: "message_row list option"
  sequence :: nat

definition new_file :: tables where
  "new_file = \<lparr>clients_table = None, messages_table = None, sequence = 0\<rparr>"

definition tables_of :: "db \<Rightarrow> tables" where
  "tables_of d = \<lparr>clients_table = Some (clients d), messages_table = Some (messages d), sequence = seq d\<rparr>"

text \<open>\<^verbatim>\<open>CREATE TABLE IF NOT EXISTS\<close>, twice; the constructor runs it on every connection.\<close>

definition create_tables :: "tables \<Rightarrow> tables" where
  "create_tables t = t\<lparr>clients_table := Some (case clients_table t of None \<Rightarrow> [] | Some rows \<Rightarrow> rows),
     messages_table := Some (case messages_table t of None \<Rightarrow> [] | Some rows \<Rightarrow> rows)\<rparr>"

text \<open>\<^verbatim>\<open>DROP TABLE IF EXISTS\<close>; with the messages goes their row of \<^verbatim>\<open>sqlite_sequence\<close>.\<close>

definition drop_tables :: "tables \<Rightarrow> tables" where
  "drop_tables t =
     (let t = (if messages_table t = None then t else t\<lparr>messages_table := None, sequence := 0\<rparr>)
      in t\<lparr>clients_table := None\<rparr>)"

text \<open>What \<^verbatim>\<open>print_db\<close> prints: texts and rows. A missing table raises.\<close>

datatype printed = Text string | Printed_client client_row | Printed_message message_row

definition print_db :: "tables \<Rightarrow> printed list \<times> (py_exn + unit)" where
  "print_db t =
     (case clients_table t of
        None \<Rightarrow> ([Text ''=== CLIENTS ===''], Inl OperationalError)
      | Some cs \<Rightarrow>
          let out = Text ''=== CLIENTS ==='' # map Printed_client cs @ [Text (CHR 0x0A # ''=== MESSAGES ==='')] in
          (case messages_table t of
             None \<Rightarrow> (out, Inl OperationalError)
           | Some ms \<Rightarrow> (out @ map Printed_message ms, Inr ())))"

text \<open>A connection opens a new file with empty tables, and leaves existing ones as they are; after
  \<^verbatim>\<open>drop_tables\<close> the next connection starts afresh, with message ids from 1 again.\<close>

lemma create_on_existing: "create_tables (tables_of d) = tables_of d"
  by (simp add: create_tables_def tables_of_def)

lemma create_on_new: "create_tables new_file = tables_of empty_db"
  by (simp add: create_tables_def tables_of_def new_file_def empty_db_def)

lemma create_after_drop: "create_tables (drop_tables (create_tables t)) = tables_of empty_db"
  by (simp add: create_tables_def drop_tables_def tables_of_def empty_db_def Let_def)

lemma print_existing:
  "print_db (tables_of d) =
     (Text ''=== CLIENTS ==='' # map Printed_client (clients d) @ Text (CHR 0x0A # ''=== MESSAGES ==='') # map Printed_message (messages d), Inr ())"
  by (simp add: print_db_def tables_of_def Let_def)

end
