(* ===== verification/Server_Sql.thy ===== *)
theory Server_Sql
  imports Server_Requests
begin

text \<open>
  The server's threads at the level of SQL statements. Every thread has a connection of its own
  (\<^verbatim>\<open>database.Database()\<close> in \<^verbatim>\<open>main.py\<close>), and \<^verbatim>\<open>sqlite3\<close> opens a transaction before an INSERT, UPDATE or
  DELETE that only \<^verbatim>\<open>commit\<close> or \<^verbatim>\<open>close\<close> ends. The file is in WAL mode: a SELECT never waits, and one
  transaction writes at a time.

  A request handler is a program \<open>'a prog\<close>: it ends with a value, reads the tables its
  connection sees, runs a writing statement, or commits. The programs of this theory are the
  methods of \<^verbatim>\<open>database.py\<close> and the handlers of \<^verbatim>\<open>request_handler.py\<close>, with the statements of
  \<open>Server_Db\<close> and the checks and payloads of \<open>Server_Requests\<close>.
\<close>

section \<open>Connections\<close>

text \<open>
  What a connection's transaction is: none; begun by a statement that could not get the write
  lock; a transaction that has read, and from then on sees the tables as they were, with the
  number of commits there had been; or one that holds the write lock, with the tables as it
  has changed them.
\<close>

datatype conn = Auto | Begun | Reading db nat | Writing db

fun is_writing :: "conn \<Rightarrow> bool" where
  "is_writing (Writing d) = True"
| "is_writing c = False"

record store =
  committed :: db
  version :: nat

definition view :: "store \<Rightarrow> conn \<Rightarrow> db" where
  "view s c = (case c of Auto \<Rightarrow> committed s | Begun \<Rightarrow> committed s | Reading d n \<Rightarrow> d | Writing d \<Rightarrow> d)"

text \<open>After a SELECT: a transaction that was begun keeps what it has seen.\<close>

definition after_read :: "store \<Rightarrow> conn \<Rightarrow> conn" where
  "after_read s c = (case c of Begun \<Rightarrow> Reading (committed s) (version s) | _ \<Rightarrow> c)"

text \<open>
  The tables a writing statement works on, or \<open>None\<close> when SQLite reports that the database is
  locked: another connection holds the lock past the timeout of two seconds, or the
  transaction has read tables that were changed since.
\<close>

definition write_on :: "bool \<Rightarrow> store \<Rightarrow> conn \<Rightarrow> db option" where
  "write_on busy s c =
     (case c of
        Auto \<Rightarrow> if busy then None else Some (committed s)
      | Begun \<Rightarrow> if busy then None else Some (committed s)
      | Reading d n \<Rightarrow> if busy \<or> n \<noteq> version s then None else Some d
      | Writing d \<Rightarrow> Some d)"

definition begun :: "conn \<Rightarrow> conn" where
  "begun c = (case c of Auto \<Rightarrow> Begun | _ \<Rightarrow> c)"

text \<open>
  A statement that SQLite began to carry out: a violated constraint undoes the statement and
  leaves the transaction open, an exhausted table ends the transaction.
\<close>

definition after_write :: "py_exn + nat \<Rightarrow> db \<Rightarrow> conn" where
  "after_write r d = (if r = Inl OperationalError then Auto else Writing d)"

definition commit :: "store \<Rightarrow> conn \<Rightarrow> store" where
  "commit s c =
     (case c of
        Writing d \<Rightarrow> \<lparr>committed = d, version = (if d = committed s then version s else Suc (version s))\<rparr>
      | _ \<Rightarrow> s)"

section \<open>Programs\<close>

datatype 'a prog =
    Return 'a
  | Read "db \<Rightarrow> 'a prog"
  | Write "db \<Rightarrow> (py_exn + nat) \<times> db" "py_exn + nat \<Rightarrow> 'a prog"
  | Commit "'a prog"

text \<open>One statement of a program, on a connection and the database file.\<close>

fun prog_step :: "bool \<Rightarrow> 'a prog \<Rightarrow> store \<Rightarrow> conn \<Rightarrow> ('a prog \<times> store \<times> conn) option" where
  "prog_step busy (Return r) s c = None"
| "prog_step busy (Read k) s c = Some (k (view s c), s, after_read s c)"
| "prog_step busy (Write u k) s c =
     (case write_on busy s c of
        None \<Rightarrow> Some (k (Inl OperationalError), s, begun c)
      | Some d \<Rightarrow> (case u d of (r, d') \<Rightarrow> Some (k r, s, after_write r d')))"
| "prog_step busy (Commit p) s c = Some (p, commit s c, Auto)"

text \<open>All statements of a program, with no other thread in between.\<close>

primrec run_alone :: "'a prog \<Rightarrow> bool \<Rightarrow> store \<Rightarrow> conn \<Rightarrow> 'a \<times> store \<times> conn" where
  "run_alone (Return r) busy s c = (r, s, c)"
| "run_alone (Read k) busy s c = run_alone (k (view s c)) busy s (after_read s c)"
| "run_alone (Write u k) busy s c =
     (case write_on busy s c of
        None \<Rightarrow> run_alone (k (Inl OperationalError)) busy s (begun c)
      | Some d \<Rightarrow> run_alone (k (fst (u d))) busy s (after_write (fst (u d)) (snd (u d))))"
| "run_alone (Commit p) busy s c = run_alone p busy (commit s c) Auto"

text \<open>\<^verbatim>\<open>try\<close> and \<^verbatim>\<open>except\<close> on both outcomes of a program, and the sequence that an exception leaves.\<close>

primrec outcome :: "'a prog \<Rightarrow> ('a \<Rightarrow> 'b prog) \<Rightarrow> 'b prog" where
  "outcome (Return r) f = f r"
| "outcome (Read k) f = Read (\<lambda>d. outcome (k d) f)"
| "outcome (Write u k) f = Write u (\<lambda>r. outcome (k r) f)"
| "outcome (Commit p) f = Commit (outcome p f)"

definition andThen :: "(py_exn + 'a) prog \<Rightarrow> ('a \<Rightarrow> (py_exn + 'b) prog) \<Rightarrow> (py_exn + 'b) prog" where
  "andThen p f = outcome p (\<lambda>r. case r of Inl x \<Rightarrow> Return (Inl x) | Inr a \<Rightarrow> f a)"

section \<open>The methods of the database\<close>

definition write_commit :: "(db \<Rightarrow> (py_exn + nat) \<times> db) \<Rightarrow> (py_exn + nat) prog" where
  "write_commit u = Write u (\<lambda>r. case r of Inl x \<Rightarrow> Return (Inl x) | Inr i \<Rightarrow> Commit (Return (Inr i)))"

definition no_rowid :: "(py_exn + unit) \<times> db \<Rightarrow> (py_exn + nat) \<times> db" where
  "no_rowid r = (map_sum id (\<lambda>_. 0) (fst r), snd r)"

definition Db_add_client :: "bytes \<Rightarrow> bytes \<Rightarrow> bytes \<Rightarrow> string \<Rightarrow> (py_exn + nat) prog" where
  "Db_add_client cid nm pubKey t = write_commit (\<lambda>d. no_rowid (add_client True cid nm pubKey t d))"

definition Db_update_client_last_seen :: "bytes \<Rightarrow> string \<Rightarrow> (py_exn + nat) prog" where
  "Db_update_client_last_seen cid t = write_commit (\<lambda>d. no_rowid (update_client_last_seen True cid t d))"

definition Db_client_exists :: "bytes \<Rightarrow> (py_exn + bytes option) prog" where
  "Db_client_exists cid = Read (\<lambda>d. Return (client_exists True cid d))"

definition Db_list_clients_except :: "bytes \<Rightarrow> (py_exn + (bytes \<times> bytes) list) prog" where
  "Db_list_clients_except cid = Read (\<lambda>d. Return (list_clients_except True cid d))"

definition Db_get_public_key_by_id :: "bytes \<Rightarrow> (py_exn + bytes option) prog" where
  "Db_get_public_key_by_id cid = Read (\<lambda>d. Return (get_public_key_by_id True cid d))"

definition Db_add_message :: "bytes \<Rightarrow> bytes \<Rightarrow> nat \<Rightarrow> bytes \<Rightarrow> (py_exn + nat) prog" where
  "Db_add_message toClient fromClient message_type content =
     write_commit (add_message True toClient fromClient message_type content)"

definition Db_get_waiting_messages :: "bytes \<Rightarrow> (py_exn + waiting_row list) prog" where
  "Db_get_waiting_messages toClient = Read (\<lambda>d. Return (get_waiting_messages True toClient d))"

text \<open>A statement with too many variables is refused before a transaction is begun.\<close>

definition Db_delete_messages :: "nat \<Rightarrow> nat list \<Rightarrow> (py_exn + nat) prog" where
  "Db_delete_messages mv message_ids =
     (if message_ids = [] then Return (Inr 0)
      else if mv < length message_ids then Return (Inl OperationalError)
      else write_commit (\<lambda>d. no_rowid (delete_messages True mv message_ids d)))"

section \<open>The request handlers\<close>

text \<open>They take the clock, the token and the limit on variables from \<open>srv_env\<close>; which statements
  succeed is not taken from there but comes about in \<open>prog_step\<close>.\<close>

definition Register_handler :: "srv_env \<Rightarrow> bytes \<Rightarrow> (py_exn + bytes) prog" where
  "Register_handler e data =
     (if length data \<noteq> SRV_HEADER_SIZE + SRV_NAME_SIZE + SRV_PUBLIC_KEY_SIZE then Return build_error_response
      else let raw_name = bslice SRV_HEADER_SIZE SRV_NAME_SIZE data;
               pubKey = bslice (SRV_HEADER_SIZE + SRV_NAME_SIZE) SRV_PUBLIC_KEY_SIZE data;
               raw_name = takeWhile (\<lambda>c. c \<noteq> 0) raw_name
      in case decode_ascii raw_name of Inl _ \<Rightarrow> Return build_error_response | Inr nm \<Rightarrow>
         if nm = [] then Return build_error_response
         else outcome (Db_add_client (token e) nm pubKey (now e))
           (\<lambda>r. case r of Inl _ \<Rightarrow> Return build_error_response
                | Inr _ \<Rightarrow> Return (build_response SRV_RESPONSE_REGISTER (token e))))"

definition Clients_list_handler :: "bytes \<Rightarrow> (py_exn + bytes) prog" where
  "Clients_list_handler data =
     (if length data \<noteq> SRV_HEADER_SIZE then Return build_error_response
      else andThen (Db_list_clients_except (take SRV_CLIENT_ID_SIZE data))
        (\<lambda>rows. Return (build_response SRV_RESPONSE_CLIENT_LIST
                   (foldl (\<lambda>payload r. payload @ client_list_entry r) [] rows))))"

definition Public_key_handler :: "bytes \<Rightarrow> (py_exn + bytes) prog" where
  "Public_key_handler data =
     (if length data \<noteq> SRV_HEADER_SIZE + SRV_CLIENT_ID_SIZE then Return build_error_response
      else let requested_id = bslice SRV_HEADER_SIZE SRV_CLIENT_ID_SIZE data in
        andThen (Db_get_public_key_by_id requested_id)
          (\<lambda>pk. case pk of
             None \<Rightarrow> Return build_error_response
           | Some k \<Rightarrow> if length k \<noteq> SRV_PUBLIC_KEY_SIZE then Return build_error_response
                       else Return (build_response SRV_RESPONSE_PUBLIC_KEY (requested_id @ k))))"

definition Waiting_messages_handler :: "srv_env \<Rightarrow> bytes \<Rightarrow> (py_exn + bytes) prog" where
  "Waiting_messages_handler e data =
     (if length data \<noteq> SRV_HEADER_SIZE then Return build_error_response
      else andThen (Db_get_waiting_messages (take SRV_CLIENT_ID_SIZE data))
        (\<lambda>rows. case waiting_payload [] [] rows of Inl x \<Rightarrow> Return (Inl x) | Inr (payload, ids) \<Rightarrow>
           andThen (Db_delete_messages (max_vars e) ids)
             (\<lambda>_. Return (build_response SRV_RESPONSE_WAITING_MESSAGES payload))))"

definition Send_message_handler :: "bytes \<Rightarrow> (py_exn + bytes) prog" where
  "Send_message_handler data =
     (let min_len = SRV_HEADER_SIZE + SRV_CLIENT_ID_SIZE + SRV_MESSAGE_TYPE_SIZE + SRV_CONTENT_SIZE in
      if length data < min_len then Return build_error_response
      else let requester_id = take SRV_CLIENT_ID_SIZE data;
               requested_id = bslice SRV_HEADER_SIZE SRV_CLIENT_ID_SIZE data in
        andThen (Db_client_exists requested_id) (\<lambda>found.
        if found = None then Return build_error_response
        else let msg_type = unat (data ! (SRV_HEADER_SIZE + SRV_CLIENT_ID_SIZE)) in
        if msg_type \<notin> {SRV_SYMMETRIC_KEY_REQUEST, SRV_SYMMETRIC_KEY_SEND, SRV_TEXT_MESSAGE}
        then Return build_error_response
        else let content_size = from_bytes (bslice (SRV_HEADER_SIZE + SRV_CLIENT_ID_SIZE + SRV_MESSAGE_TYPE_SIZE)
                                              SRV_CONTENT_SIZE data) in
        if length data \<noteq> min_len + content_size then Return build_error_response
        else if msg_type = SRV_SYMMETRIC_KEY_REQUEST \<and> content_size \<noteq> 0 then Return build_error_response
        else let content = bslice min_len content_size data in
        andThen (Db_add_message requested_id requester_id msg_type content) (\<lambda>msg_id.
        case to_bytes SRV_MESSAGE_ID msg_id of Inl x \<Rightarrow> Return (Inl x) | Inr i \<Rightarrow>
        Return (build_response SRV_RESPONSE_MESSAGE_SENT (requested_id @ i)))))"

definition Dispatch :: "srv_env \<Rightarrow> nat \<Rightarrow> bytes \<Rightarrow> (py_exn + bytes) prog" where
  "Dispatch e code data =
     (if code = SRV_REQUEST_REGISTER then Register_handler e data
      else let requester_id = take SRV_CLIENT_ID_SIZE data in
        andThen (Db_client_exists requester_id) (\<lambda>found.
        if found = None then Return build_error_response
        else andThen (Db_update_client_last_seen requester_id (now e)) (\<lambda>_.
            if code = SRV_REQUEST_CLIENTS_LIST then Clients_list_handler data
            else if code = SRV_REQUEST_PUBLIC_KEY then Public_key_handler data
            else if code = SRV_REQUEST_WAITING_MESSAGES then Waiting_messages_handler e data
            else if code = SRV_REQUEST_SEND_MESSAGE then Send_message_handler data
            else Return build_error_response)))"

definition Request_handler_main :: "srv_env \<Rightarrow> bytes \<Rightarrow> (py_exn + bytes) prog" where
  "Request_handler_main e data =
     (if length data < SRV_HEADER_SIZE then Return build_error_response
      else let payload_size = from_bytes (bslice SRV_PAYLOAD_SIZE_OFFSET SRV_CONTENT_SIZE data) in
        if length data \<noteq> SRV_HEADER_SIZE + payload_size then Return build_error_response
        else if unat (data ! SRV_VERSION_OFFSET) \<noteq> SRV_CLIENT_VERSION then Return build_error_response
        else let code = from_bytes (bslice SRV_CODE_OFFSET SRV_CODE_SIZE data) in
        outcome (Dispatch e code data)
          (\<lambda>r. case r of Inl _ \<Rightarrow> Return build_error_response | Inr b \<Rightarrow> Return (Inr b)))"

end
