(* ===== verification/Server_Alone.thy ===== *)
theory Server_Alone
  imports Server_Sql Server_Lemmas
begin

text \<open>
  A request that no other thread interleaves: its statements, run one after the other on a
  connection that can write, give the response of \<open>request_handler_main\<close> and commit the tables
  it leaves. The programs are \<open>tidy\<close>: a statement that raises changes nothing, and one that
  succeeds is committed by the next statement.
\<close>

named_theorems prog_simps \<open>programs of the methods and handlers, put together\<close>

declare outcome.simps [prog_simps]

lemma andThen_simps [prog_simps]:
  "andThen (Return (Inl x)) f = Return (Inl x)"
  "andThen (Return (Inr a)) f = f a"
  "andThen (Read k) f = Read (\<lambda>d. andThen (k d) f)"
  "andThen (Write u k') f = Write u (\<lambda>r. andThen (k' r) f)"
  "andThen (Commit p) f = Commit (andThen p f)"
  by (simp_all add: andThen_def)

section \<open>Tidy programs\<close>

fun is_commit :: "'a prog \<Rightarrow> bool" where
  "is_commit (Commit p) = True"
| "is_commit _ = False"

fun committed_rest :: "'a prog \<Rightarrow> 'a prog" where
  "committed_rest (Commit p) = p"
| "committed_rest p = p"

primrec tidy :: "'a prog \<Rightarrow> bool" where
  "tidy (Return r) = True"
| "tidy (Read k) = (\<forall>d. tidy (k d))"
| "tidy (Write u k) = ((\<forall>d x. fst (u d) = Inl x \<longrightarrow> snd (u d) = d) \<and> (\<forall>i. is_commit (k (Inr i))) \<and> (\<forall>r. tidy (k r)))"
| "tidy (Commit p) = tidy p"

lemma is_commit_outcome: "is_commit p \<Longrightarrow> is_commit (outcome p f)"
  by (cases p) simp_all

lemma tidy_outcome: "tidy p \<Longrightarrow> (\<And>r. tidy (f r)) \<Longrightarrow> tidy (outcome p f)"
  by (induction p) (auto intro: is_commit_outcome)

lemma tidy_andThen: "tidy p \<Longrightarrow> (\<And>r. tidy (f r)) \<Longrightarrow> tidy (andThen p f)"
  unfolding andThen_def by (rule tidy_outcome) (auto split: sum.split)

lemma tidy_write_commit: "(\<And>d x. fst (u d) = Inl x \<Longrightarrow> snd (u d) = d) \<Longrightarrow> tidy (write_commit u)"
  by (auto simp: write_commit_def split: sum.split)

lemma methods_keep_on_error:
  "fst (no_rowid (add_client True cid nm pk t d)) = Inl x \<Longrightarrow> snd (no_rowid (add_client True cid nm pk t d)) = d"
  "fst (no_rowid (update_client_last_seen True cid t d)) = Inl x \<Longrightarrow> snd (no_rowid (update_client_last_seen True cid t d)) = d"
  "fst (add_message True cid f ty c d) = Inl x \<Longrightarrow> snd (add_message True cid f ty c d) = d"
  "fst (no_rowid (delete_messages True mv ids d)) = Inl x \<Longrightarrow> snd (no_rowid (delete_messages True mv ids d)) = d"
  by (auto simp: no_rowid_def add_client_def update_client_last_seen_def add_message_def delete_messages_def split: if_splits)

lemmas Db_defs = Db_add_client_def Db_update_client_last_seen_def Db_client_exists_def Db_list_clients_except_def
  Db_get_public_key_by_id_def Db_add_message_def Db_get_waiting_messages_def Db_delete_messages_def

lemmas Handler_defs = Register_handler_def Clients_list_handler_def Public_key_handler_def Waiting_messages_handler_def
  Send_message_handler_def

lemma tidy_methods:
  "tidy (Db_add_client cid nm pk t)" "tidy (Db_update_client_last_seen cid t)" "tidy (Db_client_exists cid)"
  "tidy (Db_list_clients_except cid)" "tidy (Db_get_public_key_by_id cid)" "tidy (Db_add_message cid f ty c)"
  "tidy (Db_get_waiting_messages cid)" "tidy (Db_delete_messages mv ids)"
  by (auto simp: Db_defs intro!: tidy_write_commit methods_keep_on_error)

lemma tidy_handlers:
  "tidy (Register_handler e q)" "tidy (Clients_list_handler q)" "tidy (Public_key_handler q)"
  "tidy (Waiting_messages_handler e q)" "tidy (Send_message_handler q)"
  unfolding Handler_defs Let_def
  by (auto intro!: tidy_outcome tidy_andThen tidy_methods split: sum.split option.split)

lemma tidy_request: "tidy (Request_handler_main e q)"
  unfolding Request_handler_main_def Dispatch_def Let_def
  by (auto intro!: tidy_outcome tidy_andThen tidy_methods tidy_handlers split: sum.split)

section \<open>What a program computes\<close>

primrec denote :: "'a prog \<Rightarrow> db \<Rightarrow> 'a \<times> db" where
  "denote (Return r) d = (r, d)"
| "denote (Read k) d = denote (k d) d"
| "denote (Write u k) d = denote (k (fst (u d))) (snd (u d))"
| "denote (Commit p) d = denote p d"

lemma denote_outcome: "denote (outcome p f) d = (case denote p d of (r, d') \<Rightarrow> denote (f r) d')"
  by (induction p arbitrary: d) simp_all

lemma denote_andThen:
  "denote (andThen p f) d = (case denote p d of (Inl x, d') \<Rightarrow> (Inl x, d') | (Inr a, d') \<Rightarrow> denote (f a) d')"
  by (auto simp: andThen_def denote_outcome split: prod.split sum.split)

lemma denote_write_commit: "denote (write_commit u) d = u d"
  by (cases "u d") (auto simp: write_commit_def split: sum.split)

text \<open>A connection that is up to date and holds nothing uncommitted.\<close>

definition clean :: "store \<Rightarrow> conn \<Rightarrow> bool" where
  "clean s c \<longleftrightarrow> view s c = committed s \<and> write_on False s c = Some (committed s)"

lemma clean_Auto: "clean s Auto"
  by (simp add: clean_def view_def write_on_def)

lemma clean_after_read: "clean s c \<Longrightarrow> clean s (after_read s c)"
  by (cases c) (simp_all add: clean_def after_read_def view_def write_on_def)

lemma clean_after_write: "clean s c \<Longrightarrow> clean s (after_write r (committed s))"
  by (simp add: clean_def after_write_def view_def write_on_def)

lemma run_alone_denote:
  "tidy p \<Longrightarrow> clean s c \<Longrightarrow> run_alone p False s c = (r, s', c') \<Longrightarrow>
     denote p (committed s) = (r, committed s') \<and> clean s' c'"
proof (induction p arbitrary: s c)
  case (Read k)
  have "view s c = committed s" using Read.prems(2) by (simp add: clean_def)
  then show ?case
    using Read.IH [of "k (committed s)" s "after_read s c"] Read.prems clean_after_read [OF Read.prems(2)] by simp
next
  case (Write u k)
  obtain x d' where u: "u (committed s) = (x, d')" by fastforce
  have run: "run_alone (k x) False s (after_write x d') = (r, s', c')"
    using Write.prems(2,3) u by (simp add: clean_def)
  show ?case
  proof (cases x)
    case (Inl y)
    with Write.prems(1) u have "d' = committed s" by (metis fst_conv snd_conv tidy.simps(3))
    with Write.IH [of "k x" s "after_write x d'"] run clean_after_write [OF Write.prems(2), of x] Write.prems(1) u
    show ?thesis by simp
  next
    case (Inr i)
    obtain p' where p': "k (Inr i) = Commit p'" using Write.prems(1) by (metis is_commit.elims(2) tidy.simps(3))
    define s1 where "s1 = commit s (Writing d')"
    have s1: "committed s1 = d'" by (simp add: s1_def commit_def)
    have "tidy (k x)" using Write.prems(1) by simp
    moreover have "run_alone (k x) False s1 Auto = (r, s', c')"
      using run by (simp add: Inr p' after_write_def s1_def commit_def)
    ultimately show ?thesis
      using Write.IH [of "k x" s1 Auto] clean_Auto [of s1] by (simp add: u s1)
  qed
next
  case (Commit p)
  have "commit s c = s" if "clean s c"
    using that by (cases c) (auto simp: clean_def commit_def view_def)
  with Commit.IH [of s Auto] Commit.prems clean_Auto [of s] show ?case by simp
qed simp

section \<open>The programs compute what the handlers compute\<close>

definition all_succeed :: "srv_env \<Rightarrow> srv_env" where
  "all_succeed e = e\<lparr>stmt_ok := (\<lambda>_. True)\<rparr>"

lemma denote_methods:
  "denote (Db_add_client cid nm pk t) d = no_rowid (add_client True cid nm pk t d)"
  "denote (Db_update_client_last_seen cid t) d = no_rowid (update_client_last_seen True cid t d)"
  "denote (Db_client_exists cid) d = (client_exists True cid d, d)"
  "denote (Db_list_clients_except cid) d = (list_clients_except True cid d, d)"
  "denote (Db_get_public_key_by_id cid) d = (get_public_key_by_id True cid d, d)"
  "denote (Db_add_message cid f ty c) d = add_message True cid f ty c d"
  "denote (Db_get_waiting_messages cid) d = (get_waiting_messages True cid d, d)"
  "denote (Db_delete_messages mv ids) d = no_rowid (delete_messages True mv ids d)"
  by (simp_all add: Db_defs denote_write_commit) (simp add: no_rowid_def delete_messages_def)

lemmas denote_simps = denote_outcome denote_andThen denote_methods no_rowid_def all_succeed_def

lemma denote_register: "denote (Register_handler e q) d = register_handler (all_succeed e) q d"
  by (auto simp: Register_handler_def register_handler_def Let_def denote_simps split: sum.split prod.split)

lemma denote_reads:
  "denote (Clients_list_handler q) d = clients_list_handler (all_succeed e) q d"
  "denote (Public_key_handler q) d = public_key_handler (all_succeed e) q d"
  by (auto simp: Clients_list_handler_def clients_list_handler_def Public_key_handler_def public_key_handler_def Let_def
      denote_simps split: sum.split option.split)

lemma denote_waiting: "denote (Waiting_messages_handler e q) d = waiting_messages_handler (all_succeed e) q d"
  by (auto simp: Waiting_messages_handler_def waiting_messages_handler_def Let_def denote_simps split: sum.split prod.split)

lemma denote_send: "denote (Send_message_handler q) d = send_message_handler (all_succeed e) q d"
  unfolding Send_message_handler_def send_message_handler_def Let_def
  by (auto simp: denote_simps split: sum.split prod.split)

lemma denote_dispatch: "denote (Dispatch e code q) d = dispatch (all_succeed e) code q d"
proof (cases "code = 700")
  case True
  then show ?thesis by (simp add: Dispatch_def dispatch_def denote_register)
next
  case code: False
  let ?id = "take 16 q"
  obtain d1 where d1: "update_client_last_seen True ?id (now e) d = (Inr (), d1)"
    by (simp add: update_client_last_seen_def)
  have env: "stmt_ok (all_succeed e) i" "now (all_succeed e) = now e" for i by (simp_all add: all_succeed_def)
  show ?thesis
    by (cases "?id \<in> c_id ` set (clients d)")
       (simp_all add: Dispatch_def dispatch_def Let_def code env denote_andThen denote_methods client_exists_ok d1 no_rowid_def
          denote_reads [of _ _ e] denote_waiting denote_send [of _ _ e])
qed

lemma denote_request: "denote (Request_handler_main e q) d = request_handler_main (all_succeed e) q d"
  unfolding Request_handler_main_def request_handler_main_def Let_def
  by (auto simp: denote_outcome denote_dispatch split: sum.split prod.split)

lemma request_alone:
  assumes "clean s c" and "run_alone (Request_handler_main e q) False s c = (r, s', c')"
  shows "request_handler_main (all_succeed e) q (committed s) = (r, committed s')" and "clean s' c'"
  using run_alone_denote [OF tidy_request assms] by (simp_all add: denote_request)

end
