(* ===== verification/Server_Safe.thy ===== *)
theory Server_Safe
  imports Server_Alone Server_Shape
begin

text \<open>
  What every request program promises, however the tables change between its statements: its
  writes keep the tables well-formed, a message it deletes belongs to the requester and is in
  the response it is about to give, and it ends with a well-formed response that has one of
  the shapes the client expects for its request. Between two
  statements of one thread the tables only evolve: clients stay, message ids are not reused,
  and no message is altered.
\<close>

definition evolves :: "db \<Rightarrow> db \<Rightarrow> bool" where
  "evolves d d' \<longleftrightarrow> c_id ` set (clients d) \<subseteq> c_id ` set (clients d') \<and> seq d \<le> seq d'
     \<and> (\<forall>m\<in>set (messages d'). m \<in> set (messages d) \<or> seq d < m_id m)"

lemma evolves_refl [simp]: "evolves d d"
  by (simp add: evolves_def)

lemma evolves_trans: "evolves a b \<Longrightarrow> evolves b c \<Longrightarrow> evolves a c"
  unfolding evolves_def by (meson order_le_less_trans order_trans subset_trans)

lemma evolves_same: "clients d' = clients d \<Longrightarrow> messages d' = messages d \<Longrightarrow> seq d' = seq d \<Longrightarrow> evolves d d'"
  by (simp add: evolves_def)

text \<open>What the dispatcher makes of the outcome of a handler.\<close>

definition answer :: "py_exn + bytes \<Rightarrow> py_exn + bytes" where
  "answer r = (case r of Inl _ \<Rightarrow> build_error_response | Inr b \<Rightarrow> Inr b)"

definition row_of :: "message_row \<Rightarrow> waiting_row" where
  "row_of m = (m_id m, m_from m, m_type m, m_content m)"

definition handed :: "bytes \<Rightarrow> db \<Rightarrow> db \<Rightarrow> (py_exn + bytes) prog \<Rightarrow> bool" where
  "handed q d d' p \<longleftrightarrow> (\<forall>m\<in>set (messages d). m \<notin> set (messages d') \<longrightarrow> m_to m = take 16 q
     \<and> (\<exists>pre suf. p = Return (answer (build_response 2104 (pre @ encode_row (row_of m) @ suf)))))"

lemma handed_keep: "messages d' = messages d \<Longrightarrow> handed q d d' p"
  by (simp add: handed_def)

primrec safe :: "bytes \<Rightarrow> (py_exn + bytes) prog \<Rightarrow> db \<Rightarrow> bool" where
  "safe q (Return r) d0 = (\<exists>b. r = Inr b \<and> response_ok b \<and> response_shape q b)"
| "safe q (Read k) d0 = (\<forall>d. db_ok d \<and> evolves d0 d \<longrightarrow> safe q (k d) d)"
| "safe q (Write u k) d0 =
     (safe q (k (Inl OperationalError)) d0 \<and>
      (\<forall>d. db_ok d \<and> evolves d0 d \<longrightarrow>
         db_ok (snd (u d)) \<and> evolves d (snd (u d)) \<and> safe q (k (fst (u d))) (snd (u d)) \<and>
         (\<forall>x. fst (u d) = Inl x \<longrightarrow> snd (u d) = d) \<and>
         (\<forall>i. fst (u d) = Inr i \<longrightarrow> is_commit (k (Inr i)) \<and> handed q d (snd (u d)) (committed_rest (k (Inr i))))))"
| "safe q (Commit p) d0 = safe q p d0"

section \<open>Composition\<close>

lemma outcome_assoc: "outcome (outcome p f) g = outcome p (\<lambda>r. outcome (f r) g)"
  by (induction p) auto

lemma outcome_andThen:
  "outcome (andThen p f) g = outcome p (\<lambda>r. case r of Inl x \<Rightarrow> g (Inl x) | Inr a \<Rightarrow> outcome (f a) g)"
  unfolding andThen_def outcome_assoc by (rule arg_cong [where f = "outcome p"]) (auto split: sum.split)

lemma safe_write_commit:
  assumes "safe q (f (Inl OperationalError)) d0"
    and "\<And>d r d'. db_ok d \<Longrightarrow> evolves d0 d \<Longrightarrow> u d = (r, d') \<Longrightarrow>
       db_ok d' \<and> evolves d d' \<and> safe q (f r) d' \<and>
       (case r of Inl x \<Rightarrow> d' = d | Inr i \<Rightarrow> handed q d d' (f r))"
  shows "safe q (outcome (write_commit u) f) d0"
proof -
  have "db_ok d' \<and> evolves d d' \<and> safe q (case r of Inl x \<Rightarrow> f (Inl x) | Inr i \<Rightarrow> Commit (f (Inr i))) d' \<and>
      (\<forall>x. r = Inl x \<longrightarrow> d' = d) \<and> (\<forall>i. r = Inr i \<longrightarrow> handed q d d' (f (Inr i)))"
    if "db_ok d" "evolves d0 d" "u d = (r, d')" for d r d'
    using assms(2) [OF that] by (cases r) auto
  from this [OF _ _ prod.collapse [symmetric]] show ?thesis
    using assms(1) by (simp add: write_commit_def sum.case_distrib [of "\<lambda>p. outcome p f"] cong: sum.case_cong)
qed

lemma safe_read: "(\<And>d. db_ok d \<Longrightarrow> evolves d0 d \<Longrightarrow> safe q (k d) d) \<Longrightarrow> safe q (Read k) d0"
  by simp

lemma safe_answer: "(\<And>b. r = Inr b \<Longrightarrow> response_ok b \<and> response_shape q b) \<Longrightarrow> safe q (Return (answer r)) d0"
  by (cases r) (simp_all add: answer_def)

lemma safe_error: "safe q (Return (answer (Inl x))) d0" "safe q (Return (answer (Inr error_bytes))) d0"
  by (simp_all add: answer_def)

lemma safe_build:
  assumes "length p < 2 ^ 32 \<Longrightarrow> response_shape q (response_bytes code p)"
  shows "safe q (Return (answer (build_response code p))) d0"
  by (rule safe_answer) (use assms response_ok_build in \<open>auto simp: build_response_alt split: if_splits\<close>)

text \<open>The payloads of the handlers.\<close>

lemma shape_entries:
  assumes "db_ok d" and "from_bytes (bslice 17 2 q) = 701"
    and "length (foldl (\<lambda>payload r. payload @ client_list_entry r) [] (map (\<lambda>r. (c_id r, c_name r)) (filter (\<lambda>r. c_id r \<noteq> me) (clients d)))) < 2 ^ 32"
  shows "response_shape q (response_bytes 2101
    (foldl (\<lambda>payload r. payload @ client_list_entry r) [] (map (\<lambda>r. (c_id r, c_name r)) (filter (\<lambda>r. c_id r \<noteq> me) (clients d)))))"
proof -
  have p: "foldl (\<lambda>payload r. payload @ client_list_entry r) [] (map (\<lambda>r. (c_id r, c_name r)) (filter (\<lambda>r. c_id r \<noteq> me) (clients d)))
      = concat (map client_list_entry (other_clients me d))"
    by (simp add: payload_concat other_clients_def filter_map comp_def)
  have "\<forall>x\<in>set (other_clients me d). entry_ok x" using entry_ok_other [OF assms(1)] by blast
  with assms(2,3) show ?thesis unfolding p response_shape_def by blast
qed

lemma shape_key:
  "from_bytes (bslice 17 2 q) = 702 \<Longrightarrow> length q = 39 \<Longrightarrow> length k = 160 \<Longrightarrow> response_shape q (response_bytes 2102 (bslice 23 16 q @ k))"
  unfolding response_shape_def by blast

lemma shape_rows:
  assumes "db_ok d" and "waiting_payload [] [] (fetch_rows d me) = Inr (p, ids)" and "length p < 2 ^ 32"
    and "from_bytes (bslice 17 2 q) = 704"
  shows "response_shape q (response_bytes 2104 p)"
proof -
  have "\<forall>m\<in>set (fetch_rows d me). length (fst (snd m)) = 16" using fetched_from [OF assms(1)] by blast
  from waiting_payload_Inr [OF assms(2) this] assms(3)
  have "fits (fetch_rows d me)" "p = concat (map encode_row (fetch_rows d me))" by (auto simp: fits_def)
  then show ?thesis using assms(4) unfolding response_shape_def by blast
qed

lemmas safe_intros = safe_error safe_build

section \<open>The handlers\<close>

lemma safe_register:
  assumes "env_ok e" and "from_bytes (bslice 17 2 q) = 700"
  shows "safe q (outcome (Register_handler e q) (\<lambda>r. Return (answer r))) d0"
proof (cases "length q = 438")
  case False
  then show ?thesis by (simp add: Register_handler_def answer_def)
next
  case len: True
  have shape: "response_shape q (response_bytes 2100 (token e))"
    using assms by (auto simp: response_shape_def env_ok_def)
  let ?raw = "takeWhile (\<lambda>c. c \<noteq> 0) (bslice 23 255 q)" and ?pk = "bslice 278 160 q"
  let ?h = "\<lambda>r. Return (answer (case r of Inl (x :: py_exn) \<Rightarrow> Inr error_bytes | Inr (i :: nat) \<Rightarrow> build_response 2100 (token e)))"
  let ?u = "\<lambda>d. no_rowid (add_client True (token e) ?raw ?pk (now e) d)"
  show ?thesis
  proof (cases "decode_ascii ?raw = Inr ?raw \<and> ?raw \<noteq> []")
    case False
    then show ?thesis using len
      by (auto simp: Register_handler_def Let_def decode_ascii_def answer_def split: if_splits)
  next
    case good: True
    have h: "(\<lambda>r. outcome (case r of Inl x \<Rightarrow> Return (Inr error_bytes) | Inr i \<Rightarrow> Return (build_response 2100 (token e)))
          (\<lambda>r. Return (answer r))) = ?h"
      by (auto split: sum.split)
    have run: "outcome (Register_handler e q) (\<lambda>r. Return (answer r)) = outcome (write_commit ?u) ?h"
      using len good by (simp add: Register_handler_def Let_def Db_add_client_def outcome_assoc h)
    have "\<forall>c\<in>set ?raw. 0 < c \<and> c \<le> 127"
      using good by (auto simp: decode_ascii_def list_ex_iff not_less word_gt_0 dest: set_takeWhileD split: if_splits)
    moreover have "length ?raw \<le> 255"
      by (rule order_trans [OF length_takeWhile_le]) (simp add: wire_simps)
    ultimately have keep: "db_ok d'" if "db_ok d" "add_client True (token e) ?raw ?pk (now e) d = (r, d')" for d r d'
      using db_ok_add_client [OF that] good len assms by (simp add: env_ok_def wire_simps)
    show ?thesis
      unfolding run
    proof (rule safe_write_commit)
      fix d r d' assume d: "db_ok d" and u: "?u d = (r, d')"
      have "evolves d d'" "messages d' = messages d"
        using u by (auto simp: no_rowid_def add_client_def evolves_def split: if_splits)
      moreover have "db_ok d'" using keep [OF d] u by (cases "add_client True (token e) ?raw ?pk (now e) d") (auto simp: no_rowid_def)
      moreover have "r = Inl x \<Longrightarrow> d' = d" for x
        using u by (auto simp: no_rowid_def add_client_def split: if_splits)
      ultimately show "db_ok d' \<and> evolves d d' \<and> safe q (?h r) d' \<and>
         (case r of Inl x \<Rightarrow> d' = d | Inr i \<Rightarrow> handed q d d' (?h r))"
        by (auto simp del: safe.simps intro!: safe_intros handed_keep shape split: sum.split)
    qed (simp del: safe.simps add: safe_intros)
  qed
qed

lemma safe_reads:
  "from_bytes (bslice 17 2 q) = 701 \<Longrightarrow> safe q (outcome (Clients_list_handler q) (\<lambda>r. Return (answer r))) d0"
  "from_bytes (bslice 17 2 q) = 702 \<Longrightarrow> safe q (outcome (Public_key_handler q) (\<lambda>r. Return (answer r))) d0"
  by (auto simp: Clients_list_handler_def Public_key_handler_def Let_def Db_defs outcome_andThen list_clients_except_def
      get_public_key_by_id_def option.case_distrib [of "\<lambda>p. outcome p f" for f] simp del: safe.simps
      intro!: safe_read safe_intros shape_entries shape_key split: option.split)

text \<open>The payload of a fetch contains every row that was read.\<close>

lemma waiting_payload_sizes:
  "waiting_payload p ids rows = Inr (p', ids') \<Longrightarrow> p' = p @ concat (map encode_row rows) \<and> ids' = ids @ map fst rows"
proof (induction p ids rows rule: waiting_payload.induct)
  case (2 p ids i f ty c rows)
  have "encode_row (i, f, ty, c) = f @ le_bytes 4 i @ le_bytes 1 ty @ le_bytes 4 (length c) @ c"
    by (simp add: encode_row_def)
  with 2 show ?case by (auto simp del: le_bytes.simps simp: to_bytes_def split: if_splits)
qed simp

lemma safe_waiting:
  assumes "from_bytes (bslice 17 2 q) = 704"
  shows "safe q (outcome (Waiting_messages_handler e q) (\<lambda>r. Return (answer r))) d0"
proof (cases "length q = 23")
  case False
  then show ?thesis by (simp add: Waiting_messages_handler_def answer_def)
next
  case len: True
  let ?me = "take 16 q"
  let ?fin = "\<lambda>payload r. case r of Inl (x :: py_exn) \<Rightarrow> Return (answer (Inl x)) | Inr (i :: nat) \<Rightarrow> Return (answer (build_response 2104 payload))"
  have del: "safe q (outcome (Db_delete_messages mv (map fst (fetch_rows d ?me))) (?fin (concat (map encode_row (fetch_rows d ?me))))) d"
    if d: "db_ok d" and shape: "length (concat (map encode_row (fetch_rows d ?me))) < 2 ^ 32 \<Longrightarrow>
      response_shape q (response_bytes 2104 (concat (map encode_row (fetch_rows d ?me))))" for d mv
  proof -
    let ?rows = "fetch_rows d ?me"
    let ?u = "\<lambda>d. no_rowid (delete_messages True mv (map fst ?rows) d)"
    have "safe q (outcome (write_commit ?u) (?fin (concat (map encode_row ?rows)))) d"
    proof (rule safe_write_commit)
      fix d1 r d2 assume d1: "db_ok d1" "evolves d d1" and u: "?u d1 = (r, d2)"
      obtain x where x: "delete_messages True mv (map fst ?rows) d1 = (x, d2)"
        using u by (cases "delete_messages True mv (map fst ?rows) d1") (auto simp: no_rowid_def)
      have ev: "evolves d1 d2"
        using x by (auto simp: delete_messages_def evolves_def split: if_splits)
      have gone: "m_to m = ?me \<and> row_of m \<in> set ?rows" if m: "m \<in> set (messages d1)" "m \<notin> set (messages d2)" for m
      proof -
        have "m_id m \<in> fst ` set ?rows"
          using m x by (auto simp: delete_messages_def split: if_splits)
        then obtain m' where m': "m' \<in> set (messages d)" "m_to m' = ?me" "m_id m' = m_id m"
          by (auto simp: fetch_rows_alt [OF db_ok_ids_ok [OF d]])
        have "m_id m \<le> seq d" using db_okD(5) [OF d m'(1)] m'(3) by simp
        then have "m \<in> set (messages d)" using d1(2) m(1) by (force simp: evolves_def)
        then have "m = m'" using m_id_inj [OF db_ok_ids_ok [OF d]] m' by blast
        with m' show ?thesis by (auto simp: fetch_rows_alt [OF db_ok_ids_ok [OF d]] row_of_def)
      qed
      have "handed q d1 d2 (Return (answer (build_response 2104 (concat (map encode_row ?rows)))))"
        unfolding handed_def
      proof (intro ballI impI conjI)
        fix m assume "m \<in> set (messages d1)" "m \<notin> set (messages d2)"
        from gone [OF this] show "m_to m = ?me" by simp
        from gone [OF \<open>m \<in> _\<close> \<open>m \<notin> _\<close>] obtain as bs where "?rows = as @ row_of m # bs" by (meson split_list)
        then have "concat (map encode_row ?rows) = concat (map encode_row as) @ encode_row (row_of m) @ concat (map encode_row bs)"
          by simp
        then show "\<exists>pre suf. Return (answer (build_response 2104 (concat (map encode_row ?rows)))) =
            (Return (answer (build_response 2104 (pre @ encode_row (row_of m) @ suf))) :: (py_exn + bytes) prog)"
          by metis
      qed
      moreover have "r = Inl y \<Longrightarrow> d2 = d1" for y
        using u by (auto simp: no_rowid_def delete_messages_def split: if_splits)
      ultimately show "db_ok d2 \<and> evolves d1 d2 \<and> safe q (?fin (concat (map encode_row ?rows)) r) d2 \<and>
          (case r of Inl y \<Rightarrow> d2 = d1 | Inr i \<Rightarrow> handed q d1 d2 (?fin (concat (map encode_row ?rows)) r))"
        using db_ok_delete_messages [OF d1(1) x] ev
        by (auto simp del: safe.simps intro!: safe_intros shape split: sum.split)
    qed (simp del: safe.simps add: safe_intros)
    then show ?thesis using shape by (auto simp: Db_delete_messages_def simp del: safe.simps intro!: safe_intros)
  qed
  have fetch: "get_waiting_messages True ?me d = Inr (fetch_rows d ?me)" for d by (rule get_waiting_messages_fetch)
  have "safe q (outcome (Db_delete_messages (max_vars e) ids) (?fin payload)) d"
    if "db_ok d" "waiting_payload [] [] (fetch_rows d ?me) = Inr (payload, ids)" for d payload ids
  proof -
    have eqs: "payload = concat (map encode_row (fetch_rows d ?me))" "ids = map fst (fetch_rows d ?me)"
      using waiting_payload_sizes [OF that(2)] by simp_all
    show ?thesis unfolding eqs by (rule del [OF that(1)]) (use shape_rows [OF that _ assms] in \<open>simp add: eqs\<close>)
  qed
  then show ?thesis
    using len
    by (auto simp: Waiting_messages_handler_def Db_get_waiting_messages_def outcome_andThen fetch
        simp del: safe.simps cong: sum.case_cong intro!: safe_read safe_intros split: sum.split sum.split_asm prod.split)
qed

lemma safe_send:
  assumes known: "take 16 q \<in> c_id ` set (clients d0)" and code: "from_bytes (bslice 17 2 q) = 703"
  shows "safe q (outcome (Send_message_handler q) (\<lambda>r. Return (answer r))) d0"
proof (cases "length q < 44")
  case True
  then show ?thesis by (simp add: Send_message_handler_def answer_def)
next
  case len: False
  let ?t = "bslice 23 16 q" and ?ty = "unat (q ! 39)" and ?n = "from_bytes (bslice 40 4 q)"
  let ?k = "\<lambda>r. case r of Inl (x :: py_exn) \<Rightarrow> Return (answer (Inl x)) | Inr i \<Rightarrow>
      outcome (case to_bytes 4 i of Inl x \<Rightarrow> Return (Inl x) | Inr b \<Rightarrow> Return (build_response 2103 (?t @ b))) (\<lambda>r. Return (answer r))"
  have "response_shape q (response_bytes 2103 (?t @ b))" if "to_bytes 4 i = Inr b" for i b
  proof -
    have "b = le_bytes 4 i" "i < 2 ^ 32" using that by (auto simp: to_bytes_def split: if_splits)
    then show ?thesis using len code unfolding response_shape_def by (simp add: not_less) blast
  qed
  then have fin: "safe q (?k r) d" for r d
    by (auto simp del: safe.simps intro!: safe_intros split: sum.split)
  have n: "?n < 2 ^ 32" using from_bytes_less [of "bslice 40 4 q"] len by (simp add: wire_simps)
  have add: "safe q (outcome (Db_add_message ?t (take 16 q) ?ty (bslice 44 ?n q)) ?k) d"
    if d: "db_ok d" "evolves d0 d" "?t \<in> c_id ` set (clients d)" and ty: "?ty \<in> {1, 2, 3}" "?ty = 1 \<longrightarrow> ?n = 0" for d
    unfolding Db_add_message_def
  proof (rule safe_write_commit)
    fix d1 r d2 assume d1: "db_ok d1" "evolves d d1" and u: "add_message True ?t (take 16 q) ?ty (bslice 44 ?n q) d1 = (r, d2)"
    have ids: "?t \<in> c_id ` set (clients d1)" "take 16 q \<in> c_id ` set (clients d1)"
      using d1(2) d(2,3) known unfolding evolves_def by blast+
    then have "message_row_ok (c_id ` set (clients d1))
        \<lparr>m_id = 0, m_to = ?t, m_from = take 16 q, m_type = ?ty, m_content = bslice 44 ?n q\<rparr>"
      using ty n by (auto simp: message_row_ok_def bslice_def)
    from db_ok_add_message [OF d1(1) u this] have "db_ok d2" .
    moreover have "evolves d1 d2" "r = Inl x \<Longrightarrow> d2 = d1" for x
      using u by (auto simp: add_message_def evolves_def split: if_splits)
    moreover have "handed q d1 d2 p" for p
      using u by (auto simp: add_message_def handed_def split: if_splits)
    ultimately show "db_ok d2 \<and> evolves d1 d2 \<and> safe q (?k r) d2 \<and>
        (case r of Inl x \<Rightarrow> d2 = d1 | Inr i \<Rightarrow> handed q d1 d2 (?k r))"
      using fin by (simp del: safe.simps split: sum.split)
  qed (rule fin)
  show ?thesis
    using len add
    by (auto simp: Send_message_handler_def Let_def Db_client_exists_def outcome_andThen client_exists_ok
        simp del: safe.simps cong: sum.case_cong intro!: safe_read safe_intros)
qed

section \<open>The dispatcher\<close>

lemma safe_request:
  assumes "env_ok e"
  shows "safe q (Request_handler_main e q) d0"
proof -
  let ?h = "\<lambda>r. case r of Inl (x :: py_exn) \<Rightarrow> Return build_error_response | Inr (b :: bytes) \<Rightarrow> Return (Inr b)"
  have h: "?h = (\<lambda>r. Return (answer r))" by (auto simp: answer_def split: sum.split)
  have seen: "safe q (outcome (Db_update_client_last_seen (take 16 q) (now e)) f) d"
    if "safe q (f (Inl OperationalError)) d" and f: "\<And>d1 i. evolves d d1 \<Longrightarrow> db_ok d1 \<Longrightarrow> safe q (f (Inr i)) d1" for f d
    unfolding Db_update_client_last_seen_def
  proof (rule safe_write_commit)
    fix d1 r d2 assume d1: "db_ok d1" "evolves d d1" and u: "no_rowid (update_client_last_seen True (take 16 q) (now e) d1) = (r, d2)"
    have t: "update_client_last_seen True (take 16 q) (now e) d1 = (Inr (), d2)" and r: "r = Inr 0"
      using u by (auto simp: no_rowid_def update_client_last_seen_def)
    note k = update_last_seen_keeps [OF t] update_last_seen_ids [OF t]
    have e: "evolves d1 d2" using k by (simp add: evolves_def)
    moreover have "db_ok d2" by (rule db_ok_update_last_seen [OF d1(1) t])
    ultimately show "db_ok d2 \<and> evolves d1 d2 \<and> safe q (f r) d2 \<and>
        (case r of Inl x \<Rightarrow> d2 = d1 | Inr i \<Rightarrow> handed q d1 d2 (f r))"
      using f evolves_trans [OF d1(2) e] handed_keep [OF k(1)] r by simp
  qed (rule that(1))
  have "safe q (outcome (Dispatch e code q) (\<lambda>r. Return (answer r))) d0" if code: "code = from_bytes (bslice 17 2 q)" for code
  proof (cases "code = 700")
    case True
    then show ?thesis using safe_register [OF assms] code by (simp add: Dispatch_def)
  next
    case False
    then show ?thesis using code
      by (auto simp: Dispatch_def Let_def Db_client_exists_def outcome_andThen client_exists_ok evolves_def
          simp del: safe.simps intro!: safe_read safe_intros seen safe_reads safe_waiting safe_send) blast
  qed
  then show ?thesis
    unfolding Request_handler_main_def Let_def h by (auto simp: response_ok_error)
qed

end
