(* ===== verification/Server_Threads.thy ===== *)
theory Server_Threads
  imports Server_Safe Machine
begin

text \<open>
  The whole server: the accept loop of \<^verbatim>\<open>main.py\<close> starts a thread per connection, and the threads
  run their handlers' statements in any order. A step is the thread that moves and what it does:
  it is started, it has read a whole request, it runs one statement, it sends its response, or
  it ends, which closes its database connection and so undoes what it had not committed.
\<close>

datatype phase = Awaiting | Serving bytes "(py_exn + bytes) prog" | Ended

record server =
  dbfile :: store
  threads :: "(phase \<times> conn) list"

definition busy :: "server \<Rightarrow> nat \<Rightarrow> bool" where
  "busy s i \<longleftrightarrow> list_ex (\<lambda>j. j \<noteq> i \<and> is_writing (snd (threads s ! j))) [0..<length (threads s)]"

lemma busy_iff: "busy s i \<longleftrightarrow> (\<exists>j<length (threads s). j \<noteq> i \<and> is_writing (snd (threads s ! j)))"
  by (auto simp: busy_def list_ex_iff)

definition start_server :: server where
  "start_server = \<lparr>dbfile = \<lparr>committed = empty_db, version = 0\<rparr>, threads = []\<rparr>"

inductive server_step :: "nat \<Rightarrow> nat \<Rightarrow> server \<Rightarrow> server \<Rightarrow> bool" for mv where
  accept: "server_step mv (length (threads s)) s (s\<lparr>threads := threads s @ [(Awaiting, Auto)]\<rparr>)"
| receive: "i < length (threads s) \<Longrightarrow> threads s ! i = (Awaiting, c) \<Longrightarrow> env_ok e \<Longrightarrow> max_vars e = mv \<Longrightarrow>
    server_step mv i s (s\<lparr>threads := (threads s)[i := (Serving q (Request_handler_main e q), c)]\<rparr>)"
| statement: "i < length (threads s) \<Longrightarrow> threads s ! i = (Serving q p, c) \<Longrightarrow>
    prog_step (busy s i) p (dbfile s) c = Some (p', st, c') \<Longrightarrow>
    server_step mv i s (s\<lparr>dbfile := st, threads := (threads s)[i := (Serving q p', c')]\<rparr>)"
| reply: "i < length (threads s) \<Longrightarrow> threads s ! i = (Serving q (Return (Inr r)), c) \<Longrightarrow>
    server_step mv i s (s\<lparr>threads := (threads s)[i := (Awaiting, c)]\<rparr>)"
| close: "i < length (threads s) \<Longrightarrow> threads s ! i = (ph, c) \<Longrightarrow> ph = Awaiting \<or> (\<exists>q r. ph = Serving q (Return r)) \<Longrightarrow>
    server_step mv i s (s\<lparr>threads := (threads s)[i := (Ended, Auto)]\<rparr>)"

inductive_cases server_stepE: "server_step mv i s t"

section \<open>The invariant\<close>

definition conn_ok :: "store \<Rightarrow> phase \<times> conn \<Rightarrow> bool" where
  "conn_ok st t = (case snd t of
      Auto \<Rightarrow> True
    | Begun \<Rightarrow> True
    | Reading d n \<Rightarrow> db_ok d \<and> evolves d (committed st) \<and> n \<le> version st \<and> (n = version st \<longrightarrow> d = committed st)
    | Writing d \<Rightarrow> db_ok d \<and> evolves (committed st) d \<and>
        (d \<noteq> committed st \<longrightarrow> (\<exists>q p. fst t = Serving q (Commit p) \<and> handed q (committed st) d p)))"

definition phase_ok :: "store \<Rightarrow> phase \<times> conn \<Rightarrow> bool" where
  "phase_ok st t = (\<forall>q p. fst t = Serving q p \<longrightarrow> (\<exists>d. evolves d (view st (snd t)) \<and> safe q p d))"

definition server_inv :: "server \<Rightarrow> bool" where
  "server_inv s \<longleftrightarrow> db_ok (committed (dbfile s))
     \<and> (\<forall>i<length (threads s). conn_ok (dbfile s) (threads s ! i) \<and> phase_ok (dbfile s) (threads s ! i))
     \<and> (\<forall>i<length (threads s). is_writing (snd (threads s ! i)) \<longrightarrow> \<not> busy s i)"

lemma server_invD:
  assumes "server_inv s"
  shows "db_ok (committed (dbfile s))"
    and "i < length (threads s) \<Longrightarrow> conn_ok (dbfile s) (threads s ! i)"
    and "i < length (threads s) \<Longrightarrow> phase_ok (dbfile s) (threads s ! i)"
    and "i < length (threads s) \<Longrightarrow> is_writing (snd (threads s ! i)) \<Longrightarrow> \<not> busy s i"
  using assms by (auto simp: server_inv_def)

lemma view_ok:
  assumes "db_ok (committed st)" and "conn_ok st (ph, c)"
  shows "db_ok (view st c)" and "\<not> is_writing c \<Longrightarrow> evolves (view st c) (committed st)"
  using assms by (cases c; simp add: conn_ok_def view_def)+

lemma server_inv_start: "server_inv start_server"
  by (simp add: server_inv_def start_server_def)

text \<open>One thread moves: what has to be shown of it and of the others.\<close>

lemma server_inv_upd:
  assumes inv: "server_inv s" and i: "i < length (threads s)"
    and db: "db_ok (committed st)" and own: "conn_ok st t" "phase_ok st t"
    and others: "\<And>j. j < length (threads s) \<Longrightarrow> j \<noteq> i \<Longrightarrow> conn_ok st (threads s ! j) \<and> phase_ok st (threads s ! j)"
    and lock: "is_writing (snd t) \<Longrightarrow> \<not> busy s i"
  shows "server_inv (s\<lparr>dbfile := st, threads := (threads s)[i := t]\<rparr>)"
proof -
  let ?s = "s\<lparr>dbfile := st, threads := (threads s)[i := t]\<rparr>"
  have "\<not> busy ?s j" if j: "j < length (threads s)" "is_writing (snd (threads ?s ! j))" for j
  proof (cases "j = i")
    case True
    then show ?thesis using lock j i by (auto simp: busy_iff nth_list_update)
  next
    case False
    then have w: "is_writing (snd (threads s ! j))" using j by simp
    then have "\<not> is_writing (snd t)" using lock False j(1) by (auto simp: busy_iff)
    with server_invD(4) [OF inv j(1) w] i show ?thesis by (auto simp: busy_iff nth_list_update split: if_splits)
  qed
  then show ?thesis
    unfolding server_inv_def using own others db i by (simp add: nth_list_update)
qed

lemma phase_okI: "evolves d (view st c) \<Longrightarrow> safe q p d \<Longrightarrow> phase_ok st (Serving q p, c)"
  by (auto simp: phase_ok_def)

lemma phase_ok_not_serving: "phase_ok st (Awaiting, c)" "phase_ok st (Ended, c)"
  by (simp_all add: phase_ok_def)

text \<open>A commit of one thread, seen by another one, which does not hold the lock.\<close>

lemma others_after_commit:
  assumes "conn_ok st t" "phase_ok st t" and "\<not> is_writing (snd t)" and "evolves (committed st) d"
  shows "conn_ok (commit st (Writing d)) t" and "phase_ok (commit st (Writing d)) t"
proof -
  obtain ph c where t: "t = (ph, c)" by (cases t)
  show "conn_ok (commit st (Writing d)) t"
    using assms evolves_trans by (cases c) (auto simp: t conn_ok_def commit_def)
  have "evolves (view st c) (view (commit st (Writing d)) c)"
    using assms(3,4) by (cases c) (auto simp: t view_def commit_def)
  with assms(2) show "phase_ok (commit st (Writing d)) t"
    using evolves_trans by (fastforce simp: t phase_ok_def)
qed

text \<open>A thread whose next statement is not a commit holds nothing uncommitted.\<close>

lemma nothing_pending:
  assumes "conn_ok st (Serving q p, c)" and "\<not> is_commit p" and "write_on b st c = Some d"
  shows "d = committed st"
  using assms by (cases c) (auto simp: conn_ok_def write_on_def split: if_splits)

lemma server_inv_statement:
  assumes inv: "server_inv s" and i: "i < length (threads s)" and t: "threads s ! i = (Serving q p, c)"
    and st: "prog_step (busy s i) p (dbfile s) c = Some (p', st, c')"
  shows "server_inv (s\<lparr>dbfile := st, threads := (threads s)[i := (Serving q p', c')]\<rparr>)"
proof -
  let ?f = "dbfile s" and ?c = "committed (dbfile s)"
  note db = server_invD(1) [OF inv]
  have cok: "conn_ok ?f (Serving q p, c)" using server_invD(2) [OF inv i] t by simp
  obtain d0 where d0: "evolves d0 (view ?f c)" "safe q p d0"
    using server_invD(3) [OF inv i] t by (auto simp: phase_ok_def)
  have lock: "is_writing c \<Longrightarrow> \<not> busy s i" using server_invD(4) [OF inv i] t by simp
  have rest: "conn_ok ?f (threads s ! j) \<and> phase_ok ?f (threads s ! j)" if "j < length (threads s)" for j
    using server_invD(2,3) [OF inv that] by simp
  show ?thesis
  proof (cases p)
    case (Return r)
    then show ?thesis using st by simp
  next
    case (Read k)
    have e: "p' = k (view ?f c)" "st = ?f" "c' = after_read ?f c" using st unfolding Read by auto
    have "safe q p' (view ?f c)" using d0 view_ok(1) [OF db cok] Read e(1) by simp
    moreover have "view ?f c' = view ?f c" by (cases c) (simp_all add: e(3) view_def after_read_def)
    moreover have "conn_ok ?f (Serving q p', c')"
      using cok db Read by (cases c) (auto simp: conn_ok_def e(3) after_read_def)
    moreover have "is_writing c' \<Longrightarrow> \<not> busy s i" using lock by (cases c) (auto simp: e(3) after_read_def)
    ultimately show ?thesis
      unfolding e(2) by (intro server_inv_upd [OF inv i db]) (auto simp: rest intro!: phase_okI)
  next
    case (Write u k)
    show ?thesis
    proof (cases "write_on (busy s i) ?f c")
      case None
      then have e: "p' = k (Inl OperationalError)" "st = ?f" "c' = begun c" using st Write by simp_all
      have "conn_ok ?f (Serving q p', c')" "view ?f c' = view ?f c" "is_writing c' = is_writing c"
        using cok Write by (cases c; auto simp: conn_ok_def e(3) begun_def view_def)+
      moreover have "safe q p' d0" using d0(2) Write e(1) by simp
      ultimately show ?thesis
        unfolding e(2) using lock d0(1) by (intro server_inv_upd [OF inv i db]) (auto simp: rest intro!: phase_okI)
    next
      case (Some d)
      have d: "d = ?c" by (rule nothing_pending [OF cok _ Some]) (simp add: Write)
      obtain r d' where u: "u ?c = (r, d')" by fastforce
      have e: "p' = k r" "st = ?f" "c' = after_write r d'" using st Write Some d u by simp_all
      have "evolves d0 ?c" using d0(1) nothing_pending [OF cok _ Some] Write Some cok
        by (cases c) (auto simp: view_def conn_ok_def intro: evolves_trans)
      with d0(2) db u have w: "db_ok d'" "evolves ?c d'" "safe q p' d'" "\<And>x. r = Inl x \<Longrightarrow> d' = ?c"
          "\<And>j. r = Inr j \<Longrightarrow> is_commit (k (Inr j)) \<and> handed q ?c d' (committed_rest (k (Inr j)))"
        by (auto simp: Write e(1) dest!: spec [of _ ?c])
      have "conn_ok ?f (Serving q p', c')"
      proof (cases r)
        case (Inr j)
        with w(5) obtain p1 where p1: "k (Inr j) = Commit p1" by (metis is_commit.elims(2))
        with w(5) [OF Inr] have "handed q ?c d' p1" by simp
        with w(1,2) Inr e(1) p1 show ?thesis by (auto simp: conn_ok_def e(3) after_write_def)
      qed (use w db in \<open>auto simp: conn_ok_def e(3) after_write_def\<close>)
      moreover have "evolves d' (view ?f c')"
        using w(2,4) by (cases r) (auto simp: e(3) after_write_def view_def)
      moreover have "is_writing c' \<Longrightarrow> \<not> busy s i"
        using lock Some by (cases c) (auto simp: write_on_def split: if_splits)
      ultimately show ?thesis
        unfolding e(2) using w(3) by (intro server_inv_upd [OF inv i db]) (auto simp: rest intro!: phase_okI)
    qed
  next
    case (Commit p1)
    then have e: "p' = p1" "st = commit ?f c" "c' = Auto" using st by simp_all
    have ev: "evolves (view ?f c) (committed st)"
      using cok by (cases c) (auto simp: e(2) commit_def view_def conn_ok_def)
    have own: "conn_ok st (Serving q p', c')" "phase_ok st (Serving q p', c')"
      using d0 evolves_trans [OF _ ev] Commit by (auto simp: e conn_ok_def phase_ok_def view_def)
    have db': "db_ok (committed st)" using db cok by (cases c) (auto simp: e(2) commit_def conn_ok_def)
    have "conn_ok st (threads s ! j) \<and> phase_ok st (threads s ! j)" if j: "j < length (threads s)" "j \<noteq> i" for j
    proof (cases "is_writing c")
      case False
      then have "st = ?f" by (cases c) (simp_all add: e(2) commit_def)
      with rest [OF j(1)] show ?thesis by simp
    next
      case True
      then obtain d where c: "c = Writing d" by (cases c) auto
      have "\<not> is_writing (snd (threads s ! j))" using lock [OF True] j by (auto simp: busy_iff)
      moreover have "evolves ?c d" using cok c by (simp add: conn_ok_def)
      ultimately show ?thesis using others_after_commit rest [OF j(1)] by (simp add: e(2) c)
    qed
    then show ?thesis by (intro server_inv_upd [OF inv i db' own]) (auto simp: e(3))
  qed
qed

lemma server_inv_step:
  assumes inv: "server_inv s" and "server_step mv i s t"
  shows "server_inv t"
  using assms(2)
proof (cases rule: server_step.cases)
  case accept
  have "busy (s\<lparr>threads := threads s @ [(Awaiting, Auto)]\<rparr>) j = busy s j" if "j < length (threads s)" for j
    using that by (auto simp: busy_iff nth_append less_Suc_eq)
  then show ?thesis
    using inv by (auto simp: accept server_inv_def nth_append conn_ok_def phase_ok_def less_Suc_eq)
next
  case (receive c e q)
  have f: "s\<lparr>threads := x\<rparr> = s\<lparr>dbfile := dbfile s, threads := x\<rparr>" for x by simp
  show ?thesis
    unfolding receive(1) f
    using server_invD [OF inv] receive server_invD(2,4) [OF inv receive(2)]
    by (intro server_inv_upd [OF inv receive(2)])
       (auto simp: phase_ok_def conn_ok_def safe_request intro: evolves_refl split: conn.splits)
next
  case (statement q p c p' st c')
  with server_inv_statement [OF inv] show ?thesis by blast
next
  case (reply q r c)
  have f: "s\<lparr>threads := x\<rparr> = s\<lparr>dbfile := dbfile s, threads := x\<rparr>" for x by simp
  show ?thesis
    unfolding reply(1) f
    using server_invD [OF inv] reply server_invD(2,4) [OF inv reply(2)]
    by (intro server_inv_upd [OF inv reply(2)]) (auto simp: phase_ok_def conn_ok_def split: conn.splits)
next
  case (close ph c)
  have f: "s\<lparr>threads := x\<rparr> = s\<lparr>dbfile := dbfile s, threads := x\<rparr>" for x by simp
  show ?thesis
    unfolding close(1) f
    using server_invD [OF inv]
    by (intro server_inv_upd [OF inv close(2)]) (auto simp: phase_ok_def conn_ok_def)
qed

end
