(* ===== verification/Server_Starve.thy ===== *)
theory Server_Starve
  imports Server_Threads
begin

text \<open>
  Runs of the server's threads: every request can be brought to its response by its own thread,
  and two ways in which threads starve. A thread whose INSERT violated a constraint keeps the
  write lock until its next commit; a thread whose transaction has read tables that were
  changed since can never write again. A program is \<open>doomed\<close> when it answers with the general
  error if none of its statements can write.
\<close>

section \<open>Runs\<close>

abbreviation thread_moves :: "nat \<Rightarrow> nat \<Rightarrow> server \<Rightarrow> server \<Rightarrow> bool" where
  "thread_moves mv i \<equiv> (server_step mv i)\<^sup>*\<^sup>*"

abbreviation server_moves :: "nat \<Rightarrow> server \<Rightarrow> server \<Rightarrow> bool" where
  "server_moves mv \<equiv> (\<lambda>s t. \<exists>i. server_step mv i s t)\<^sup>*\<^sup>*"

definition file_grows :: "server \<Rightarrow> server \<Rightarrow> bool" where
  "file_grows s t \<longleftrightarrow> evolves (committed (dbfile s)) (committed (dbfile t)) \<and> version (dbfile s) \<le> version (dbfile t)"

lemma prog_step_file:
  assumes "prog_step b p st c = Some (p', st', c')" and "conn_ok st (Serving q p, c)"
  shows "evolves (committed st) (committed st')" and "version st \<le> version st'"
  using assms by (cases p; cases c; auto simp: commit_def conn_ok_def split: option.splits prod.splits)+

lemma file_grows_step:
  assumes "server_inv s" and "server_step mv i s t"
  shows "file_grows s t"
  using assms(2)
proof (cases rule: server_step.cases)
  case (statement q p c p' st c')
  then show ?thesis
    using prog_step_file [OF statement(4)] server_invD(2) [OF assms(1) statement(2)] by (simp add: file_grows_def)
qed (simp_all add: file_grows_def)

interpretation srv: machine "\<lambda>s t. \<exists>i. server_step mv i s t" server_inv file_grows for mv
proof unfold_locales
  fix s t u
  show "server_inv s \<Longrightarrow> \<exists>i. server_step mv i s t \<Longrightarrow> server_inv t" by (blast intro: server_inv_step)
  show "server_inv s \<Longrightarrow> \<exists>i. server_step mv i s t \<Longrightarrow> file_grows s t" by (blast intro: file_grows_step)
  show "file_grows s s" by (simp add: file_grows_def)
  show "file_grows s t \<Longrightarrow> file_grows t u \<Longrightarrow> file_grows s u"
    using evolves_trans by (auto simp: file_grows_def)
qed

lemma thread_moves_server: "thread_moves mv i s t \<Longrightarrow> server_moves mv s t"
  by (induction rule: rtranclp_induct) (auto intro: rtranclp.rtrancl_into_rtrancl)

text \<open>What a step leaves in the place of another thread.\<close>

lemma step_other:
  assumes "server_step mv i s t" and "j < length (threads s)" and "j \<noteq> i"
  shows "j < length (threads t) \<and> threads t ! j = threads s ! j"
  using assms(1)
proof (cases rule: server_step.cases)
  case accept
  then show ?thesis using assms(2) by (simp add: nth_append)
next
  case (receive c e q)
  then show ?thesis using assms(2,3) by simp
next
  case (statement q p c p' st c')
  show ?thesis using assms(2,3) by (simp add: statement(1))
next
  case (reply q r c)
  then show ?thesis using assms(2,3) by simp
next
  case (close ph c)
  show ?thesis using assms(2,3) by (simp add: close(1))
qed

lemma busy_upd: "busy (s\<lparr>dbfile := st, threads := (threads s)[i := x]\<rparr>) i = busy s i"
  "busy (s\<lparr>threads := (threads s)[i := x]\<rparr>) i = busy s i"
  by (auto simp: busy_iff)

section \<open>A thread brings its request to a response\<close>

text \<open>The statements of thread \<open>i\<close> alone: it does not read a request, send or end.\<close>

inductive own_statement :: "nat \<Rightarrow> server \<Rightarrow> server \<Rightarrow> bool" for i where
  "i < length (threads s) \<Longrightarrow> threads s ! i = (Serving q p, c) \<Longrightarrow>
    prog_step (busy s i) p (dbfile s) c = Some (p', st, c') \<Longrightarrow>
    own_statement i s (s\<lparr>dbfile := st, threads := (threads s)[i := (Serving q p', c')]\<rparr>)"

abbreviation runs :: "nat \<Rightarrow> server \<Rightarrow> server \<Rightarrow> bool" where
  "runs i \<equiv> (own_statement i)\<^sup>*\<^sup>*"

lemma own_statement_step: "own_statement i s t \<Longrightarrow> server_step mv i s t"
  by (induction rule: own_statement.induct) (rule statement)

lemma runs_moves: "runs i s t \<Longrightarrow> thread_moves mv i s t"
  using mono_rtranclp [of "own_statement i" "server_step mv i"] own_statement_step by blast

lemma after_step:
  assumes "own_statement i s s1" and "\<exists>t r c'. runs i s1 t \<and> Q t r c'"
  shows "\<exists>t r c'. runs i s t \<and> Q t r c'"
  using assms by (meson converse_rtranclp_into_rtranclp)

lemma serving_runs:
  "server_inv s \<Longrightarrow> i < length (threads s) \<Longrightarrow> threads s ! i = (Serving q p, c) \<Longrightarrow>
     \<exists>t r c'. runs i s t \<and> threads t ! i = (Serving q (Return (Inr r)), c') \<and> response_ok r \<and> response_shape q r"
proof (induction p arbitrary: s c)
  case (Return x)
  from server_invD(3) [OF Return.prems(1,2)] obtain r where "x = Inr r" "response_ok r" "response_shape q r"
    unfolding Return.prems(3) by (auto simp: phase_ok_def)
  with Return.prems(3) show ?case by blast
next
  case (Read k)
  have st: "prog_step (busy s i) (Read k) (dbfile s) c = Some (k (view (dbfile s) c), dbfile s, after_read (dbfile s) c)"
    by simp
  note step = own_statement.intros [OF Read.prems(2,3) st]
  show ?case
    by (rule after_step [OF step], rule Read.IH [OF rangeI server_inv_step [OF Read.prems(1) own_statement_step [OF step]]]) (use Read.prems(2) in simp_all)
next
  case (Write u k)
  obtain r st' c' where st: "prog_step (busy s i) (Write u k) (dbfile s) c = Some (k r, st', c')"
  proof (cases "write_on (busy s i) (dbfile s) c")
    case (Some d)
    then show ?thesis by (intro that [of "fst (u d)"]) (simp add: case_prod_beta)
  qed (simp add: that)
  note step = own_statement.intros [OF Write.prems(2,3) st]
  show ?case
    by (rule after_step [OF step], rule Write.IH [OF rangeI server_inv_step [OF Write.prems(1) own_statement_step [OF step]]]) (use Write.prems(2) in simp_all)
next
  case (Commit p)
  have st: "prog_step (busy s i) (Commit p) (dbfile s) c = Some (p, commit (dbfile s) c, Auto)" by simp
  note step = own_statement.intros [OF Commit.prems(2,3) st]
  show ?case
    by (rule after_step [OF step], rule Commit.IH [OF server_inv_step [OF Commit.prems(1) own_statement_step [OF step]]]) (use Commit.prems(2) in simp_all)
qed

lemma serving_finishes:
  assumes "server_inv s" and "i < length (threads s)" and "threads s ! i = (Serving q p, c)"
  shows "\<exists>t r c'. thread_moves mv i s t \<and> threads t ! i = (Serving q (Return (Inr r)), c') \<and> response_ok r \<and> response_shape q r"
  using serving_runs [OF assms] runs_moves by blast

section \<open>A request that is not interleaved\<close>

lemma run_alone_runs:
  "i < length (threads s) \<Longrightarrow> threads s ! i = (Serving q p, c) \<Longrightarrow> run_alone p (busy s i) (dbfile s) c = (r, st, c') \<Longrightarrow>
     runs i s (s\<lparr>dbfile := st, threads := (threads s)[i := (Serving q (Return r), c')]\<rparr>)"
proof (induction p arbitrary: s c)
  case (Return x)
  then have "s\<lparr>dbfile := st, threads := (threads s)[i := (Serving q (Return r), c')]\<rparr> = s"
    by (cases s) (auto simp: list_update_same_conv)
  then show ?case by simp
next
  case (Read k)
  let ?s = "s\<lparr>dbfile := dbfile s, threads := (threads s)[i := (Serving q (k (view (dbfile s) c)), after_read (dbfile s) c)]\<rparr>"
  have "own_statement i s ?s" by (rule own_statement.intros [OF Read.prems(1,2)]) simp
  moreover have "runs i ?s (?s\<lparr>dbfile := st, threads := (threads ?s)[i := (Serving q (Return r), c')]\<rparr>)"
    using Read.prems by (intro Read.IH [OF rangeI]) (simp_all add: busy_upd)
  ultimately show ?case by (simp add: converse_rtranclp_into_rtranclp)
next
  case (Write u k)
  obtain x d' c1 where st1: "prog_step (busy s i) (Write u k) (dbfile s) c = Some (k x, dbfile s, c1)"
    and run: "run_alone (k x) (busy s i) (dbfile s) c1 = (r, st, c')"
    using Write.prems(3) by (cases "write_on (busy s i) (dbfile s) c") (auto simp: case_prod_beta)
  let ?s = "s\<lparr>dbfile := dbfile s, threads := (threads s)[i := (Serving q (k x), c1)]\<rparr>"
  have "own_statement i s ?s" by (rule own_statement.intros [OF Write.prems(1,2) st1])
  moreover have "runs i ?s (?s\<lparr>dbfile := st, threads := (threads ?s)[i := (Serving q (Return r), c')]\<rparr>)"
    using Write.prems(1) run by (intro Write.IH [OF rangeI]) (simp_all add: busy_upd)
  ultimately show ?case by (simp add: converse_rtranclp_into_rtranclp)
next
  case (Commit p)
  let ?s = "s\<lparr>dbfile := commit (dbfile s) c, threads := (threads s)[i := (Serving q p, Auto)]\<rparr>"
  have "own_statement i s ?s" by (rule own_statement.intros [OF Commit.prems(1,2)]) simp
  moreover have "runs i ?s (?s\<lparr>dbfile := st, threads := (threads ?s)[i := (Serving q (Return r), c')]\<rparr>)"
    using Commit.prems by (intro Commit.IH) (simp_all add: busy_upd)
  ultimately show ?case by (simp add: converse_rtranclp_into_rtranclp)
qed

lemma run_alone_moves:
  assumes "i < length (threads s)" and "threads s ! i = (Serving q p, c)" and "run_alone p (busy s i) (dbfile s) c = (r, st, c')"
  shows "thread_moves mv i s (s\<lparr>dbfile := st, threads := (threads s)[i := (Serving q (Return r), c')]\<rparr>)"
  by (rule runs_moves [OF run_alone_runs [OF assms]])

text \<open>Somewhere on a way on which a property is lost there is the step that loses it.\<close>

lemma losing_step:
  assumes "r\<^sup>*\<^sup>* s t" and "P s" and "\<not> P t"
  obtains u v where "r\<^sup>*\<^sup>* s u" and "r u v" and "P u" and "\<not> P v"
  using assms by (induction rule: rtranclp_induct) auto

section \<open>Which step removes a message\<close>

lemma removed_by_fetch:
  assumes "server_inv s" and "server_step mv i s t" and "m \<in> set (messages (committed (dbfile s)))"
    and "m \<notin> set (messages (committed (dbfile t)))"
  shows "\<exists>q pre suf. threads t ! i =
      (Serving q (Return (answer (build_response 2104 (pre @ encode_row (row_of m) @ suf)))), Auto) \<and> m_to m = take 16 q"
  using assms(2)
proof (cases rule: server_step.cases)
  case (statement q p c p' st c')
  have "committed st \<noteq> committed (dbfile s)" using assms(3,4) statement(1) by auto
  then obtain d where c: "p = Commit p'" "c = Writing d" "c' = Auto" "committed st = d"
    using statement(4) by (cases p; cases c) (auto simp: commit_def split: option.splits prod.splits)
  have ok: "conn_ok (dbfile s) (Serving q (Commit p'), Writing d)"
    using server_invD(2) [OF assms(1) statement(2)] statement(3) c by simp
  then have "handed q (committed (dbfile s)) d p'"
    using \<open>committed st \<noteq> _\<close> by (auto simp: conn_ok_def c(4))
  with assms(3,4) statement(1,2) c(3,4) show ?thesis by (auto simp: handed_def)
qed (use assms(3,4) in simp_all)

section \<open>Doomed programs\<close>

primrec fails :: "('a \<Rightarrow> bool) \<Rightarrow> 'a prog \<Rightarrow> bool" where
  "fails P (Return r) = P r"
| "fails P (Read k) = (\<forall>d. fails P (k d))"
| "fails P (Write u k) = fails P (k (Inl OperationalError))"
| "fails P (Commit p) = False"

definition doomed :: "(py_exn + bytes) prog \<Rightarrow> bool" where
  "doomed = fails (\<lambda>r. r = Inr error_bytes)"

lemma fails_outcome: "fails P p \<Longrightarrow> (\<And>r. P r \<Longrightarrow> fails Q (f r)) \<Longrightarrow> fails Q (outcome p f)"
  by (induction p) auto

lemma fails_andThen:
  assumes "fails P p" and "\<And>x. P (Inl x) \<Longrightarrow> Q (Inl x)" and "\<And>a. P (Inr a) \<Longrightarrow> fails Q (f a)"
  shows "fails Q (andThen p f)"
  unfolding andThen_def by (rule fails_outcome [OF assms(1)]) (auto split: sum.split intro: assms(2,3))

lemma fails_write_commit: "fails (\<lambda>r. r = Inl OperationalError) (write_commit u)"
  by (simp add: write_commit_def)

lemma doomed_request: "doomed (Request_handler_main e q)"
proof -
  let ?bad = "\<lambda>r :: py_exn + bytes. r = Inr error_bytes \<or> (\<exists>x. r = Inl x)"
  have reg: "fails ?bad (Register_handler e q)"
    by (auto simp: Register_handler_def Let_def Db_add_client_def split: sum.split intro!: fails_outcome [OF fails_write_commit])
  have seen: "fails ?bad (andThen (Db_update_client_last_seen cid t) f)" for cid t f
    unfolding Db_update_client_last_seen_def by (rule fails_andThen [OF fails_write_commit]) simp_all
  have "fails ?bad (Dispatch e code q)" for code
    using reg seen by (auto simp: Dispatch_def Let_def Db_client_exists_def andThen_simps client_exists_ok)
  then show ?thesis
    unfolding doomed_def Request_handler_main_def Let_def
    by (auto intro!: fails_outcome split: sum.split)
qed

section \<open>A thread that holds the lock while it waits for a request\<close>

definition locked_out :: "nat \<Rightarrow> server \<Rightarrow> bool" where
  "locked_out j s \<longleftrightarrow> j < length (threads s) \<and> is_writing (snd (threads s ! j))
     \<and> (\<forall>i<length (threads s). i \<noteq> j \<longrightarrow> \<not> is_writing (snd (threads s ! i))
          \<and> (\<forall>q p. fst (threads s ! i) = Serving q p \<longrightarrow> doomed p))"

text \<open>One statement of a doomed program that cannot write.\<close>

lemma doomed_step:
  assumes "doomed p" and "prog_step b p st c = Some (p', st', c')" and "write_on b st c = None"
  shows "doomed p'" and "st' = st" and "\<not> is_writing c'"
  using assms by (cases p; cases c; auto simp: doomed_def write_on_def after_read_def begun_def)+

lemma locked_out_step:
  assumes "locked_out j s" and "server_step mv i s t" and "i \<noteq> j"
  shows "locked_out j t" and "dbfile t = dbfile s"
proof -
  have j: "j < length (threads s)" "is_writing (snd (threads s ! j))" using assms(1) by (auto simp: locked_out_def)
  have b: "busy s i" using j assms(3) by (auto simp: busy_iff)
  have other: "\<not> is_writing (snd (threads s ! k))" "fst (threads s ! k) = Serving q p \<Longrightarrow> doomed p"
    if "k < length (threads s)" "k \<noteq> j" for k q p
    using assms(1) that by (auto simp: locked_out_def)
  show "locked_out j t"
    using assms(2)
  proof (cases rule: server_step.cases)
    case accept
    then show ?thesis using j other by (auto simp: locked_out_def nth_append less_Suc_eq)
  next
    case (receive c e q)
    then show ?thesis using j assms(3) other other(1) [OF receive(2) assms(3)]
      by (auto simp: locked_out_def nth_list_update doomed_request)
  next
    case (statement q p c p' st c')
    have "write_on (busy s i) (dbfile s) c = None"
      using other(1) [OF statement(2) assms(3)] statement(3) b by (cases c) (simp_all add: write_on_def)
    note d = doomed_step [OF other(2) [OF statement(2) assms(3)] statement(4) this]
    then show ?thesis using j assms(3) other statement by (auto simp: locked_out_def nth_list_update)
  next
    case (reply q r c)
    then show ?thesis using j assms(3) other other(1) [OF reply(2) assms(3)] by (auto simp: locked_out_def nth_list_update)
  next
    case (close ph c)
    then show ?thesis using j assms(3) other by (auto simp: locked_out_def nth_list_update)
  qed
  show "dbfile t = dbfile s"
    using assms(2)
  proof (cases rule: server_step.cases)
    case (statement q p c p' st c')
    have "write_on (busy s i) (dbfile s) c = None"
      using other(1) [OF statement(2) assms(3)] statement(3) b by (cases c) (simp_all add: write_on_def)
    from doomed_step(2) [OF other(2) [OF statement(2) assms(3)] statement(4) this] statement show ?thesis by simp
  qed simp_all
qed

lemma locked_out_run:
  assumes "(\<lambda>s t. \<exists>i. i \<noteq> j \<and> server_step mv i s t)\<^sup>*\<^sup>* s t" and "locked_out j s"
  shows "locked_out j t \<and> dbfile t = dbfile s"
  using assms by (induction rule: rtranclp_induct) (auto dest: locked_out_step)

section \<open>A transaction that is out of date\<close>

definition out_of_date :: "nat \<Rightarrow> server \<Rightarrow> bool" where
  "out_of_date i s \<longleftrightarrow> i < length (threads s) \<and>
     (fst (threads s ! i) = Ended \<or>
      (\<exists>d n. snd (threads s ! i) = Reading d n \<and> n < version (dbfile s)) \<and>
      (\<forall>q p. fst (threads s ! i) = Serving q p \<longrightarrow> doomed p))"

lemma version_step: "server_step mv i s t \<Longrightarrow> version (dbfile s) \<le> version (dbfile t)"
proof (erule server_step.cases)
  fix k s' q p c p' st c'
  assume *: "s = s'" "t = s'\<lparr>dbfile := st, threads := (threads s')[k := (Serving q p', c')]\<rparr>"
    and st: "prog_step (busy s' k) p (dbfile s') c = Some (p', st, c')"
  then show "version (dbfile s) \<le> version (dbfile t)"
    by (cases p; cases c) (auto simp: commit_def split: option.splits prod.splits)
qed simp_all

lemma out_of_date_step:
  assumes "out_of_date i s" and "server_step mv k s t"
  shows "out_of_date i t"
proof (cases "k = i")
  case False
  then have "i \<noteq> k" by blast
  with step_other [OF assms(2) _ this] version_step [OF assms(2)] assms(1) show ?thesis
    by (auto simp: out_of_date_def)
next
  case True
  have i: "i < length (threads s)" using assms(1) by (simp add: out_of_date_def)
  show ?thesis
    using assms(2)
  proof (cases rule: server_step.cases)
    case accept
    then show ?thesis using i True by simp
  next
    case (receive c e q)
    then show ?thesis using assms(1) True doomed_request by (auto simp: out_of_date_def)
  next
    case (statement q p c p' st c')
    then obtain d n where c: "c = Reading d n" "n < version (dbfile s)" and p: "doomed p"
      using assms(1) True by (auto simp: out_of_date_def)
    have "write_on (busy s k) (dbfile s) c = None" using c by (simp add: write_on_def)
    note d = doomed_step [OF p statement(4) this]
    have "c' = c" using statement(4) p c by (cases p) (auto simp: after_read_def write_on_def begun_def doomed_def)
    with d c statement True i show ?thesis by (auto simp: out_of_date_def)
  next
    case (reply q r c)
    then show ?thesis using assms(1) True by (auto simp: out_of_date_def)
  next
    case (close ph c)
    then show ?thesis using True by (auto simp: out_of_date_def)
  qed
qed

lemma out_of_date_run:
  assumes "server_moves mv s t" and "out_of_date i s"
  shows "out_of_date i t"
  using assms by (induction rule: rtranclp_induct) (auto dest: out_of_date_step)

end
