(* ===== verification/Server_Incidents.thy ===== *)
theory Server_Incidents
  imports Server_Starve
begin

text \<open>
  How the two starving states come about: by a registration under a name that is taken, and by
  a write that waited for the lock in vain, followed by a read and another thread's commit.
\<close>

section \<open>The first statements of a request\<close>

lemma Request_known:
  assumes "length a = 16" and "code \<noteq> 700" and "code < 2 ^ 16" and "length p < 2 ^ 32"
  obtains rest where "Request_handler_main e (request_bytes a code p) =
    Read (\<lambda>d. if a \<in> c_id ` set (clients d)
              then Write (\<lambda>d. no_rowid (update_client_last_seen True a (now e) d))
                     (\<lambda>r. case r of Inl x \<Rightarrow> Return (Inr error_bytes) | Inr i \<Rightarrow> Commit rest)
              else Return (Inr error_bytes))"
proof -
  let ?q = "request_bytes a code p"
  let ?g = "\<lambda>r. case r of Inl (x :: py_exn) \<Rightarrow> Return (Inr error_bytes) | Inr b \<Rightarrow> Return (Inr b)"
  define K where "K = (if code = 701 then Clients_list_handler ?q else if code = 702 then Public_key_handler ?q
     else if code = 704 then Waiting_messages_handler e ?q else if code = 703 then Send_message_handler ?q
     else Return build_error_response)"
  have hd: "Request_handler_main e ?q = outcome (Dispatch e code ?q) ?g"
    using assms by (simp add: Request_handler_main_def request_bytes_fields from_le_bytes)
  have "Dispatch e code ?q = andThen (Db_client_exists a) (\<lambda>found. if found = None then Return build_error_response
      else andThen (Db_update_client_last_seen a (now e)) (\<lambda>_. K))"
    unfolding K_def using assms by (simp add: Dispatch_def request_bytes_fields split del: if_split)
  then have "Request_handler_main e ?q =
    Read (\<lambda>d. if a \<in> c_id ` set (clients d)
              then outcome (write_commit (\<lambda>d. no_rowid (update_client_last_seen True a (now e) d)))
                     (\<lambda>r. case r of Inl x \<Rightarrow> Return (Inr error_bytes) | Inr i \<Rightarrow> outcome K ?g)
              else Return (Inr error_bytes))"
    unfolding hd by (auto simp: Db_client_exists_def client_exists_ok outcome_andThen Db_update_client_last_seen_def cong: sum.case_cong)
  then show ?thesis
    by (intro that [of "outcome K ?g"]) (auto simp: write_commit_def intro!: ext split: sum.split)
qed

lemma Register_taken_step:
  assumes cid: "length cid = 16" and nm: "name_ok nm" and pk: "length pk = 160"
    and taken: "nm \<in> c_name ` set (clients (committed st))"
  shows "prog_step False (Request_handler_main e (request_bytes cid 700 (padded_name nm @ pk))) st Auto =
    Some (Return (Inr error_bytes), st, Writing (committed st))"
proof -
  let ?p = "padded_name nm @ pk"
  have len: "length (request_bytes cid 700 ?p) = 438"
    using cid pk length_padded_name [OF nm] by (simp add: request_bytes_fields)
  have s1: "bslice 23 255 (request_bytes cid 700 ?p) = padded_name nm"
    and s2: "bslice 278 160 (request_bytes cid 700 ?p) = pk"
    using cid pk length_padded_name [OF nm] by (simp_all add: bslice_request bslice_append)
  have ne: "nm \<noteq> []" using nm by (simp add: name_ok_def)
  have small: "length ?p < 2 ^ 32" using pk length_padded_name [OF nm] by simp
  have taken': "no_rowid (add_client True (token e) nm pk (now e) (committed st)) = (Inl IntegrityError, committed st)"
    using taken by (simp add: no_rowid_def add_client_def)
  show ?thesis
    using cid small ne len taken'
    by (simp add: Request_handler_main_def request_bytes_fields from_le_bytes Dispatch_def Register_handler_def s1 s2
        takeWhile_padded [OF nm] decode_ascii_name [OF nm] Db_add_client_def write_commit_def write_on_def after_write_def)
qed

section \<open>A registration under a taken name\<close>

lemma taken_name_run:
  fixes cid nm pk :: bytes
  assumes j: "j < length (threads s)" "threads s ! j = (Awaiting, Auto)"
    and others: "\<forall>i<length (threads s). i \<noteq> j \<longrightarrow> \<not> is_writing (snd (threads s ! i))
          \<and> (\<forall>q p. fst (threads s ! i) = Serving q p \<longrightarrow> doomed p)"
    and e: "env_ok e" "max_vars e = mv"
    and q: "length cid = 16" "name_ok nm" "length pk = 160" "nm \<in> c_name ` set (clients (committed (dbfile s)))"
  obtains u t where "thread_moves mv j s u" and "server_step mv j u t"
    and "threads u ! j = (Serving (request_bytes cid 700 (padded_name nm @ pk)) (Return (Inr error_bytes)), Writing (committed (dbfile s)))"
    and "locked_out j t" and "dbfile t = dbfile s"
    and "threads t ! j = (Awaiting, Writing (committed (dbfile s)))"
proof -
  let ?q = "request_bytes cid 700 (padded_name nm @ pk)" and ?w = "Writing (committed (dbfile s))"
  define s1 where "s1 = s\<lparr>threads := (threads s)[j := (Serving ?q (Request_handler_main e ?q), Auto)]\<rparr>"
  define s2 where "s2 = s1\<lparr>dbfile := dbfile s, threads := (threads s1)[j := (Serving ?q (Return (Inr error_bytes)), ?w)]\<rparr>"
  define t where "t = s2\<lparr>threads := (threads s2)[j := (Awaiting, ?w)]\<rparr>"
  have "server_step mv j s s1" unfolding s1_def using j e by (rule receive)
  moreover have "server_step mv j s1 s2"
  proof -
    have "\<not> busy s1 j" using others by (auto simp: busy_iff s1_def)
    then have "prog_step (busy s1 j) (Request_handler_main e ?q) (dbfile s1) Auto = Some (Return (Inr error_bytes), dbfile s, ?w)"
      using Register_taken_step [of cid nm pk "dbfile s" e] q by (simp add: s1_def)
    then show ?thesis unfolding s2_def using j by (intro statement) (simp_all add: s1_def)
  qed
  ultimately have "thread_moves mv j s s2" by (meson converse_rtranclp_into_rtranclp rtranclp.rtrancl_refl)
  moreover have "server_step mv j s2 t"
    unfolding t_def using j by (intro reply) (simp_all add: s2_def s1_def)
  moreover have "locked_out j t" using j others by (simp add: locked_out_def t_def s2_def s1_def)
  ultimately show ?thesis using j by (intro that [of s2 t]) (simp_all add: t_def s2_def s1_def)
qed

section \<open>A transaction that falls behind\<close>

lemma steps_trans: "server_step mv i s t \<Longrightarrow> server_moves mv t u \<Longrightarrow> server_moves mv s u"
  by (rule converse_rtranclp_into_rtranclp [where r = "\<lambda>s t. \<exists>i. server_step mv i s t", OF exI])

lemma falls_behind:
  assumes a: "length a = 16" "a \<in> c_id ` set (clients d)" and b: "length b = 16" "b \<in> c_id ` set (clients d)"
    and e: "env_ok ea" "max_vars ea = mv" "env_ok eb" "max_vars eb = mv"
    and changes: "touched (now eb) b d \<noteq> d"
  shows "\<exists>t. server_moves mv \<lparr>dbfile = \<lparr>committed = d, version = n\<rparr>, threads = []\<rparr> t
    \<and> out_of_date 0 t \<and> fst (threads t ! 0) \<noteq> Ended"
proof -
  let ?st = "\<lparr>committed = d, version = n\<rparr>" and ?d = "touched (now eb) b d"
  let ?qa = "request_bytes a 701 []" and ?qb = "request_bytes b 701 []"
  let ?pa = "Request_handler_main ea ?qa" and ?pb = "Request_handler_main eb ?qb"
  let ?ua = "\<lambda>d. no_rowid (update_client_last_seen True a (now ea) d)" and ?ub = "\<lambda>d. no_rowid (update_client_last_seen True b (now eb) d)"
  obtain ra where ra: "?pa = Read (\<lambda>d. if a \<in> c_id ` set (clients d)
      then Write ?ua (\<lambda>r. case r of Inl x \<Rightarrow> Return (Inr error_bytes) | Inr i \<Rightarrow> Commit ra) else Return (Inr error_bytes))"
    by (rule Request_known [OF a(1), of 701 "[]" ea]) simp_all
  obtain rb where rb: "?pb = Read (\<lambda>d. if b \<in> c_id ` set (clients d)
      then Write ?ub (\<lambda>r. case r of Inl x \<Rightarrow> Return (Inr error_bytes) | Inr i \<Rightarrow> Commit rb) else Return (Inr error_bytes))"
    by (rule Request_known [OF b(1), of 701 "[]" eb]) simp_all
  let ?wa = "Write ?ua (\<lambda>r. case r of Inl x \<Rightarrow> Return (Inr error_bytes) | Inr i \<Rightarrow> Commit ra)"
  let ?wb = "Write ?ub (\<lambda>r. case r of Inl x \<Rightarrow> Return (Inr error_bytes) | Inr i \<Rightarrow> Commit rb)"
  let ?S = "\<lambda>st x y. \<lparr>dbfile = st, threads = [x, y]\<rparr> :: server"
  have upd: "?ub d = (Inr 0, ?d)" by (simp add: touched_eq no_rowid_def)
  have bz: "busy (?S st x y) 0 = is_writing (snd y)" "busy (?S st x y) (Suc 0) = is_writing (snd x)" for st x y
    by (auto simp: busy_iff less_Suc_eq)
  have pa: "prog_step v ?pa ?st c = Some (?wa, ?st, after_read ?st c)" if "view ?st c = d" for v c
    using a(2) that by (simp add: ra)
  have pb: "prog_step v ?pb ?st Auto = Some (?wb, ?st, Auto)" for v
    using b(2) by (simp add: rb view_def after_read_def)
  let ?A = "(Awaiting, Auto) :: phase \<times> conn"
  let ?B = "(Serving ?qb (Commit rb), Writing ?d)"
  have moves: "server_step mv 0 \<lparr>dbfile = ?st, threads = []\<rparr> \<lparr>dbfile = ?st, threads = [?A]\<rparr>"
    "server_step mv (Suc 0) \<lparr>dbfile = ?st, threads = [?A]\<rparr> (?S ?st ?A ?A)"
    "server_step mv 0 (?S ?st ?A ?A) (?S ?st (Serving ?qa ?pa, Auto) ?A)"
    "server_step mv 0 (?S ?st (Serving ?qa ?pa, Auto) ?A) (?S ?st (Serving ?qa ?wa, Auto) ?A)"
    "server_step mv (Suc 0) (?S ?st (Serving ?qa ?wa, Auto) ?A) (?S ?st (Serving ?qa ?wa, Auto) (Serving ?qb ?pb, Auto))"
    "server_step mv (Suc 0) (?S ?st (Serving ?qa ?wa, Auto) (Serving ?qb ?pb, Auto)) (?S ?st (Serving ?qa ?wa, Auto) (Serving ?qb ?wb, Auto))"
    "server_step mv (Suc 0) (?S ?st (Serving ?qa ?wa, Auto) (Serving ?qb ?wb, Auto)) (?S ?st (Serving ?qa ?wa, Auto) ?B)"
    "server_step mv 0 (?S ?st (Serving ?qa ?wa, Auto) ?B) (?S ?st (Serving ?qa (Return (Inr error_bytes)), Begun) ?B)"
    "server_step mv 0 (?S ?st (Serving ?qa (Return (Inr error_bytes)), Begun) ?B) (?S ?st (Awaiting, Begun) ?B)"
    "server_step mv 0 (?S ?st (Awaiting, Begun) ?B) (?S ?st (Serving ?qa ?pa, Begun) ?B)"
    "server_step mv 0 (?S ?st (Serving ?qa ?pa, Begun) ?B) (?S ?st (Serving ?qa ?wa, Reading d n) ?B)"
    "server_step mv (Suc 0) (?S ?st (Serving ?qa ?wa, Reading d n) ?B)
       (?S \<lparr>committed = ?d, version = Suc n\<rparr> (Serving ?qa ?wa, Reading d n) (Serving ?qb rb, Auto))"
    using accept [of mv "\<lparr>dbfile = ?st, threads = []\<rparr>"] accept [of mv "\<lparr>dbfile = ?st, threads = [?A]\<rparr>"]
      receive [of 0 "?S ?st ?A ?A" Auto ea mv ?qa]
      statement [of 0 "?S ?st (Serving ?qa ?pa, Auto) ?A" ?qa ?pa Auto ?wa ?st Auto mv]
      receive [of "Suc 0" "?S ?st (Serving ?qa ?wa, Auto) ?A" Auto eb mv ?qb]
      statement [of "Suc 0" "?S ?st (Serving ?qa ?wa, Auto) (Serving ?qb ?pb, Auto)" ?qb ?pb Auto ?wb ?st Auto mv]
      statement [of "Suc 0" "?S ?st (Serving ?qa ?wa, Auto) (Serving ?qb ?wb, Auto)" ?qb ?wb Auto "Commit rb" ?st "Writing ?d" mv]
      statement [of 0 "?S ?st (Serving ?qa ?wa, Auto) ?B" ?qa ?wa Auto "Return (Inr error_bytes)" ?st Begun mv]
      reply [of 0 "?S ?st (Serving ?qa (Return (Inr error_bytes)), Begun) ?B" ?qa error_bytes Begun mv]
      receive [of 0 "?S ?st (Awaiting, Begun) ?B" Begun ea mv ?qa]
      statement [of 0 "?S ?st (Serving ?qa ?pa, Begun) ?B" ?qa ?pa Begun ?wa ?st "Reading d n" mv]
      statement [of "Suc 0" "?S ?st (Serving ?qa ?wa, Reading d n) ?B" ?qb "Commit rb" "Writing ?d" rb "\<lparr>committed = ?d, version = Suc n\<rparr>" Auto mv]
      e changes
    by (simp_all add: pa pb bz upd view_def after_read_def write_on_def after_write_def begun_def commit_def)
  let ?t = "?S \<lparr>committed = ?d, version = Suc n\<rparr> (Serving ?qa ?wa, Reading d n) (Serving ?qb rb, Auto)"
  have "server_moves mv \<lparr>dbfile = ?st, threads = []\<rparr> ?t"
    by (rule steps_trans [OF moves(1)], rule steps_trans [OF moves(2)], rule steps_trans [OF moves(3)],
        rule steps_trans [OF moves(4)], rule steps_trans [OF moves(5)], rule steps_trans [OF moves(6)],
        rule steps_trans [OF moves(7)], rule steps_trans [OF moves(8)], rule steps_trans [OF moves(9)],
        rule steps_trans [OF moves(10)], rule steps_trans [OF moves(11)], rule steps_trans [OF moves(12)]) simp
  moreover have "out_of_date 0 ?t" by (simp add: out_of_date_def doomed_def)
  ultimately show ?thesis by (intro exI [of _ ?t]) simp
qed

end
