(* ===== verification/Server_Thread_Properties.thy ===== *)
theory Server_Thread_Properties
  imports Sample Server_Incidents
begin

text \<open>
  The properties of the server with all its threads, statement by statement. A run starts with
  the tables of the file and no connection.
\<close>

definition server_on :: "db \<Rightarrow> nat \<Rightarrow> server" where
  "server_on d n = \<lparr>dbfile = \<lparr>committed = d, version = n\<rparr>, threads = []\<rparr>"

lemma server_inv_on: "db_ok d \<Longrightarrow> server_inv (server_on d n)"
  by (simp add: server_on_def server_inv_def)

lemma server_inv_reach: "db_ok d \<Longrightarrow> server_moves mv (server_on d n) s \<Longrightarrow> server_inv s"
  using srv.reach_inv server_inv_on by blast

lemma first_connection: "server_step mv 0 (server_on d n) \<lparr>dbfile = \<lparr>committed = d, version = n\<rparr>, threads = [(Awaiting, Auto)]\<rparr>"
  using accept [of mv "server_on d n"] by (simp add: server_on_def)

text \<open>C15: in every state that the server's threads reach, in any order of their SQL statements and
  whatever the requests, the committed tables are well-formed and at most one thread has
  uncommitted changes.\<close>

lemma threads_keep_tables:
  assumes "db_ok d" and "server_moves mv (server_on d n) s"
  shows "db_ok (committed (dbfile s))
    \<and> (\<forall>i j. i < length (threads s) \<and> j < length (threads s) \<and> is_writing (snd (threads s ! i)) \<and> is_writing (snd (threads s ! j)) \<longrightarrow> i = j)"
proof -
  note inv = server_inv_reach [OF assms]
  show ?thesis using server_invD(1) [OF inv] server_invD(4) [OF inv] by (fastforce simp: busy_iff)
qed

lemma threads_keep_tables_witness:
  "db_ok (committed (dbfile \<lparr>dbfile = \<lparr>committed = sample_db, version = 3\<rparr>, threads = [(Awaiting, Auto)]\<rparr>))"
  using threads_keep_tables [OF db_ok_sample, of 7 3 "\<lparr>dbfile = \<lparr>committed = sample_db, version = 3\<rparr>, threads = [(Awaiting, Auto)]\<rparr>"]
    steps_trans [OF first_connection rtranclp.rtrancl_refl] by blast

text \<open>C16: a thread that has read a request can always bring it to a well-formed response by its own
  statements, whatever the other threads have done before and hold at the moment, and the response has
  one of the shapes the client's handlers accept for that request.\<close>

lemma every_thread_answers:
  assumes "db_ok d" and "server_moves mv (server_on d n) s" and "i < length (threads s)" and "threads s ! i = (Serving q p, c)"
  shows "\<exists>t r c'. (server_step mv i)\<^sup>*\<^sup>* s t \<and> threads t ! i = (Serving q (Return (Inr r)), c')
    \<and> response_ok r \<and> response_shape q r"
  by (rule serving_finishes [OF server_inv_reach [OF assms(1,2)] assms(3,4)])

lemma every_thread_answers_witness:
  "\<exists>s t r c'. server_moves 7 (server_on sample_db 0) s \<and> (server_step 7 0)\<^sup>*\<^sup>* s t
     \<and> threads t ! 0 = (Serving (request_bytes bob 704 []) (Return (Inr r)), c') \<and> response_ok r"
proof -
  let ?e = "sample_env\<lparr>max_vars := 7\<rparr>" and ?q = "request_bytes bob 704 []"
  let ?s = "\<lparr>dbfile = \<lparr>committed = sample_db, version = 0\<rparr>, threads = [(Awaiting, Auto)]\<rparr>"
  let ?u = "\<lparr>dbfile = \<lparr>committed = sample_db, version = 0\<rparr>, threads = [(Serving ?q (Request_handler_main ?e ?q), Auto)]\<rparr>"
  have "server_step 7 0 ?s ?u"
    using receive [of 0 ?s Auto ?e 7 ?q] sample_env_facts by (simp add: env_ok_def)
  then have run: "server_moves 7 (server_on sample_db 0) ?u"
    by (intro steps_trans [OF first_connection] steps_trans [OF _ rtranclp.rtrancl_refl])
  show ?thesis
    using every_thread_answers [OF db_ok_sample run, of 0 ?q "Request_handler_main ?e ?q" Auto] run by auto
qed

text \<open>C17: a message leaves the committed tables only by the commit of a fetch of its recipient whose
  response, which is then sent next, contains the message; no other interleaving loses one.\<close>

lemma message_removed_by_fetch:
  assumes "db_ok d" and "server_moves mv (server_on d n) s" and "server_step mv i s t"
    and "m \<in> set (messages (committed (dbfile s)))" and "m \<notin> set (messages (committed (dbfile t)))"
  shows "\<exists>q pre suf. threads t ! i =
      (Serving q (Return (answer (build_response 2104 (pre @ encode_row (row_of m) @ suf)))), Auto) \<and> m_to m = take 16 q"
  by (rule removed_by_fetch [OF server_inv_reach [OF assms(1,2)] assms(3-5)])

definition letter :: message_row where
  "letter = \<lparr>m_id = 7, m_to = bob, m_from = alice, m_type = 3, m_content = [1]\<rparr>"

definition letter_db :: db where
  "letter_db = sample_db\<lparr>messages := [letter], seq := 7\<rparr>"

lemma db_ok_letter: "db_ok letter_db"
  using db_ok_sample by (simp add: letter_db_def letter_def db_ok_def message_row_ok_def sample_clients)

lemma letter_fetched: "fetch_rows letter_db bob = [(7, alice, 3, [1])]"
  by (simp add: fetch_rows_def letter_db_def letter_def)

text \<open>A thread that serves a request alone.\<close>

lemma serves_alone:
  assumes "i < length (threads s)" and "threads s ! i = (Awaiting, Auto)" and "\<not> busy s i" and "env_ok e" and "max_vars e = mv"
  obtains t c where "(server_step mv i)\<^sup>*\<^sup>* s t"
    and "threads t ! i = (Serving q (Return (fst (request_handler_main (all_succeed e) q (committed (dbfile s))))), c)"
    and "committed (dbfile t) = snd (request_handler_main (all_succeed e) q (committed (dbfile s)))"
proof -
  let ?p = "Request_handler_main e q"
  let ?s = "s\<lparr>threads := (threads s)[i := (Serving q ?p, Auto)]\<rparr>"
  obtain r st c where run: "run_alone ?p False (dbfile s) Auto = (r, st, c)" by (cases "run_alone ?p False (dbfile s) Auto")
  have b: "busy ?s i = False" using assms(3) by (simp add: busy_upd)
  have "(server_step mv i)\<^sup>*\<^sup>* ?s (?s\<lparr>dbfile := st, threads := (threads ?s)[i := (Serving q (Return r), c)]\<rparr>)"
    using assms(1) run b by (intro run_alone_moves [where p = ?p]) simp_all
  with receive [OF assms(1,2,4,5), of q] have
    "(server_step mv i)\<^sup>*\<^sup>* s (?s\<lparr>dbfile := st, threads := (threads ?s)[i := (Serving q (Return r), c)]\<rparr>)"
    by (rule converse_rtranclp_into_rtranclp)
  then show ?thesis
    using request_alone(1) [OF clean_Auto run] assms(1)
    by (intro that [of "s\<lparr>dbfile := st, threads := (threads s)[i := (Serving q (Return r), c)]\<rparr>" c]) simp_all
qed

definition one_thread :: "db \<Rightarrow> server" where
  "one_thread d = \<lparr>dbfile = \<lparr>committed = d, version = 0\<rparr>, threads = [(Awaiting, Auto)]\<rparr>"

lemma one_thread_reached: "server_moves mv (server_on d 0) (one_thread d)"
  unfolding one_thread_def by (rule steps_trans [OF first_connection rtranclp.rtrancl_refl])

lemma one_thread_free: "0 < length (threads (one_thread d))" "threads (one_thread d) ! 0 = (Awaiting, Auto)" "\<not> busy (one_thread d) 0"
  "committed (dbfile (one_thread d)) = d"
  by (simp_all add: one_thread_def busy_iff)

lemma message_removed_by_fetch_witness:
  "\<exists>(t :: server) q pre suf. threads t ! 0 =
      (Serving q (Return (answer (build_response 2104 (pre @ encode_row (row_of letter) @ suf)))), Auto) \<and> m_to letter = take 16 q"
proof -
  let ?q = "request_bytes bob 704 []"
  obtain t c where t: "(server_step 32766 0)\<^sup>*\<^sup>* (one_thread letter_db) t"
      "committed (dbfile t) = snd (request_handler_main (all_succeed sample_env) ?q letter_db)"
    by (rule serves_alone [OF one_thread_free(1-3) sample_env_facts(1,3), of letter_db ?q]) (simp add: one_thread_free(4))
  have e: "db_ready (all_succeed sample_env)" "bob \<in> c_id ` set (clients letter_db)" "fits (fetch_rows letter_db bob)"
      "length (fetch_rows letter_db bob) \<le> max_vars (all_succeed sample_env)"
    by (simp_all add: db_ready_def all_succeed_def letter_db_def sample_clients letter_fetched [unfolded letter_db_def] fits_def
        row_ok_def length_encode_row sample_env_facts)
  have "letter \<notin> set (messages (committed (dbfile t)))"
    unfolding t(2) waiting_run [OF sample_ids(2) e] by (simp add: letter_fetched drop_rows_alt letter_def)
  note gone = this
  have here: "letter \<in> set (messages (committed (dbfile (one_thread letter_db))))"
    by (simp add: one_thread_free(4) letter_db_def)
  obtain u v where uv: "(server_step 32766 0)\<^sup>*\<^sup>* (one_thread letter_db) u" "server_step 32766 0 u v"
      "letter \<in> set (messages (committed (dbfile u)))" "letter \<notin> set (messages (committed (dbfile v)))"
    by (rule losing_step [OF t(1), where P = "\<lambda>s. letter \<in> set (messages (committed (dbfile s)))", OF here gone])
  have "server_moves 32766 (server_on letter_db 0) u"
    using one_thread_reached thread_moves_server [OF uv(1)] by (rule rtranclp_trans)
  from message_removed_by_fetch [OF db_ok_letter this uv(2-4)] show ?thesis by (rule exI [of _ v])
qed

text \<open>C18: a request that no other thread interleaves, on a connection without a transaction and while
  nobody holds the write lock, is answered as the dispatcher of \<open>Server_Requests\<close> answers it
  when all statements succeed, and commits the tables it leaves.\<close>

lemma uninterrupted_request:
  assumes "i < length (threads s)" and "threads s ! i = (Awaiting, Auto)" and "\<not> busy s i" and "env_ok e" and "max_vars e = mv"
  shows "\<exists>t c. (server_step mv i)\<^sup>*\<^sup>* s t
    \<and> threads t ! i = (Serving q (Return (fst (request_handler_main (all_succeed e) q (committed (dbfile s))))), c)
    \<and> committed (dbfile t) = snd (request_handler_main (all_succeed e) q (committed (dbfile s)))"
  by (rule serves_alone [OF assms, of q]) blast

lemma uninterrupted_request_witness:
  "\<exists>t c. (server_step 32766 0)\<^sup>*\<^sup>* (one_thread sample_db) t
    \<and> threads t ! 0 = (Serving [1, 2] (Return (fst (request_handler_main (all_succeed sample_env) [1, 2] sample_db))), c)
    \<and> committed (dbfile t) = snd (request_handler_main (all_succeed sample_env) [1, 2] sample_db)"
  using uninterrupted_request [OF one_thread_free(1-3) sample_env_facts(1,3), of sample_db "[1, 2]"] by (simp add: one_thread_free(4))

section \<open>Threads that starve\<close>

text \<open>C19: a registration under a taken name leaves its thread, which then waits for the next request,
  with the write lock: until that thread moves again, every other request of any client gets
  the general error and nothing is stored.\<close>

lemma taken_name_locks_database:
  assumes "j < length (threads s)" and "threads s ! j = (Awaiting, Auto)"
    and "\<forall>i<length (threads s). i \<noteq> j \<longrightarrow> \<not> is_writing (snd (threads s ! i)) \<and> (\<forall>q p. fst (threads s ! i) \<noteq> Serving q p)"
    and "env_ok e" and "max_vars e = mv"
    and "length cid = 16" and "name_ok nm" and "length pk = 160" and "nm \<in> c_name ` set (clients (committed (dbfile s)))"
  shows "\<exists>v t. (server_step mv j)\<^sup>*\<^sup>* s v \<and> server_step mv j v t
    \<and> threads v ! j = (Serving (request_bytes cid 700 (padded_name nm @ pk)) (Return (Inr error_bytes)), Writing (committed (dbfile s)))
    \<and> threads t ! j = (Awaiting, Writing (committed (dbfile s)))
    \<and> (\<forall>u. (\<lambda>x y. \<exists>i. i \<noteq> j \<and> server_step mv i x y)\<^sup>*\<^sup>* t u \<longrightarrow> dbfile u = dbfile s
          \<and> (\<forall>i q r c. i < length (threads u) \<longrightarrow> i \<noteq> j \<longrightarrow> threads u ! i = (Serving q (Return r), c) \<longrightarrow> r = Inr error_bytes))"
proof -
  have others: "\<forall>i<length (threads s). i \<noteq> j \<longrightarrow> \<not> is_writing (snd (threads s ! i))
      \<and> (\<forall>q p. fst (threads s ! i) = Serving q p \<longrightarrow> doomed p)"
    using assms(3) by blast
  obtain v t where v: "(server_step mv j)\<^sup>*\<^sup>* s v" "server_step mv j v t"
      "threads v ! j = (Serving (request_bytes cid 700 (padded_name nm @ pk)) (Return (Inr error_bytes)), Writing (committed (dbfile s)))"
    and t: "locked_out j t" "dbfile t = dbfile s"
      "threads t ! j = (Awaiting, Writing (committed (dbfile s)))"
    by (rule taken_name_run [OF assms(1,2) others assms(4-9)])
  have "dbfile u = dbfile s \<and> (\<forall>i q r c. i < length (threads u) \<longrightarrow> i \<noteq> j \<longrightarrow> threads u ! i = (Serving q (Return r), c) \<longrightarrow> r = Inr error_bytes)"
    if "(\<lambda>x y. \<exists>i. i \<noteq> j \<and> server_step mv i x y)\<^sup>*\<^sup>* t u" for u
    using locked_out_run [OF that t(1)] t(2) by (auto simp: locked_out_def doomed_def)
  with v t(3) show ?thesis by blast
qed

lemma taken_name_locks_database_witness:
  "\<exists>t. threads t ! 0 = (Awaiting, Writing sample_db)
    \<and> (\<forall>u. (\<lambda>x y. \<exists>i. i \<noteq> 0 \<and> server_step 32766 i x y)\<^sup>*\<^sup>* t u \<longrightarrow> committed (dbfile u) = sample_db)"
proof -
  have nm: "name_ok bob_name" by (simp add: name_ok_def bob_name_def lit_Cons)
  have len: "length (replicate 16 0 :: bytes) = 16" "length alice_pub = 160" by simp_all
  have in_db: "bob_name \<in> c_name ` set (clients (committed (dbfile (one_thread sample_db))))"
    by (simp add: one_thread_free(4) sample_clients)
  show ?thesis
    using taken_name_locks_database [OF one_thread_free(1,2) _ sample_env_facts(1,3) len(1) nm len(2) in_db]
    by (auto simp: one_thread_def)
qed

text \<open>C20: when two registered clients are connected, there is a run after which the thread of one of
  them answers every later request with the general error, for as long as it lives: a write of
  it waited for the lock in vain, which left a transaction open that is never ended.\<close>

lemma timeout_can_break_connection:
  assumes "length a = 16" and "a \<in> c_id ` set (clients d)" and "length b = 16" and "b \<in> c_id ` set (clients d)"
    and "env_ok ea" and "max_vars ea = mv" and "env_ok eb" and "max_vars eb = mv" and "touched (now eb) b d \<noteq> d"
  shows "\<exists>t. server_moves mv (server_on d n) t \<and> fst (threads t ! 0) \<noteq> Ended
    \<and> (\<forall>u q r c. server_moves mv t u \<longrightarrow> threads u ! 0 = (Serving q (Return r), c) \<longrightarrow> r = Inr error_bytes)"
proof -
  obtain t where t: "server_moves mv (server_on d n) t" "out_of_date 0 t" "fst (threads t ! 0) \<noteq> Ended"
    using falls_behind [OF assms, of n] by (auto simp: server_on_def)
  have "r = Inr error_bytes" if "server_moves mv t u" "threads u ! 0 = (Serving q (Return r), c)" for u q r c
    using out_of_date_run [OF that(1) t(2)] that(2) by (auto simp: out_of_date_def doomed_def)
  with t show ?thesis by blast
qed

lemma timeout_can_break_connection_witness:
  "\<exists>t. server_moves 32766 (server_on sample_db 0) t \<and> fst (threads t ! 0) \<noteq> Ended
    \<and> (\<forall>u q r c. server_moves 32766 t u \<longrightarrow> threads u ! 0 = (Serving q (Return r), c) \<longrightarrow> r = Inr error_bytes)"
proof (rule timeout_can_break_connection [of alice _ bob sample_env _ sample_env])
  have "c_last_seen ` set (clients (touched (now sample_env) bob sample_db)) \<noteq> c_last_seen ` set (clients sample_db)"
    by (simp add: touched_def update_client_last_seen_def sample_clients sample_env_facts)
  then show "touched (now sample_env) bob sample_db \<noteq> sample_db" by metis
qed (simp_all add: sample_clients sample_env_facts)

end
