(* ===== verification/Client_Properties.thy ===== *)
theory Client_Properties
  imports Sample
begin

text \<open>
  The properties of the client alone: the response handlers against the wire format, what
  every action and response keeps, the prompts, the files, the connection and the pull
  thread. Each stands after its claim and, where it has hypotheses, before an instance.
\<close>

section \<open>Responses and actions\<close>

text \<open>The loop over waiting messages handles exactly the records the wire format defines, in
  order, and throws exactly when the buffer ends inside a record, after the whole records
  before it were handled.\<close>

lemma waiting_messages_follow_format:
  assumes "7 < length data" and "RSAPrivateWrapper_load cr (privateKey (ctx w)) = Inr sk"
    and "decode_all (length data) dec_record (drop 7 data) = (rs, rest)"
  shows "responseWaitingMessages cr data w = (cut_result rest, showAll cr sk rs w)"
proof -
  have "waitingMessages_loop cr sk data 7 w = (cut_result rest, showAll cr sk rs w)"
    by (rule waitingMessages_loop_refines [OF _ _ assms(3)]) (use assms(1) in simp_all)
  with assms(1,2) show ?thesis by (simp add: responseWaitingMessages_def)
qed

lemma waiting_messages_follow_format_witness:
  "responseWaitingMessages toy (replicate 7 0 @ encode_row (5, alice, 1, []) @ [1, 2]) bob_world
     = (cut_result [1, 2], showAll toy 66 [row_view (5, alice, 1, [])] bob_world)"
proof (rule waiting_messages_follow_format)
  let ?data = "replicate 7 0 @ encode_row (5, alice, 1, []) @ [1, 2]"
  have row: "row_ok (5, alice, 1, [])" by (simp add: row_ok_def)
  have len: "length (encode_row (5, alice, 1, [])) = 25" by (simp add: length_encode_row)
  then have ne: "encode_row (5, alice, 1, []) \<noteq> []" by auto
  have n: "length ?data = Suc (Suc 32)" using len by simp
  have d: "drop 7 ?data = encode_row (5, alice, 1, []) @ [1, 2]" by simp
  show "decode_all (length ?data) dec_record (drop 7 ?data) = ([row_view (5, alice, 1, [])], [1, 2])"
    unfolding n d decode_all.simps using ne dec_encode_row [OF row, of "[1, 2]"] by (simp add: dec_record_cut)
  show "7 < length ?data" using n by simp
  show "RSAPrivateWrapper_load toy (privateKey (ctx bob_world)) = Inr 66"
    by (simp add: RSAPrivateWrapper_load_def sample_worlds sample_friends toy_facts)
qed

text \<open>The loop over a client list whose size is a multiple of the entry size reads exactly
  the entries the wire format defines and throws nothing; any other size is refused before
  anything is stored.\<close>

lemma client_list_follows_format:
  assumes "7 \<le> length data"
  shows "responseClientList data w =
     (if (length data - 7) mod 271 = 0 then (Inr (), fold learn (fst (decode_all (length data) dec_entry (drop 7 data))) w)
      else (Inl (Runtime_error ''responseClientList: invalid payload size for 2101''), w))"
  using responseClientList_refines [OF assms, of _ _ w]
  by (cases "decode_all (length data) dec_entry (drop 7 data)") (auto simp: responseClientList_def)

lemma client_list_follows_format_witness:
  "responseClientList (replicate 8 0) bob_world
     = (Inl (Runtime_error ''responseClientList: invalid payload size for 2101''), bob_world)"
  using client_list_follows_format [of "replicate 8 0" bob_world] by simp

text \<open>No response, well-formed or not, handled or ended by an exception, breaks the types of
  the client's state or removes a cached client or a key.\<close>

lemma responses_keep_state:
  assumes "responseClientMain cr data w = (r, w')" and "world_wf w"
  shows "world_wf w' \<and> keeps_friends (ctx w) (ctx w')"
  using keeps_responseClientMain [OF assms(1)] assms(2) by (simp add: keeps_def)

lemma responses_keep_state_witness:
  "world_wf (snd (responseClientMain toy (response_bytes 2104 (encode_row (5, alice, 2, [66, 1]))) bob_world))"
  using responses_keep_state [OF prod.collapse [symmetric] world_wf_sample(2)] by blast

text \<open>The same holds for every menu action that returns, also when a key wrapper throws.\<close>

lemma actions_keep_state:
  assumes "handleMenuChoice cr code w = Some (r, w')" and "world_wf w"
  shows "world_wf w' \<and> keeps_friends (ctx w) (ctx w')"
  using keeps_handleMenuChoice [OF assms(1)] assms(2) by (simp add: keeps_def)

lemma actions_keep_state_witness:
  "world_wf (say (lit ''You are already logged in.'' @ nl) (alice_world []))"
proof -
  have "handleMenuChoice toy 110 (alice_world []) = Some (Inr [], say (lit ''You are already logged in.'' @ nl) (alice_world []))"
    by (simp add: handleMenuChoice_def handleRegister_def sample_worlds sample_registered)
  from actions_keep_state [OF this world_wf_sample(1)] show ?thesis by blast
qed

text \<open>An action sends nothing or a serialised request with the client's id, version 1 and one
  of the five codes; a message request names a client that is in the cache.\<close>

lemma action_requests_good:
  assumes "world_wf w" and "handleMenuChoice cr code w = Some (Inr data, w')" and "data \<noteq> []"
  shows "good_request w' data"
  using assms by (rule good_handleMenuChoice)

lemma action_requests_good_witness:
  "\<exists>w'. good_request w' (request_bytes alice 703 (send_payload bob 3 (shared_key @ lit ''hi'' @ nl)))"
proof -
  let ?w = "alice_world [bob_name, lit ''hi'', []]"
  obtain w' where "handleAllMessages toy 150 ?w = Some (Inr (request_bytes alice 703 (send_payload bob 3 (shared_key @ lit ''hi'' @ nl))), w')"
    using send_text_run [of ?w bob_name "[lit ''hi'']" "[]" bob _ shared_key "lit ''hi'' @ nl" toy] sample_names
    by (auto simp: sample_worlds sample_friends toy_facts lit_Cons nl_def)
  then have "handleMenuChoice toy 150 ?w = Some (Inr (request_bytes alice 703 (send_payload bob 3 (shared_key @ lit ''hi'' @ nl))), w')"
    by (simp add: handleMenuChoice_def)
  from action_requests_good [OF world_wf_sample(1) this] show ?thesis by (auto simp: request_bytes_def)
qed

section \<open>Prompts\<close>

text \<open>C35: the username prompt returns exactly when some line of the remaining input is accepted:
  it returns the first such line, consumes the lines up to it, and touches nothing but the
  console; without one it never returns.\<close>

lemma username_prompt_returns:
  "case getValidUsername prompt w of
     None \<Rightarrow> List.find isValidUsername (cin w) = None
   | Some (l, w') \<Rightarrow> List.find isValidUsername (cin w) = Some l
       \<and> cin w' = tl (dropWhile (\<lambda>l. \<not> isValidUsername l) (cin w)) \<and> same_but_console w w'"
  using username.run_find [of w prompt] by (auto simp: acceptable_fun split: option.splits)

text \<open>The menu returns exactly when some line of the remaining input is a number of an option;
  then it returns the option of the first such line, and nothing but the console changed.\<close>

lemma menu_returns:
  "case clientMenuMain w of
     None \<Rightarrow> List.find option_line (cin w) = None
   | Some (input, w') \<Rightarrow> map_option parse_input (List.find option_line (cin w)) = Some input
       \<and> isValidMenuOption input \<and> same_but_console w w'"
  using menu.run_find [of w] by (auto simp: option_line_def find_Some_iff split: option.splits)

text \<open>A line is a number exactly when it is white space, at least one digit, white space.\<close>

lemma number_syntax:
  "isNumber s \<longleftrightarrow> (\<exists>a d b. s = a @ d @ b \<and> d \<noteq> [] \<and> list_all isspace a \<and> list_all isdigit d \<and> list_all isspace b)"
  by (rule isNumber_iff)

text \<open>C36: entering \<^verbatim>\<open>0\<close> at the registration prompt, announced as an invalid name and meant as a
  cancellation, sends a registration under the name \<^verbatim>\<open>0\<close> and replaces name and private key.\<close>

lemma register_zero_not_cancelled:
  assumes "world_wf w" and "\<not> hasClientID (ctx w)" and "cin w = lit ''0'' # rest" and "crypto_ok cr"
  shows "\<exists>q w'. handleMenuChoice cr 110 w = Some (Inr q, w') \<and> q \<noteq> []
    \<and> bslice 23 255 q = padded_name (lit ''0'') \<and> userName (ctx w') = lit ''0''
    \<and> privateKey (ctx w') = rsa_save_private cr (rsa_generate cr (rng w))"
proof -
  have nm: "name_ok (lit ''0'')" by (simp add: name_ok_def lit_Cons)
  have id: "length (clientID (ctx w)) = 16" using assms(1) by (rule world_wf_id)
  obtain q w' where h: "handleRegister cr w = Some (Inr q, w')"
    and q: "q = request_bytes (clientID (ctx w)) 700
       (padded_name (lit ''0'') @ rsa_save_public cr (rsa_public_of cr (rsa_generate cr (rng w))))"
    and c: "ctx w' = setPrivateKey (rsa_save_private cr (rsa_generate cr (rng w))) (setName (lit ''0'') (ctx w))"
    using handleRegister_run [OF assms(1,2,3) zero_valid crypto_okD(7) [OF assms(4)]] by blast
  have "q \<noteq> []" by (simp add: q request_bytes_def)
  moreover have "bslice 23 255 q = padded_name (lit ''0'')"
    unfolding q using id length_padded_name [OF nm] by (simp add: bslice_request bslice_append)
  moreover have "handleMenuChoice cr 110 w = Some (Inr q, w')" using h by (simp add: handleMenuChoice_def)
  ultimately show ?thesis using c by (intro exI [of _ q] exI [of _ w']) (simp add: ctx_simps)
qed

lemma register_zero_not_cancelled_witness:
  "\<exists>q w'. handleMenuChoice toy 110 (new_world [lit ''0'']) = Some (Inr q, w') \<and> userName (ctx w') = lit ''0''"
  using register_zero_not_cancelled [OF world_wf_sample(3) _ _ crypto_ok_toy, of "[lit ''0'']" "[]"]
  by (auto simp: sample_worlds sample_registered)

section \<open>Files\<close>

text \<open>C37: what \<^verbatim>\<open>saveMyInfo\<close> writes completely, the next start loads: the name, the id and the
  private key are those that were saved.\<close>

lemma my_info_round_trip:
  assumes "crypto_ok cr" and "ctx_saveable (ctx w)" and "getExecutableDirectory w = Inr ()"
    and "my_info_open_ok w" and "my_info_short_write w = None"
  shows "\<exists>w1 w2. saveMyInfo cr w = (Inr (), w1) \<and> loadMyInfo cr (w1\<lparr>ctx := init_ctx\<rparr>) = (Inr (), w2)
    \<and> userName (ctx w2) = userName (ctx w) \<and> clientID (ctx w2) = clientID (ctx w) \<and> privateKey (ctx w2) = privateKey (ctx w)"
proof -
  let ?w1 = "w\<lparr>my_info := Some (my_info_text cr (ctx w))\<rparr>"
  let ?v = "?w1\<lparr>ctx := init_ctx\<rparr>"
  have save: "saveMyInfo cr w = (Inr (), ?w1)"
    using assms by (intro saveMyInfo_text)
  have dir: "getExecutableDirectory ?v = Inr ()"
    using assms(3) by (simp add: getExecutableDirectory_def split: if_splits)
  have "loadMyInfo cr ?v = (Inr (), say (lit ''Welcome back '' @ userName (ctx w) @ nl)
      (upd_ctx (setPrivateKey (privateKey (ctx w)) o setClientID (clientID (ctx w)) o setName (userName (ctx w))) ?v))"
    using load_my_info_text [OF assms(1,2), of ?v] dir by (simp add: loadMyInfo_def)
  then show ?thesis unfolding save by (simp add: ctx_simps)
qed

lemma my_info_round_trip_witness:
  "\<exists>w1 w2. saveMyInfo toy (alice_world []) = (Inr (), w1) \<and> loadMyInfo toy (w1\<lparr>ctx := init_ctx\<rparr>) = (Inr (), w2)
    \<and> userName (ctx w2) = alice_name \<and> clientID (ctx w2) = alice"
proof -
  have "ctx_saveable (ctx (alice_world []))"
    using sample_names(1) ctx_wf_sample(1) sample_registered(1)
    by (simp add: ctx_saveable_def sample_worlds) (simp add: alice_ctx_def alice_name_def lit_Cons)
  from my_info_round_trip [OF crypto_ok_toy this sample_paths(1)] show ?thesis
    by (auto simp: sample_worlds sample_friends alice_world_def init_world_def alice_ctx_def)
qed

text \<open>\<^verbatim>\<open>server.info.txt\<close> is accepted exactly when it is one line with four decimal numbers up to
  255 between dots, a colon and a decimal port from 1 to 65535; the address and the port are
  those of the line.\<close>

lemma server_info_accepts_exactly:
  "validateAndLoadServerInfo content = Some (address, port) \<longleftrightarrow>
     (\<exists>ps pp. server_info_file content ps pp \<and> address = dot_join ps \<and> port = of_nat (dec_value pp))"
  using server_info_sound server_info_complete by blast

section \<open>The connection\<close>

text \<open>An exchange that returns gives a buffer with a whole header and exactly as many payload
  bytes as the header says, so the handlers never see a cut response.\<close>

lemma exchange_complete:
  assumes "asio_ok io" and "sendAndReceive io data net = (Inr buffer, net')"
  shows "7 \<le> length buffer \<and> readUint32LE buffer 3 = Inr (of_nat (length buffer - 7)) \<and> length buffer < 7 + 2 ^ 32"
  using sendAndReceive_complete [OF assms] by blast

lemma exchange_complete_witness:
  "\<exists>r. fst (sendAndReceive (loopback (\<lambda>n. sample_env)) (request_bytes alice 701 []) \<lparr>sdb = sample_db, inbox = [], turns = 0\<rparr>) = Inr r
     \<and> readUint32LE r 3 = Inr (of_nat (length r - 7))"
proof -
  let ?net = "\<lparr>sdb = sample_db, inbox = [], turns = 0\<rparr>" and ?q = "request_bytes alice 701 []"
  obtain r d where r: "request_handler_main sample_env ?q sample_db = (Inr r, d)" "response_ok r"
    by (rule response_ok_request)
  have "sendAndReceive (loopback (\<lambda>n. sample_env)) ?q ?net = (Inr r, ?net\<lparr>sdb := d, turns := Suc 0\<rparr>)"
    using exchange [of ?q ?net "\<lambda>n. sample_env" r d] r by (simp add: whole_request_bytes)
  from exchange_complete [OF asio_ok_loopback this] this show ?thesis by simp
qed

section \<open>Encodings\<close>

text \<open>The hexadecimal text of an id is a valid UUID text and is read back as the id.\<close>

lemma hex_round_trip:
  assumes "length bs = 16"
  shows "isValidHexUUID (bytesToHex bs) \<and> uuidHex32ToBytes16 (bytesToHex bs) = Inr bs"
  using isValidHexUUID_bytesToHex [OF assms] uuidHex32ToBytes16_bytesToHex [OF assms] by blast

lemma hex_round_trip_witness:
  "uuidHex32ToBytes16 (bytesToHex [0, 1, 15, 16, 127, 128, 200, 255, 10, 13, 48, 65, 97, 90, 170, 85])
     = Inr [0, 1, 15, 16, 127, 128, 200, 255, 10, 13, 48, 65, 97, 90, 170, 85]"
  using hex_round_trip [of "[0, 1, 15, 16, 127, 128, 200, 255, 10, 13, 48, 65, 97, 90, 170, 85]"] by simp

text \<open>A number that was appended is read back at its offset whatever follows it, and reading
  fails exactly when fewer than four bytes are left.\<close>

lemma u32_round_trip:
  "readUint32LE (appendUint32LE xs v @ rest) (length xs) = Inr v
   \<and> ((\<exists>e. readUint32LE data off = Inl e) \<longleftrightarrow> length data < off + 4)"
  using readUint32LE_at [of xs "length xs" v rest] by (auto simp: readUint32LE_def)

text \<open>The search by name finds an id exactly when a cached client has the name, and then the
  least id of that name.\<close>

lemma name_search_least:
  assumes "ctx_wf c"
  shows "case tryGetFriendIdByName c n of
      None \<Rightarrow> \<not> (\<exists>k f. tryGetFriendCopy c k = Some f \<and> friendName f = n)
    | Some k \<Rightarrow> (\<exists>f. tryGetFriendCopy c k = Some f \<and> friendName f = n) \<and> length k = 16
        \<and> (\<forall>j g. tryGetFriendCopy c j = Some g \<longrightarrow> friendName g = n \<longrightarrow> k \<le> j)"
  using tryGetFriendIdByName_None [OF assms, of n] tryGetFriendIdByName_Some [OF assms, of n]
  by (cases "tryGetFriendIdByName c n") auto

lemma name_search_least_witness:
  "case tryGetFriendIdByName alice_ctx bob_name of None \<Rightarrow> False | Some k \<Rightarrow> length k = 16"
  using name_search_least [OF ctx_wf_sample(1), of bob_name] by (simp add: sample_friends)

section \<open>Symmetric keys\<close>

text \<open>A generated AES key consists of the bytes of four random draws, whatever the
  uninitialised buffer held.\<close>

lemma generated_key:
  assumes "length uninit = 16"
  shows "AESWrapper_random cr n uninit = concat (map (\<lambda>i. appendUint32LE [] (rdrand32 cr (n + i))) [0..<4])"
  using GenerateKey_16 [OF assms, of "rdrand32 cr" n]
  by (simp add: AESWrapper_random_def appendUint32LE_def upt_rec)

lemma generated_key_witness:
  "AESWrapper_random toy 0 (replicate 16 99) = concat (map (\<lambda>i. appendUint32LE [] (rdrand32 toy (0 + i))) [0..<4])"
  by (rule generated_key) simp

section \<open>The pull thread\<close>

text \<open>From any state, once the stop flag is set the thread has ended after two steps and has
  changed nothing, except that a round it was already in is completed; it stays ended.\<close>

lemma pull_thread_stops:
  "pull_run cr io (True # True # stops) pc s = (Stopped, if pc = Pulling then pull_round cr io s else s)"
proof -
  have stopped: "pull_run cr io bs Stopped v = (Stopped, v)" for bs v
    by (induction bs arbitrary: v) auto
  show ?thesis by (cases pc) (auto simp: stopped)
qed

text \<open>While the flag is not set, the thread starts a round in every 63rd step and in no other:
  one step at the head of the loop, sixty seconds, and the check after them.\<close>

lemma pull_thread_period:
  "(pull_step False ^^ n) Loop_head = Pulling \<longleftrightarrow> n mod 63 = 62"
proof -
  have "(pull_step False ^^ n) Loop_head =
      (let k = n mod 63 in if k = 0 then Loop_head else if k = 62 then Pulling else Sleeping (k - 1))"
  proof (induction n)
    case (Suc n)
    have "n mod 63 < 63" by simp
    with Suc show ?case by (auto simp: Let_def mod_Suc split: if_splits)
  qed simp
  then show ?thesis by (simp add: Let_def)
qed

section \<open>Requests on the wire\<close>

text \<open>A serialised request is one whole request for the server, and the server reads the
  client's id, version, code, payload size and payload at its offsets.\<close>

lemma request_fields_read:
  assumes "length (m_clientID m) = 16" and "m_version m = 1" and "length (m_payload m) < 2 ^ 32" and "q = createBuffer m"
  shows "whole_request q \<and> take 16 q = m_clientID m \<and> q ! SRV_VERSION_OFFSET = 1
    \<and> from_bytes (bslice SRV_CODE_OFFSET SRV_CODE_SIZE q) = unat (m_code m)
    \<and> from_bytes (bslice SRV_PAYLOAD_SIZE_OFFSET SRV_CONTENT_SIZE q) = length (m_payload m) \<and> drop SRV_HEADER_SIZE q = m_payload m"
proof -
  have q: "q = request_bytes (m_clientID m) (unat (m_code m)) (m_payload m)"
    unfolding assms(4) by (rule createBuffer_request [OF assms(3,2)])
  have "unat (m_code m) < 65536" using unsigned_less [of "m_code m", where 'a = nat] by simp
  then show ?thesis
    unfolding q using assms(1,3) whole_request_bytes [OF assms(1,3)] by (simp add: request_bytes_fields from_le_bytes)
qed

lemma request_fields_read_witness:
  "whole_request (createBuffer (Message_payload alice 702 bob))"
  using request_fields_read [OF _ _ _ refl, of "Message_payload alice 702 bob"] by (simp add: Message_payload_def)

end
