(* ===== verification/Client_Contracts.thy ===== *)
theory Client_Contracts
  imports Client_Menu Client_Message Client_Connection Py_Bytes
begin

text \<open>
  The contracts of \<^verbatim>\<open>Utilities.h\<close>, \<^verbatim>\<open>Message.h\<close>, \<^verbatim>\<open>ClientMenu.h\<close> and \<^verbatim>\<open>ClientConnection.h\<close>: what
  the comments of the declarations promise, with numbers as natural numbers, texts as lists
  and no word operations, and the proofs that the code keeps them.
\<close>

section \<open>Utilities.h\<close>

definition doc_toLowerAscii :: "bytes \<Rightarrow> bytes" where
  "doc_toLowerAscii s = map (\<lambda>c. if c \<in> set (lit ''ABCDEFGHIJKLMNOPQRSTUVWXYZ'') then c + 32 else c) s"

definition hex_digits :: bytes where
  "hex_digits = lit ''0123456789abcdefABCDEF''"

definition doc_isValidHexUUID :: "bytes \<Rightarrow> bool" where
  "doc_isValidHexUUID s \<longleftrightarrow> length s = 32 \<and> set s \<subseteq> set hex_digits"

text \<open>The value of a digit and of each pair of digits.\<close>

definition digit_value :: "byte \<Rightarrow> nat" where
  "digit_value c = (if unat c < 58 then unat c - 48 else if unat c < 71 then unat c - 55 else unat c - 87)"

fun hex_pairs :: "bytes \<Rightarrow> bytes" where
  "hex_pairs (hi # lo # s) = of_nat (16 * digit_value hi + digit_value lo) # hex_pairs s"
| "hex_pairs s = []"

definition doc_uuidHex32ToBytes16 :: "bytes \<Rightarrow> exn + bytes \<Rightarrow> bool" where
  "doc_uuidHex32ToBytes16 hex32 r =
     (if doc_isValidHexUUID hex32 then r = Inr (hex_pairs hex32) else \<exists>m. r = Inl (Logic_error m))"

definition doc_appendUint16LE :: "bytes \<Rightarrow> u16 \<Rightarrow> bytes" where
  "doc_appendUint16LE buf value = buf @ le_bytes 2 (unat value)"

definition doc_appendUint32LE :: "bytes \<Rightarrow> u32 \<Rightarrow> bytes" where
  "doc_appendUint32LE buf value = buf @ le_bytes 4 (unat value)"

text \<open>The hexadecimal text is the lower-case one that reads back as the bytes.\<close>

definition doc_bytesToHex :: "bytes \<Rightarrow> bytes \<Rightarrow> bool" where
  "doc_bytesToHex bs r \<longleftrightarrow> doc_isValidHexUUID r \<and> doc_toLowerAscii r = r \<and> hex_pairs r = bs"

definition doc_readUint32LE :: "bytes \<Rightarrow> nat \<Rightarrow> exn + u32 \<Rightarrow> bool" where
  "doc_readUint32LE data offset r =
     (if offset + 4 \<le> length data then r = Inr (of_nat (from_bytes (bslice offset 4 data)))
      else \<exists>m. r = Inl (Runtime_error m))"

definition doc_isValidUsername :: "bytes \<Rightarrow> bool" where
  "doc_isValidUsername name \<longleftrightarrow> name \<noteq> [] \<and> length name \<le> 254 \<and> (\<forall>c\<in>set name. unat c < 128)"

subsection \<open>Bytes and digits\<close>

lemma byte_range: "c \<in> set (map of_nat [m..<n]) \<longleftrightarrow> m \<le> unat c \<and> unat c < n" if "n \<le> 256" for c :: byte
proof
  assume "c \<in> set (map of_nat [m..<n])"
  then obtain k where k: "c = of_nat k" "m \<le> k" "k < n" by auto
  then have "unat c = k" using that by (simp add: unat_of_nat)
  with k show "m \<le> unat c \<and> unat c < n" by simp
next
  assume "m \<le> unat c \<and> unat c < n"
  moreover have "c = of_nat (unat c)" by simp
  ultimately show "c \<in> set (map of_nat [m..<n])" by (metis atLeastLessThan_iff image_eqI list.set_map set_upt)
qed

lemma upper_case: "c \<in> set (lit ''ABCDEFGHIJKLMNOPQRSTUVWXYZ'') \<longleftrightarrow> 65 \<le> unat c \<and> unat c < 91"
proof -
  have "lit ''ABCDEFGHIJKLMNOPQRSTUVWXYZ'' = map of_nat [65..<91]" by (simp add: lit_def upt_rec)
  then show ?thesis by (simp only:) (rule byte_range, simp)
qed

lemma hex_digit_range: "c \<in> set hex_digits \<longleftrightarrow>
    48 \<le> unat c \<and> unat c < 58 \<or> 97 \<le> unat c \<and> unat c < 103 \<or> 65 \<le> unat c \<and> unat c < 71"
proof -
  have h: "hex_digits = map of_nat [48..<58] @ map of_nat [97..<103] @ map of_nat [65..<71]"
    by (simp add: hex_digits_def lit_def upt_rec)
  have r: "c \<in> set (map of_nat [48..<58]) \<longleftrightarrow> 48 \<le> unat c \<and> unat c < 58"
    "c \<in> set (map of_nat [97..<103]) \<longleftrightarrow> 97 \<le> unat c \<and> unat c < 103"
    "c \<in> set (map of_nat [65..<71]) \<longleftrightarrow> 65 \<le> unat c \<and> unat c < 71"
    by (rule byte_range, simp)+
  show ?thesis unfolding h set_append Un_iff r ..
qed

lemma toLowerAscii_doc: "toLowerAscii s = doc_toLowerAscii s"
  unfolding toLowerAscii_def doc_toLowerAscii_def upper_case by (auto simp: tolower_def word_le_nat_alt)

lemma isxdigit_doc: "isxdigit c \<longleftrightarrow> c \<in> set hex_digits"
  unfolding hex_digit_range by (auto simp: isxdigit_def isdigit_def word_le_nat_alt)

lemma isValidHexUUID_doc: "isValidHexUUID s = doc_isValidHexUUID s"
  by (auto simp: isValidHexUUID_def doc_isValidHexUUID_def list_all_iff isxdigit_doc)

lemma hexNibble_digit: "\<forall>c\<in>set hex_digits. hexNibble (tolower c) = of_nat (digit_value c) \<and> digit_value c < 16"
  by (simp add: hex_digits_def lit_def hexNibble_def tolower_def digit_value_def)

lemma join_nibbles: "a < 16 \<Longrightarrow> b < 16 \<Longrightarrow> push_bit 4 (of_nat a) OR of_nat b = (of_nat (16 * a + b) :: byte)"
proof -
  have "\<forall>a\<in>set [0..<16]. \<forall>b\<in>set [0..<16]. push_bit 4 (of_nat a) OR of_nat b = (of_nat (16 * a + b) :: byte)"
    by code_simp
  then show "a < 16 \<Longrightarrow> b < 16 \<Longrightarrow> push_bit 4 (of_nat a) OR of_nat b = (of_nat (16 * a + b) :: byte)" by simp
qed

lemma hex_pairs_index:
  "length s = 2 * n \<Longrightarrow> hex_pairs s = map (\<lambda>i. of_nat (16 * digit_value (s ! (2 * i)) + digit_value (s ! (2 * i + 1)))) [0..<n]"
proof (induction n arbitrary: s)
  case (Suc n)
  then obtain x y t where s: "s = x # y # t" by (cases s rule: hex_pairs.cases) auto
  have "[0..<Suc n] = 0 # map Suc [0..<n]" by (simp only: map_Suc_upt upt_conv_Cons [OF zero_less_Suc])
  with Suc show ?case by (simp add: s comp_def)
qed simp

lemma uuidHex32ToBytes16_doc: "doc_uuidHex32ToBytes16 s (uuidHex32ToBytes16 s)"
proof (cases "doc_isValidHexUUID s")
  case True
  then have len: "length s = 2 * 16" and d: "\<And>i. i < 32 \<Longrightarrow> s ! i \<in> set hex_digits"
    by (auto simp: doc_isValidHexUUID_def)
  have "push_bit 4 (hexNibble (toLowerAscii s ! (2 * i))) OR hexNibble (toLowerAscii s ! (2 * i + 1))
      = of_nat (16 * digit_value (s ! (2 * i)) + digit_value (s ! (2 * i + 1)))" if "i < 16" for i
    using that len hexNibble_digit d [of "2 * i"] d [of "2 * i + 1"] join_nibbles by (simp add: toLowerAscii_def)
  then show ?thesis
    using True isValidHexUUID_doc [of s] by (simp add: doc_uuidHex32ToBytes16_def uuidHex32ToBytes16_def Let_def hex_pairs_index [OF len])
qed (simp add: doc_uuidHex32ToBytes16_def uuidHex32ToBytes16_def isValidHexUUID_doc)

lemma bytesToHex_doc: "length bs = 16 \<Longrightarrow> doc_bytesToHex bs (bytesToHex bs)"
proof -
  assume len: "length bs = 16"
  have v: "doc_isValidHexUUID (bytesToHex bs)" using isValidHexUUID_bytesToHex [OF len] by (simp add: isValidHexUUID_doc)
  have "toLowerAscii (bytesToHex bs) = bytesToHex bs"
    by (simp add: toLowerAscii_def bytesToHex_alt [OF len] map_concat comp_def HEX_nibble)
  moreover have "hex_pairs (bytesToHex bs) = bs"
    using uuidHex32ToBytes16_doc [of "bytesToHex bs"] v uuidHex32ToBytes16_bytesToHex [OF len]
    by (simp add: doc_uuidHex32ToBytes16_def)
  ultimately show ?thesis using v by (simp add: doc_bytesToHex_def toLowerAscii_doc)
qed

subsection \<open>Numbers\<close>

lemma le_from_bytes: "le_bytes (length bs) (from_bytes bs) = bs"
proof (induction bs)
  case (Cons b bs)
  have "unat b < 256" using unsigned_less [of b, where 'a = nat] by simp
  with Cons show ?case by simp
qed simp

lemma readUint32LE_doc:
  assumes "off + 4 < 2 ^ 64"
  shows "doc_readUint32LE data off (readUint32LE data off)"
proof (cases "off + 4 \<le> length data")
  case True
  let ?b = "bslice off 4 data" and ?v = "of_nat (from_bytes (bslice off 4 data)) :: u32"
  have len: "length ?b = 4" using True by (simp add: bslice_def)
  then have "unat ?v = from_bytes ?b" using from_bytes_less [of ?b] by (simp add: unat_of_nat)
  then have b: "appendUint32LE [] ?v = ?b" using le_from_bytes [of ?b] len by (simp add: appendUint32LE_le_bytes)
  have "data = take off data @ ?b @ drop (off + 4) data"
    by (simp add: bslice_def) (metis add.commute append_take_drop_id drop_drop)
  moreover have "length (take off data) = off" using True by simp
  ultimately have "readUint32LE data off = Inr ?v"
    using readUint32LE_append [of "take off data" off "?b @ drop (off + 4) data"] readUint32LE_appendUint32LE [of ?v] b len
    by simp
  with True show ?thesis by (simp add: doc_readUint32LE_def)
next
  case False
  with readUint32LE_throws [of data off] assms show ?thesis by (simp add: doc_readUint32LE_def)
qed

text \<open>An offset whose sum wraps passes the check, and the code reads where there is no byte.\<close>

lemma readUint32LE_wraps:
  assumes "off < 2 ^ 64" and "2 ^ 64 \<le> off + 4" and "4 \<le> length data" and "length data < off"
  shows "readUint32LE data off = Inl Undefined"
  using assms by (simp add: readUint32LE_def size_add_wraps)

lemma append_doc: "appendUint16LE buf v = doc_appendUint16LE buf v" "appendUint32LE buf u = doc_appendUint32LE buf u"
  using appendUint16LE_app [of buf v] appendUint32LE_app [of buf u]
  by (simp_all add: doc_appendUint16LE_def doc_appendUint32LE_def appendUint16LE_le_bytes appendUint32LE_le_bytes)

lemma isValidUsername_doc: "isValidUsername name = doc_isValidUsername name"
  by (auto simp: isValidUsername_iff doc_isValidUsername_def word_le_nat_alt Suc_le_eq [symmetric])

section \<open>Message.h\<close>

text \<open>``Appends the client ID, version, request code, payload size, and payload in the correct order
  according to the protocol format.''\<close>

definition doc_createBuffer :: "message \<Rightarrow> bytes" where
  "doc_createBuffer m = m_clientID m @ [m_version m] @ le_bytes 2 (unat (m_code m)) @ le_bytes 4 (length (m_payload m)) @ m_payload m"

lemma createBuffer_doc: "length (m_payload m) < 2 ^ 32 \<Longrightarrow> createBuffer m = doc_createBuffer m"
  by (simp add: createBuffer_alt doc_createBuffer_def appendUint16LE_le_bytes le_bytes_of_nat_u32)

text \<open>The constructors ``initialize the message header fields'' from the client ID and the code, at the
  version of the client, with the provided payload or with none.\<close>

definition doc_Message :: "bytes \<Rightarrow> u16 \<Rightarrow> bytes option \<Rightarrow> message \<Rightarrow> bool" where
  "doc_Message cid code payload m \<longleftrightarrow> m_clientID m = cid \<and> m_version m = 1 \<and> m_code m = code
     \<and> m_payload m = (case payload of None \<Rightarrow> [] | Some p \<Rightarrow> p)"

lemma Message_doc: "doc_Message cid code None (Message_no_payload cid code)"
    "doc_Message cid code (Some p) (Message_payload cid code p)"
  by (simp_all add: doc_Message_def Message_no_payload_def Message_payload_def)

section \<open>ClientMenu.h\<close>

text \<open>``Allows leading and trailing whitespace but requires all other characters to be digits.''\<close>

definition strip :: "bytes \<Rightarrow> bytes" where
  "strip s = rev (dropWhile isspace (rev (dropWhile isspace s)))"

definition doc_isNumber :: "bytes \<Rightarrow> bool" where
  "doc_isNumber s \<longleftrightarrow> strip s \<noteq> [] \<and> list_all isdigit (strip s)"

text \<open>``Validates that the input is numeric and within the valid range for uint16_t.''\<close>

definition doc_getUserInput :: "bytes \<Rightarrow> u16" where
  "doc_getUserInput s =
     (if doc_isNumber s \<and> dec_value (strip s) \<le> 65535 then of_nat (dec_value (strip s)) else INPUT_ERROR)"

lemma strip_padded:
  assumes "list_all isspace a" and "list_all isspace b" and "list_all isdigit d" and "d \<noteq> []"
  shows "strip (a @ d @ b) = d"
proof -
  have d: "\<not> isspace (hd d)" "\<not> isspace (hd (rev d))"
    using assms(3,4) digit_not_space by (auto simp: list_all_iff hd_rev)
  have "dropWhile isspace (a @ d @ b) = d @ b"
    using assms(1,4) d(1) by (cases d) (simp_all add: dropWhile_append list_all_iff)
  moreover have "dropWhile isspace (rev b @ rev d) = rev d"
    using assms(2,4) d(2) by (cases "rev d") (simp_all add: dropWhile_append list_all_iff)
  ultimately show ?thesis by (simp add: strip_def)
qed

lemma strip_split: obtains a b where "s = a @ strip s @ b" and "list_all isspace a" and "list_all isspace b"
proof -
  let ?t = "dropWhile isspace s"
  have "?t = strip s @ rev (takeWhile isspace (rev ?t))"
    unfolding strip_def by (metis rev_append rev_rev_ident takeWhile_dropWhile_id)
  moreover have "s = takeWhile isspace s @ ?t" by simp
  ultimately show ?thesis
    by (intro that [of "takeWhile isspace s" "rev (takeWhile isspace (rev ?t))"])
       (auto simp: list_all_iff dest: set_takeWhileD)
qed

lemma isNumber_doc: "isNumber s = doc_isNumber s"
proof
  assume "isNumber s"
  then obtain a d b where "s = a @ d @ b" "d \<noteq> []" "list_all isspace a" "list_all isdigit d" "list_all isspace b"
    by (auto simp: isNumber_iff)
  then show "doc_isNumber s" using strip_padded by (simp add: doc_isNumber_def)
next
  assume "doc_isNumber s"
  moreover obtain a b where "s = a @ strip s @ b" "list_all isspace a" "list_all isspace b" by (rule strip_split)
  ultimately show "isNumber s" unfolding isNumber_iff doc_isNumber_def by blast
qed

lemma strtoul_number:
  assumes "doc_isNumber s"
  shows "strtoul s = min (dec_value (strip s)) ULONG_MAX"
proof -
  obtain a b where s: "s = a @ strip s @ b" "list_all isspace a" "list_all isspace b" by (rule strip_split)
  let ?d = "strip s"
  obtain c e where d: "?d = c # e" using assms by (cases ?d) (auto simp: doc_isNumber_def)
  have digits: "list_all isdigit ?d" using assms by (simp add: doc_isNumber_def)
  then have c: "\<not> isspace c" "c \<noteq> 45" "c \<noteq> 43" using isdigit_range [of c] by (auto simp: d)
  have "dropWhile isspace (a @ ?d @ b) = ?d @ b"
    using s(2) c(1) by (simp add: dropWhile_append list_all_iff d)
  then have t: "dropWhile isspace s = ?d @ b" using s(1) by simp
  have "takeWhile isdigit b = []" using s(3) digit_not_space by (cases b) auto
  then have "takeWhile isdigit (?d @ b) = ?d" using digits by (simp add: list_all_iff takeWhile_append2)
  with c show ?thesis unfolding strtoul_def t Let_def by (simp add: d)
qed

lemma parse_input_doc: "parse_input s = doc_getUserInput s"
  using strtoul_number [of s] by (auto simp: parse_input_def doc_getUserInput_def isNumber_doc Let_def)

text \<open>``Compares the input against predefined menu codes'': the numbers of the menu.\<close>

definition doc_isValidMenuOption :: "u16 \<Rightarrow> bool" where
  "doc_isValidMenuOption num \<longleftrightarrow> unat num \<in> {0, 110, 120, 130, 140, 150, 151, 152}"

lemma isValidMenuOption_doc: "isValidMenuOption num = doc_isValidMenuOption num"
proof -
  have "num = c \<longleftrightarrow> unat num = unat c" for c by (metis word_unat_eq_iff)
  then show ?thesis by (auto simp: isValidMenuOption_def doc_isValidMenuOption_def)
qed

text \<open>``Displays the main client menu \<dots> Repeatedly prompts the user until a valid menu option is entered'':
  the menu is shown once for every line that is read, each refused one is answered, and the first
  valid option is returned with the lines after it unread. There is a result unless no line of the
  input is an option.\<close>

definition refused_prompt :: bytes where
  "refused_prompt = menu_text @ lit ''Invalid input, please try again.'' @ nl"

definition doc_clientMenuMain :: "client_world \<Rightarrow> (u16 \<times> client_world) option \<Rightarrow> bool" where
  "doc_clientMenuMain w res =
     (case res of
        None \<Rightarrow> \<forall>l\<in>set (cin w). \<not> doc_isValidMenuOption (doc_getUserInput l)
      | Some (num, w') \<Rightarrow> \<exists>refused l.
            cin w = refused @ l # cin w' \<and> (\<forall>k\<in>set refused. \<not> doc_isValidMenuOption (doc_getUserInput k))
          \<and> num = doc_getUserInput l \<and> doc_isValidMenuOption num
          \<and> cout w' = cout w @ concat (replicate (length refused) refused_prompt) @ menu_text \<and> same_but_console w w')"

lemma option_line_doc: "option_line l = doc_isValidMenuOption (doc_getUserInput l)"
  by (simp add: option_line_def isValidMenuOption_doc parse_input_doc)

lemma menu_shown:
  "cin w = refused @ l # rest \<Longrightarrow> \<forall>k\<in>set refused. \<not> option_line k \<Longrightarrow> option_line l \<Longrightarrow>
     clientMenuMain w = Some (parse_input l, w\<lparr>cin := rest,
       cout := cout w @ concat (replicate (length refused) refused_prompt) @ menu_text\<rparr>)"
  by (induction refused arbitrary: w) (subst menu_step, simp add: say_def refused_prompt_def)+

lemma clientMenuMain_doc: "doc_clientMenuMain w (clientMenuMain w)"
proof (cases "clientMenuMain w")
  case None
  with menu.run_None_iff [of w] show ?thesis by (simp add: doc_clientMenuMain_def option_line_doc)
next
  case (Some res)
  then obtain r w' where run: "clientMenuMain w = Some (r, w')" by (cases res) auto
  then obtain pre l rest where "cin w = pre @ l # rest" and "\<forall>k\<in>set pre. \<not> option_line k" and "option_line l"
    by (rule menu.run_Some)
  with menu_shown [OF this] show ?thesis
    by (force simp: doc_clientMenuMain_def option_line_doc parse_input_doc same_but_console_def)
qed

section \<open>ClientConnection.h\<close>

text \<open>The constructor ``loads the server address and port from configuration'' and connects, or throws
  a \<^verbatim>\<open>std::runtime_error\<close>.\<close>

definition doc_connection :: "'net asio \<Rightarrow> client_world \<Rightarrow> 'net \<Rightarrow> (exn + unit) \<times> client_world \<times> 'net \<Rightarrow> bool" where
  "doc_connection io w net res =
     (case res of
        (Inl e, w', net') \<Rightarrow> \<exists>m. e = Runtime_error m
      | (Inr _, w', net') \<Rightarrow> \<exists>file address port. server_info w = Some file \<and> validateAndLoadServerInfo file = Some (address, port)
            \<and> asio_connect io address (show_dec (unat port)) net = (Inr (), net'))"

text \<open>The destructor ``ensures the socket is gracefully shut down and closed if it is still open''.\<close>

definition doc_disconnect :: "'net socket_ops \<Rightarrow> 'net \<Rightarrow> 'net \<Rightarrow> bool" where
  "doc_disconnect so net net' =
     (if socket_is_open so net then net' = socket_close so (socket_shutdown so net) else net' = net)"

text \<open>``Returns a complete response buffer including both header and payload'': the payload is as long as
  its header says.\<close>

definition doc_sendAndReceive :: "bytes \<Rightarrow> bool" where
  "doc_sendAndReceive buffer \<longleftrightarrow>
     (\<exists>header payload. buffer = header @ payload \<and> length header = 7 \<and> length payload = from_bytes (drop 3 header))"

definition doc_receiveExact :: "nat \<Rightarrow> exn + bytes \<Rightarrow> bool" where
  "doc_receiveExact sz res = (case res of Inl e \<Rightarrow> True | Inr bs \<Rightarrow> length bs = sz)"

text \<open>``Reads the payload size field'' and throws ``if the buffer is smaller than the expected header
  size''.\<close>

definition doc_getPayloadSize :: "bytes \<Rightarrow> exn + nat \<Rightarrow> bool" where
  "doc_getPayloadSize data res =
     (if 7 \<le> length data then res = Inr (from_bytes (bslice 3 4 data)) else \<exists>m. res = Inl (Runtime_error m))"

lemma from_bytes_4: "length bs = 4 \<Longrightarrow> unat (of_nat (from_bytes bs) :: u32) = from_bytes bs"
  using from_bytes_less [of bs] by (simp add: unat_of_nat)

lemma connect_doc: "doc_connection io w net (connect io w net)"
proof -
  obtain r v where l: "loadServerInfo w = (r, v)" by fastforce
  show ?thesis
  proof (cases r)
    case (Inl e)
    with l have "\<exists>m. e = Runtime_error m"
      by (auto simp: loadServerInfo_def getExecutableDirectory_def split: if_splits option.splits)
    with l Inl show ?thesis by (simp add: doc_connection_def connect_def)
  next
    case (Inr x)
    obtain address port where x: "x = (address, port)" by (cases x)
    obtain y net1 where y: "asio_connect io address (show_dec (unat port)) net = (y, net1)" by fastforce
    have "\<exists>file. server_info w = Some file \<and> validateAndLoadServerInfo file = Some (address, port)"
      if "\<not> (address = [] \<or> port = 0)"
      using l that by (auto simp: Inr x loadServerInfo_def split: sum.splits option.splits)
    then show ?thesis
      using l y by (cases y) (auto simp: doc_connection_def connect_def Inr x Let_def)
  qed
qed

lemma receiveExact_doc: "asio_ok io \<Longrightarrow> doc_receiveExact n (fst (receiveExact io n net))"
  using receiveExact_length [of io n net] by (cases "receiveExact io n net") (auto simp: doc_receiveExact_def split: sum.split)

lemma getPayloadSize_doc: "doc_getPayloadSize data (getPayloadSize data)"
  using readUint32LE_doc [of 3 data] from_bytes_4 [of "bslice 3 4 data"]
  by (auto simp: doc_getPayloadSize_def getPayloadSize_def doc_readUint32LE_def bslice_def)

lemma sendAndReceive_doc:
  assumes "asio_ok io" and "sendAndReceive io data net = (Inr buffer, net')"
  shows "doc_sendAndReceive buffer"
proof -
  note c = sendAndReceive_complete [OF assms]
  have "readUint32LE buffer 3 = Inr (of_nat (from_bytes (bslice 3 4 buffer)))"
    using readUint32LE_doc [of 3 buffer] c(1) by (simp add: doc_readUint32LE_def)
  then have "(of_nat (from_bytes (bslice 3 4 buffer)) :: u32) = of_nat (length buffer - 7)" using c(2) by simp
  then have "from_bytes (bslice 3 4 buffer) = unat (of_nat (length buffer - 7) :: u32)"
    using from_bytes_4 [of "bslice 3 4 buffer"] c(1) by (simp add: bslice_def)
  then have "from_bytes (bslice 3 4 buffer) = length buffer - 7"
    using c(1,3) by (simp add: unat_of_nat del: of_nat_diff)
  then show ?thesis
    unfolding doc_sendAndReceive_def using c(1)
    by (intro exI [of _ "take 7 buffer"] exI [of _ "drop 7 buffer"]) (simp add: bslice_def drop_take)
qed

section \<open>The properties\<close>

text \<open>C27: the functions of \<^verbatim>\<open>Utilities.h\<close> do what their comments say, for every input: the ASCII
  lower case, the hexadecimal ids in both directions with the exception for anything else, the
  little-endian numbers with the exception exactly when bytes are missing, and the names; and the
  messages of \<^verbatim>\<open>Message.h\<close> are constructed with the fields it names and serialised in its order.
  The one exception is a number read at an offset so close to \<open>2 ^ 64\<close> that the sum in the bounds check
  wraps: instead of the promised \<^verbatim>\<open>std::runtime_error\<close> the code then reads outside the buffer.\<close>

lemma utilities_meet_contract:
  "toLowerAscii s = doc_toLowerAscii s \<and> isValidHexUUID s = doc_isValidHexUUID s
   \<and> doc_uuidHex32ToBytes16 s (uuidHex32ToBytes16 s)
   \<and> appendUint16LE buf v = doc_appendUint16LE buf v \<and> appendUint32LE buf u = doc_appendUint32LE buf u
   \<and> (length cid = 16 \<longrightarrow> doc_bytesToHex cid (bytesToHex cid))
   \<and> (off + 4 < 2 ^ 64 \<longrightarrow> doc_readUint32LE data off (readUint32LE data off))
   \<and> (off < 2 ^ 64 \<and> 2 ^ 64 \<le> off + 4 \<and> 4 \<le> length data \<and> length data < off \<longrightarrow> readUint32LE data off = Inl Undefined)
   \<and> isValidUsername s = doc_isValidUsername s
   \<and> doc_Message cid code None (Message_no_payload cid code) \<and> doc_Message cid code (Some s) (Message_payload cid code s)
   \<and> (length (m_payload m) < 2 ^ 32 \<longrightarrow> createBuffer m = doc_createBuffer m)"
  using toLowerAscii_doc isValidHexUUID_doc uuidHex32ToBytes16_doc append_doc bytesToHex_doc readUint32LE_doc readUint32LE_wraps isValidUsername_doc createBuffer_doc
    Message_doc
  by blast

lemma utilities_meet_contract_witness:
  "doc_bytesToHex (replicate 16 171) (bytesToHex (replicate 16 171)) \<and> doc_readUint32LE [1, 2, 0, 0] 0 (readUint32LE [1, 2, 0, 0] 0)
   \<and> readUint32LE (replicate 7 0) 18446744073709551614 = Inl Undefined
   \<and> createBuffer (Message_no_payload (replicate 16 1) 701) = doc_createBuffer (Message_no_payload (replicate 16 1) 701)"
  using utilities_meet_contract [where cid = "replicate 16 171" and off = 0 and data = "[1, 2, 0, 0]" and m = "Message_no_payload (replicate 16 1) 701"]
    utilities_meet_contract [where cid = "replicate 16 171" and off = 18446744073709551614 and data = "replicate 7 0"]
  by (simp add: Message_no_payload_def)

text \<open>C28: a line of input is parsed as \<^verbatim>\<open>ClientMenu.h\<close> says: without the white space around it, it is
  read as a decimal number when it is one that fits 16 bits, and is an input error otherwise;
  the saturation and the signs of \<^verbatim>\<open>strtoul\<close> never show. The menu is shown and refused until the
  first line that is one of its numbers, which it returns.\<close>

lemma menu_input_meets_contract:
  "isNumber s = doc_isNumber s \<and> fst (getUserInput (w\<lparr>cin := s # ls\<rparr>)) = doc_getUserInput s
   \<and> isValidMenuOption num = doc_isValidMenuOption num \<and> doc_clientMenuMain w (clientMenuMain w)"
  using isNumber_doc parse_input_doc isValidMenuOption_doc clientMenuMain_doc by (simp add: getUserInput_def cin_getline_def)

text \<open>C26: the connection keeps the contract of \<^verbatim>\<open>ClientConnection.h\<close>: the constructor connects to the
  configured server or throws a \<^verbatim>\<open>std::runtime_error\<close>, the destructor closes an open socket, reads
  are exact, and an exchange that returns gives a whole response, header and payload.\<close>

lemma connection_meets_contract:
  assumes "asio_ok io"
  shows "doc_connection io w net (connect io w net) \<and> doc_disconnect so net (disconnect so net)
    \<and> doc_receiveExact n (fst (receiveExact io n net)) \<and> doc_getPayloadSize data (getPayloadSize data)
    \<and> (case sendAndReceive io data net of (Inl e, net') \<Rightarrow> True | (Inr buffer, net') \<Rightarrow> doc_sendAndReceive buffer)"
  using connect_doc [of io w net] receiveExact_doc [OF assms, of n net] getPayloadSize_doc [of data] sendAndReceive_doc [OF assms]
  by (auto simp: doc_disconnect_def disconnect_def split: prod.split sum.split)

text \<open>A network on which every byte is zero answers with an empty payload.\<close>

lemma connection_meets_contract_witness:
  "fst (sendAndReceive \<lparr>asio_connect = (\<lambda>a p net. (Inr (), net)), asio_write = (\<lambda>bs net. (Inr (), net)),
      asio_read = (\<lambda>n net. (Inr (replicate n 0), net))\<rparr> [1] ()) = Inr (replicate 7 0) \<and> doc_sendAndReceive (replicate 7 0)"
proof -
  let ?io = "\<lparr>asio_connect = (\<lambda>a p net. (Inr (), net)), asio_write = (\<lambda>bs net. (Inr (), net)),
      asio_read = (\<lambda>n net. (Inr (replicate n 0), net))\<rparr> :: unit asio"
  have ok: "asio_ok ?io" by (simp add: asio_ok_def)
  have run: "sendAndReceive ?io [1] () = (Inr (replicate 7 0), ())"
    by (simp add: sendAndReceive_def sendData_def receiveExact_def getPayloadSize_def readUint32LE_def)
  from connection_meets_contract [OF ok, of init_world "()" "\<lparr>socket_is_open = (\<lambda>n. True), socket_shutdown = id, socket_close = id\<rparr>" 0 "[1]"]
  show ?thesis unfolding run by simp
qed

end
