(* ===== verification/Context_Contract.thy ===== *)
theory Context_Contract
  imports Client_Context
begin

text \<open>
  The contract of \<^verbatim>\<open>ClientContext.h\<close>: what the comments of its methods promise, on an abstract
  state with no order of entries and no ids inside the entries: the identity of the client and
  a partial function from ids to contacts. \<open>ClientContext.cpp\<close> is shown to be an
  implementation: every sequence of its calls, as two threads may make them, has the effect
  of the promised operations, and every query gives the promised answer.
\<close>

section \<open>The abstract state\<close>

record contact =
  known_as :: bytes
  public_key :: "bytes option"
  symmetric_key :: "bytes option"

record client_data =
  own_id :: bytes
  own_name :: bytes
  own_key :: bytes
  book :: "bytes \<rightharpoonup> contact"

definition contact_of :: "friend_info \<Rightarrow> contact" where
  "contact_of f = \<lparr>known_as = friendName f, public_key = publicKey f, symmetric_key = symmetricKey f\<rparr>"

definition data_of :: "client_ctx \<Rightarrow> client_data" where
  "data_of c = \<lparr>own_id = clientID c, own_name = userName c, own_key = privateKey c,
     book = (\<lambda>k. map_option contact_of (tryGetFriendCopy c k))\<rparr>"

section \<open>The promised operations\<close>

text \<open>``Determines if the stored client ID contains any non-zero value.''\<close>

definition doc_hasClientID :: "client_data \<Rightarrow> bool" where
  "doc_hasClientID d = (\<exists>b\<in>set (own_id d). b \<noteq> 0)"

text \<open>``Stores the client's ID and name, creating a new entry if it does not exist.''\<close>

definition doc_setFriendBase :: "bytes \<Rightarrow> bytes \<Rightarrow> client_data \<Rightarrow> client_data" where
  "doc_setFriendBase uuid nm d =
     (let entry = (case book d uuid of
          None \<Rightarrow> \<lparr>known_as = nm, public_key = None, symmetric_key = None\<rparr>
        | Some f \<Rightarrow> f\<lparr>known_as := nm\<rparr>)
      in d\<lparr>book := (book d)(uuid \<mapsto> entry)\<rparr>)"

text \<open>``Performs a lookup by client ID and returns the result if found.''\<close>

definition doc_tryGetFriendCopy :: "client_data \<Rightarrow> bytes \<Rightarrow> contact option" where
  "doc_tryGetFriendCopy d uuid = book d uuid"

text \<open>``Returns the matching ID if found'', or nothing ``if no matching client exists''. When
  several match, the comment leaves the choice open.\<close>

definition doc_tryGetFriendIdByName :: "client_data \<Rightarrow> bytes \<Rightarrow> bytes option \<Rightarrow> bool" where
  "doc_tryGetFriendIdByName d targetName r =
     (case r of
        None \<Rightarrow> \<forall>k f. book d k = Some f \<longrightarrow> known_as f \<noteq> targetName
      | Some k \<Rightarrow> \<exists>f. book d k = Some f \<and> known_as f = targetName)"

text \<open>``Updates the existing entry if the client is found.''\<close>

definition doc_setFriendPublicKey :: "bytes \<Rightarrow> bytes \<Rightarrow> client_data \<Rightarrow> client_data" where
  "doc_setFriendPublicKey uuid pubKey d =
     d\<lparr>book := (book d)(uuid := map_option (\<lambda>f. f\<lparr>public_key := Some pubKey\<rparr>) (book d uuid))\<rparr>"

definition doc_setFriendSymmetricKey :: "bytes \<Rightarrow> bytes \<Rightarrow> client_data \<Rightarrow> client_data" where
  "doc_setFriendSymmetricKey uuid symKey d =
     d\<lparr>book := (book d)(uuid := map_option (\<lambda>f. f\<lparr>symmetric_key := Some symKey\<rparr>) (book d uuid))\<rparr>"

text \<open>``Verifies that the client exists and has a valid symmetric key'', or public key.\<close>

definition doc_canSendText :: "client_data \<Rightarrow> bytes \<Rightarrow> bool" where
  "doc_canSendText d uuid = (\<exists>f k. book d uuid = Some f \<and> symmetric_key f = Some k)"

definition doc_canSendSymmetricKey :: "client_data \<Rightarrow> bytes \<Rightarrow> bool" where
  "doc_canSendSymmetricKey d uuid = (\<exists>f k. book d uuid = Some f \<and> public_key f = Some k)"

section \<open>Calls\<close>

datatype ctx_call =
    SetClientID bytes
  | SetName bytes
  | SetPrivateKey bytes
  | SetFriendBase bytes bytes
  | SetFriendPublicKey bytes bytes
  | SetFriendSymmetricKey bytes bytes

fun ctx_call_code :: "ctx_call \<Rightarrow> client_ctx \<Rightarrow> client_ctx" where
  "ctx_call_code (SetClientID i) = setClientID i"
| "ctx_call_code (SetName n) = setName n"
| "ctx_call_code (SetPrivateKey k) = setPrivateKey k"
| "ctx_call_code (SetFriendBase i n) = setFriendBase i n"
| "ctx_call_code (SetFriendPublicKey i k) = setFriendPublicKey i k"
| "ctx_call_code (SetFriendSymmetricKey i k) = setFriendSymmetricKey i k"

fun ctx_call_doc :: "ctx_call \<Rightarrow> client_data \<Rightarrow> client_data" where
  "ctx_call_doc (SetClientID i) d = d\<lparr>own_id := i\<rparr>"
| "ctx_call_doc (SetName n) d = d\<lparr>own_name := n\<rparr>"
| "ctx_call_doc (SetPrivateKey k) d = d\<lparr>own_key := k\<rparr>"
| "ctx_call_doc (SetFriendBase i n) d = doc_setFriendBase i n d"
| "ctx_call_doc (SetFriendPublicKey i k) d = doc_setFriendPublicKey i k d"
| "ctx_call_doc (SetFriendSymmetricKey i k) d = doc_setFriendSymmetricKey i k d"

text \<open>The argument types of the methods: arrays of fixed sizes.\<close>

fun ctx_call_typed :: "ctx_call \<Rightarrow> bool" where
  "ctx_call_typed (SetClientID i) = (length i = CLIENT_ID_SIZE)"
| "ctx_call_typed (SetFriendBase i n) = (length i = CLIENT_ID_SIZE)"
| "ctx_call_typed (SetFriendPublicKey i k) = (length i = CLIENT_ID_SIZE \<and> length k = PUBLIC_KEY_SIZE)"
| "ctx_call_typed (SetFriendSymmetricKey i k) = (length i = CLIENT_ID_SIZE \<and> length k = SYMMETRIC_KEY_SIZE)"
| "ctx_call_typed call = True"

section \<open>Implementation\<close>

locale implementation =
  fixes run :: "'call \<Rightarrow> 'c \<Rightarrow> 'c"
    and spec :: "'call \<Rightarrow> 'a \<Rightarrow> 'a"
    and abs :: "'c \<Rightarrow> 'a"
    and inv :: "'c \<Rightarrow> bool"
    and typed :: "'call \<Rightarrow> bool"
  assumes simulates: "inv c \<Longrightarrow> typed x \<Longrightarrow> abs (run x c) = spec x (abs c)"
    and inv_run: "inv c \<Longrightarrow> typed x \<Longrightarrow> inv (run x c)"
begin

lemma simulates_calls:
  "inv c \<Longrightarrow> \<forall>x\<in>set xs. typed x \<Longrightarrow> abs (fold run xs c) = fold spec xs (abs c) \<and> inv (fold run xs c)"
  by (induction xs arbitrary: c) (auto simp: simulates inv_run)

end

lemma contact_of_updates:
  "contact_of (f\<lparr>publicKey := p\<rparr>) = (contact_of f)\<lparr>public_key := p\<rparr>"
  "contact_of (f\<lparr>symmetricKey := s\<rparr>) = (contact_of f)\<lparr>symmetric_key := s\<rparr>"
  "contact_of (f\<lparr>friendID := i, friendName := n\<rparr>) = (contact_of f)\<lparr>known_as := n\<rparr>"
  "contact_of default_friend = \<lparr>known_as = [], public_key = None, symmetric_key = None\<rparr>"
  by (simp_all add: contact_of_def default_friend_def)

lemma data_of_call: "data_of (ctx_call_code x c) = ctx_call_doc x (data_of c)"
proof (cases x)
  case (SetFriendBase i n)
  show ?thesis
    by (simp add: SetFriendBase data_of_def identity_simps doc_setFriendBase_def fun_eq_iff tryGet_setFriendBase
        contact_of_updates Let_def split: option.split)
qed (auto simp: data_of_def ctx_simps doc_setFriendPublicKey_def doc_setFriendSymmetricKey_def fun_eq_iff
      contact_of_updates option.map_comp comp_def)

lemma ctx_wf_call: "ctx_wf c \<Longrightarrow> ctx_call_typed x \<Longrightarrow> ctx_wf (ctx_call_code x c)"
  by (cases x) (auto simp: ctx_wf_simple ctx_wf_setFriendBase ctx_wf_setFriendPublicKey ctx_wf_setFriendSymmetricKey)

interpretation ctx_impl: implementation ctx_call_code ctx_call_doc data_of ctx_wf ctx_call_typed
  by unfold_locales (simp_all add: data_of_call ctx_wf_call)

text \<open>The queries.\<close>

lemma canSend_data:
  "canSendText c k = doc_canSendText (data_of c) k"
  "canSendSymmetricKey c k = doc_canSendSymmetricKey (data_of c) k"
  by (auto simp: canSendText_def canSendSymmetricKey_def doc_canSendText_def doc_canSendSymmetricKey_def data_of_def
      contact_of_def tryGetFriendCopy_def split: option.split)

lemma hasClientID_data: "hasClientID c = doc_hasClientID (data_of c)"
  by (auto simp: hasClientID_def doc_hasClientID_def data_of_def list_ex_iff)

lemma search_data: "ctx_wf c \<Longrightarrow> doc_tryGetFriendIdByName (data_of c) n (tryGetFriendIdByName c n)"
  using tryGetFriendIdByName_None [of c n] tryGetFriendIdByName_Some [of c n]
  by (cases "tryGetFriendIdByName c n")
     (fastforce simp: doc_tryGetFriendIdByName_def data_of_def contact_of_def)+

section \<open>The property\<close>

text \<open>C25: after any sequence of calls of the setters, in the order in which the threads make them,
  the context holds what the comments of \<^verbatim>\<open>ClientContext.h\<close> promise, and each of its queries
  answers as promised.\<close>

lemma context_meets_contract:
  assumes "ctx_wf c" and "\<forall>x\<in>set calls. ctx_call_typed x" and "c' = fold ctx_call_code calls c"
    and "d = fold ctx_call_doc calls (data_of c)"
  shows "data_of c' = d \<and> ctx_wf c' \<and> hasClientID c' = doc_hasClientID d
    \<and> map_option contact_of (tryGetFriendCopy c' k) = doc_tryGetFriendCopy d k
    \<and> doc_tryGetFriendIdByName d n (tryGetFriendIdByName c' n)
    \<and> canSendText c' k = doc_canSendText d k \<and> canSendSymmetricKey c' k = doc_canSendSymmetricKey d k"
proof -
  have "data_of c' = d" "ctx_wf c'" using ctx_impl.simulates_calls [OF assms(1,2)] assms(3,4) by simp_all
  moreover have "map_option contact_of (tryGetFriendCopy c' k) = doc_tryGetFriendCopy (data_of c') k"
    by (simp add: doc_tryGetFriendCopy_def data_of_def)
  ultimately show ?thesis using search_data [of c' n] canSend_data [of c' k] hasClientID_data [of c'] by auto
qed

text \<open>A name learned twice, a key, and the queries after it.\<close>

lemma context_meets_contract_witness:
  "canSendText (fold ctx_call_code [SetFriendBase (replicate 16 1) (lit ''Al''), SetFriendSymmetricKey (replicate 16 1) (replicate 16 9),
       SetFriendBase (replicate 16 1) (lit ''Bo'')] init_ctx) (replicate 16 1)"
proof -
  let ?calls = "[SetFriendBase (replicate 16 1) (lit ''Al''), SetFriendSymmetricKey (replicate 16 1) (replicate 16 9),
       SetFriendBase (replicate 16 1) (lit ''Bo'')]"
  have "doc_canSendText (fold ctx_call_doc ?calls (data_of init_ctx)) (replicate 16 1)"
    by (simp add: doc_canSendText_def doc_setFriendBase_def doc_setFriendSymmetricKey_def Let_def)
  with context_meets_contract [OF ctx_wf_init _ refl refl, of ?calls] show ?thesis by simp
qed

end
