(* ===== verification/Action_Contract.thy ===== *)
theory Action_Contract
  imports Sample Context_Contract Client_Contracts
begin

text \<open>
  The contracts of the menu actions: what the comments in \<^verbatim>\<open>ClientActions.h\<close> and
  \<^verbatim>\<open>ClientActions.cpp\<close> promise of each handler, in terms of the protocol's requests
  (\<open>request_bytes\<close>, \<open>send_payload\<close>), of the lines the user types and of the abstract client data of
  \<open>Context_Contract\<close>. A result is the returned buffer with the data afterwards - no action is said to
  throw; \<open>None\<close> means that the prompt never returns.
\<close>

section \<open>The input\<close>

text \<open>``Returns a valid username string, or ``0'' if the user chooses to cancel'': the first line that
  is one; what the user typed after it.\<close>

definition doc_getValidUsername :: "client_world \<Rightarrow> bytes option" where
  "doc_getValidUsername w = List.find doc_isValidUsername (cin w)"

definition rest_input :: "client_world \<Rightarrow> bytes list" where
  "rest_input w = tl (dropWhile (\<lambda>l. \<not> doc_isValidUsername l) (cin w))"

definition cancelled :: "bytes \<Rightarrow> bool" where
  "cancelled nm \<longleftrightarrow> nm = lit ''0''"

text \<open>The multi-line input of a text: the lines up to the first empty one.\<close>

definition typed_text :: "bytes list \<Rightarrow> bytes" where
  "typed_text ls = concat (map (\<lambda>l. l @ nl) (takeWhile (\<lambda>l. l \<noteq> []) ls))"

section \<open>The handlers\<close>

type_synonym action_result = "(bytes \<times> client_data) option"

text \<open>``Prompts the user for a username, generates RSA key pairs'' and returns ``the registration
  request, or an empty buffer if the user is already registered or the operation is cancelled''.\<close>

definition doc_handleRegister :: "('sk, 'pk) crypto \<Rightarrow> client_world \<Rightarrow> action_result" where
  "doc_handleRegister cr w =
     (let d = data_of (ctx w) in
      if doc_hasClientID d then Some ([], d)
      else case doc_getValidUsername w of None \<Rightarrow> None | Some nm \<Rightarrow>
        if cancelled nm then Some ([], d)
        else let sk = rsa_generate cr (rng w) in
          Some (request_bytes (own_id d) 700 (padded_name nm @ rsa_save_public cr (rsa_public_of cr sk)),
                d\<lparr>own_name := nm, own_key := rsa_save_private cr sk\<rparr>))"

text \<open>``Returns a serialized buffer representing the clients list request'', or the waiting messages
  request.\<close>

definition doc_handleClientList :: "client_data \<Rightarrow> bytes" where
  "doc_handleClientList d = request_bytes (own_id d) 701 []"

definition doc_handleWaitingMessages :: "client_data \<Rightarrow> bytes" where
  "doc_handleWaitingMessages d = request_bytes (own_id d) 704 []"

text \<open>``The public key request, or an empty buffer if the user cancels or the target user is not
  found''. Which of several clients of the same name is meant the comments leave to the search.\<close>

definition doc_handlePublicKey :: "client_world \<Rightarrow> bytes option" where
  "doc_handlePublicKey w =
     (case doc_getValidUsername w of None \<Rightarrow> None | Some nm \<Rightarrow>
      if cancelled nm then Some []
      else case tryGetFriendIdByName (ctx w) nm of
        None \<Rightarrow> Some []
      | Some t \<Rightarrow> Some (request_bytes (own_id (data_of (ctx w))) 702 t))"

text \<open>``The encrypted message content, or an empty buffer if the input is empty or required data is
  missing''.\<close>

definition doc_handleSendText :: "('sk, 'pk) crypto \<Rightarrow> bytes \<Rightarrow> bytes \<Rightarrow> client_data \<Rightarrow> bytes" where
  "doc_handleSendText cr txt t d =
     (if txt = [] then []
      else case Option.bind (book d t) symmetric_key of None \<Rightarrow> [] | Some k \<Rightarrow> aes_encrypt cr k txt)"

text \<open>``Generates a new AES key, stores it in the client context, encrypts it using the target client's
  public key''; ``an empty buffer if the target client does not have a public key''. \<open>wrapped_key\<close> is what
  the library makes of the new key and the bytes stored as a public key; its errors, too, are
  ``handled by returning an empty buffer''.\<close>

definition new_key :: "('sk, 'pk) crypto \<Rightarrow> nat \<Rightarrow> bytes" where
  "new_key cr n = AESWrapper_random cr n (replicate 16 0)"

definition wrapped_key :: "('sk, 'pk) crypto \<Rightarrow> nat \<Rightarrow> bytes \<Rightarrow> client_data \<Rightarrow> (exn + bytes) option" where
  "wrapped_key cr n t d = map_option (\<lambda>pkey.
       case rsa_load_public cr pkey of Inl e \<Rightarrow> Inl e | Inr pk \<Rightarrow> oaep_encrypt cr (n + 4) pk (new_key cr n))
     (Option.bind (book d t) public_key)"

definition doc_handleSendSymmetricKey :: "('sk, 'pk) crypto \<Rightarrow> nat \<Rightarrow> bytes \<Rightarrow> client_data \<Rightarrow> bytes \<times> client_data" where
  "doc_handleSendSymmetricKey cr n t d =
     (case wrapped_key cr n t d of
        None \<Rightarrow> ([], d)
      | Some r \<Rightarrow> (case r of Inl e \<Rightarrow> [] | Inr c \<Rightarrow> c, doc_setFriendSymmetricKey t (new_key cr n) d))"

text \<open>The message request around a content, which is not sent when it is empty.\<close>

definition content_request :: "bytes \<Rightarrow> bytes \<Rightarrow> byte \<Rightarrow> bytes \<Rightarrow> bytes" where
  "content_request me t ty c = (if c = [] then [] else request_bytes me 703 (send_payload t ty c))"

text \<open>``Builds the appropriate message payload based on the selected action''; ``an empty buffer if the
  user cancels or validation fails''.\<close>

definition doc_handleAllMessages :: "('sk, 'pk) crypto \<Rightarrow> u16 \<Rightarrow> client_world \<Rightarrow> action_result" where
  "doc_handleAllMessages cr code w =
     (let d = data_of (ctx w) in
      case doc_getValidUsername w of None \<Rightarrow> None | Some nm \<Rightarrow>
      if cancelled nm then Some ([], d)
      else case tryGetFriendIdByName (ctx w) nm of None \<Rightarrow> Some ([], d) | Some t \<Rightarrow>
        if code = 150 then Some (content_request (own_id d) t 3 (doc_handleSendText cr (typed_text (rest_input w)) t d), d)
        else if code = 151 then Some (request_bytes (own_id d) 703 (send_payload t 1 []), d)
        else case doc_handleSendSymmetricKey cr (rng w) t d of (r, d') \<Rightarrow> Some (content_request (own_id d) t 2 r, d'))"

text \<open>``Maps the selected menu code to the appropriate handler function, builds the corresponding
  request''; ``an empty buffer if the operation is cancelled or invalid''.\<close>

definition doc_handleMenuChoice :: "('sk, 'pk) crypto \<Rightarrow> u16 \<Rightarrow> client_world \<Rightarrow> action_result" where
  "doc_handleMenuChoice cr code w =
     (let d = data_of (ctx w) in
      if code = 110 then doc_handleRegister cr w
      else if code = 120 then Some (doc_handleClientList d, d)
      else if code = 130 then map_option (\<lambda>q. (q, d)) (doc_handlePublicKey w)
      else if code = 140 then Some (doc_handleWaitingMessages d, d)
      else if code \<in> {150, 151, 152} then doc_handleAllMessages cr code w
      else Some ([], d))"

text \<open>Where the code does not keep the promise not to throw: when a symmetric key is to be sent and the
  bytes stored as the target's public key are not one, or cannot encrypt it.\<close>

definition key_error :: "('sk, 'pk) crypto \<Rightarrow> u16 \<Rightarrow> client_world \<Rightarrow> exn option" where
  "key_error cr code w =
     (if code \<noteq> 152 then None
      else case doc_getValidUsername w of None \<Rightarrow> None | Some nm \<Rightarrow>
      if cancelled nm then None
      else case tryGetFriendIdByName (ctx w) nm of None \<Rightarrow> None | Some t \<Rightarrow>
        (case wrapped_key cr (rng w) t (data_of (ctx w)) of Some (Inl e) \<Rightarrow> Some e | _ \<Rightarrow> None))"

definition returned :: "exn option \<Rightarrow> bytes \<times> client_data \<Rightarrow> (exn + bytes) \<times> client_data" where
  "returned err r = (case err of None \<Rightarrow> Inr (fst r) | Some e \<Rightarrow> Inl e, snd r)"

definition outcome_of :: "((exn + bytes) \<times> client_world) option \<Rightarrow> ((exn + bytes) \<times> client_data) option" where
  "outcome_of r = map_option (\<lambda>(r, w). (r, data_of (ctx w))) r"

text \<open>What fits the protocol: the typed text, its encryption and that of a symmetric key.\<close>

definition contents_fit :: "('sk, 'pk) crypto \<Rightarrow> client_world \<Rightarrow> bool" where
  "contents_fit cr w \<longleftrightarrow> length (typed_text (rest_input w)) < 2 ^ 32
     \<and> (\<forall>k. length k = 16 \<longrightarrow> 21 + length (aes_encrypt cr k (typed_text (rest_input w))) < 2 ^ 32)
     \<and> (\<forall>n pk k c. length k = 16 \<longrightarrow> oaep_encrypt cr n pk k = Inr c \<longrightarrow> 21 + length c < 2 ^ 32)"

section \<open>The prompt and the text\<close>

lemma prompt_doc:
  "case doc_getValidUsername w of
     None \<Rightarrow> getValidUsername prompt w = None
   | Some nm \<Rightarrow> \<exists>v. getValidUsername prompt w = Some (nm, v) \<and> cin v = rest_input w \<and> ctx v = ctx w \<and> rng v = rng w"
proof -
  have "acceptable = doc_isValidUsername" by (simp add: fun_eq_iff acceptable_fun isValidUsername_doc)
  then show ?thesis
    using username.run_find [of w prompt]
    by (auto simp: doc_getValidUsername_def rest_input_def dest: same_but_console_fields split: option.splits)
qed

lemma text_lines_typed: "fst (text_lines msg ls) = msg @ typed_text ls"
  by (induction msg ls rule: text_lines.induct) (auto simp: typed_text_def)

lemma own_id_ctx: "own_id (data_of c) = clientID c"
  by (simp add: data_of_def)

lemma book_ctx: "Option.bind (book (data_of c) t) symmetric_key = Option.bind (tryGetFriendCopy c t) symmetricKey"
  "Option.bind (book (data_of c) t) public_key = Option.bind (tryGetFriendCopy c t) publicKey"
  by (cases "tryGetFriendCopy c t"; simp add: data_of_def contact_of_def)+

lemma known_key:
  assumes "ctx_wf c"
  shows "Option.bind (tryGetFriendCopy c t) symmetricKey = Some k \<Longrightarrow> length k = 16"
    and "Option.bind (tryGetFriendCopy c t) publicKey = Some p \<Longrightarrow> length p = 160"
  using ctx_wfD(3) [OF assms, of t] by (auto simp: tryGetFriendCopy_def friend_wf_def bind_eq_Some_conv)

section \<open>The handlers keep their contracts\<close>

lemma handleSendText_doc:
  assumes "ctx_wf (ctx w)" and "length (typed_text (cin w)) < 2 ^ 32"
  shows "\<exists>w'. handleSendText cr t w = (Inr (doc_handleSendText cr (typed_text (cin w)) t (data_of (ctx w))), w') \<and> ctx w' = ctx w"
proof -
  obtain msg rest where t: "text_lines [] (cin w) = (msg, rest)" by fastforce
  then have m: "msg = typed_text (cin w)" using text_lines_typed [of "[]" "cin w"] by simp
  have cut: "take (unat (of_nat (length msg) :: u32)) msg = msg" using assms(2) m by (simp add: unat_of_nat)
  have key: "AESWrapper_key k AES_DEFAULT_KEYLENGTH = Inr k" if "Option.bind (tryGetFriendCopy (ctx w) t) symmetricKey = Some k" for k
    using known_key(1) [OF assms(1) that] by (simp add: AESWrapper_key_def)
  show ?thesis
    using t cut key unfolding doc_handleSendText_def book_ctx m [symmetric]
    by (auto simp: handleSendText_def Let_def split: option.splits)
qed

lemma handleSendSymmetricKey_doc:
  assumes "ctx_wf (ctx w)"
  shows "\<exists>w'. handleSendSymmetricKey cr t w =
        (case wrapped_key cr (rng w) t (data_of (ctx w)) of None \<Rightarrow> Inr [] | Some r \<Rightarrow> r, w')
    \<and> data_of (ctx w') = snd (doc_handleSendSymmetricKey cr (rng w) t (data_of (ctx w))) \<and> clientID (ctx w') = clientID (ctx w)"
proof (cases "Option.bind (tryGetFriendCopy (ctx w) t) publicKey")
  case None
  then show ?thesis by (auto simp: handleSendSymmetricKey_def doc_handleSendSymmetricKey_def wrapped_key_def book_ctx)
next
  case (Some pkey)
  let ?k = "AESWrapper_random cr (rng w) (replicate 16 0)"
  have k: "length ?k = 16" by (simp add: length_AESWrapper_random)
  have pkey: "take 160 pkey = pkey" using known_key(2) [OF assms Some] by simp
  have d: "data_of (setFriendSymmetricKey t ?k (ctx w)) = doc_setFriendSymmetricKey t ?k (data_of (ctx w))"
    using data_of_call [of "SetFriendSymmetricKey t ?k" "ctx w"] by simp
  show ?thesis
    using Some k d pkey
    by (auto simp: handleSendSymmetricKey_def doc_handleSendSymmetricKey_def wrapped_key_def new_key_def book_ctx Let_def ctx_simps
        RSAPublicWrapper_load_def RSAPublicWrapper_encrypt_def split: sum.splits)
qed

lemma handleAllMessages_doc:
  assumes "ctx_wf (ctx w)" and "contents_fit cr w" and "code \<in> {150, 151, 152}"
  shows "outcome_of (handleAllMessages cr code w) = map_option (returned (key_error cr code w)) (doc_handleAllMessages cr code w)"
proof (cases "doc_getValidUsername w")
  case None
  with prompt_doc [of target_prompt w] show ?thesis by (simp add: handleAllMessages_def doc_handleAllMessages_def outcome_of_def Let_def)
next
  case (Some nm)
  then obtain v where v: "getValidUsername target_prompt w = Some (nm, v)" "cin v = rest_input w" "ctx v = ctx w" "rng v = rng w"
    using prompt_doc [of target_prompt w] by auto
  show ?thesis
  proof (cases "cancelled nm \<or> tryGetFriendIdByName (ctx w) nm = None")
    case True
    then show ?thesis
      using v Some by (auto simp: handleAllMessages_def doc_handleAllMessages_def outcome_of_def Let_def cancelled_def key_error_def returned_def)
  next
    case False
    then obtain t where t: "tryGetFriendIdByName (ctx w) nm = Some t" "nm \<noteq> lit ''0''" by (auto simp: cancelled_def)
    then have len: "length t = 16" using tryGetFriendIdByName_Some [OF assms(1)] by blast
    consider "code = 150" | "code = 151" | "code = 152" using assms(3) by blast
    then show ?thesis
    proof cases
      case 1
      let ?c = "doc_handleSendText cr (typed_text (rest_input w)) t (data_of (ctx w))"
      obtain v' where v': "handleSendText cr t v = (Inr ?c, v')" "ctx v' = ctx w"
        using handleSendText_doc [of v cr t] assms(1,2) v by (auto simp: contents_fit_def)
      have "21 + length ?c < 2 ^ 32"
        using assms(2) known_key(1) [OF assms(1)]
        by (auto simp: doc_handleSendText_def contents_fit_def book_ctx split: option.splits)
      then have "(if ?c = [] then [] else message_request v' t (Some 3) ?c) = (if ?c = [] then [] else request_bytes (clientID (ctx w)) 703 (send_payload t 3 ?c))"
        using len v'(2) by (simp add: message_request_bytes)
      with 1 v v' t Some show ?thesis
        by (auto simp: handleAllMessages_def doc_handleAllMessages_def outcome_of_def content_request_def cancelled_def own_id_ctx Let_def
            key_error_def returned_def)
    next
      case 2
      with v t Some len show ?thesis
        by (simp add: handleAllMessages_def doc_handleAllMessages_def outcome_of_def cancelled_def own_id_ctx Let_def message_request_bytes
            key_error_def returned_def)
    next
      case 3
      let ?r = "wrapped_key cr (rng w) t (data_of (ctx w))"
      obtain v' where v': "handleSendSymmetricKey cr t v = (case ?r of None \<Rightarrow> Inr [] | Some r \<Rightarrow> r, v')"
        "data_of (ctx v') = snd (doc_handleSendSymmetricKey cr (rng w) t (data_of (ctx w)))" "clientID (ctx v') = clientID (ctx w)"
        using handleSendSymmetricKey_doc [of v cr t] assms(1) v by auto
      have fit: "21 + length c < 2 ^ 32" if c: "?r = Some (Inr c)" for c
      proof -
        obtain pkey where "(case rsa_load_public cr pkey of Inl e \<Rightarrow> Inl e | Inr pk \<Rightarrow> oaep_encrypt cr (rng w + 4) pk (new_key cr (rng w))) = Inr c"
          using c by (auto simp: wrapped_key_def)
        then obtain pk where "oaep_encrypt cr (rng w + 4) pk (new_key cr (rng w)) = Inr c"
          by (cases "rsa_load_public cr pkey") simp_all
        moreover have "length (new_key cr (rng w)) = 16" by (simp add: new_key_def length_AESWrapper_random)
        ultimately show ?thesis using assms(2) unfolding contents_fit_def by blast
      qed
      note simps = handleAllMessages_def doc_handleAllMessages_def outcome_of_def content_request_def cancelled_def own_id_ctx Let_def
        key_error_def returned_def doc_handleSendSymmetricKey_def
      show ?thesis
      proof (cases ?r)
        case None
        with 3 v v' t Some show ?thesis by (simp add: simps)
      next
        case (Some r)
        with 3 v v' t \<open>doc_getValidUsername w = Some nm\<close> len fit show ?thesis
          by (cases r) (simp_all add: simps message_request_bytes)
      qed
    qed
  qed
qed

lemma handlePublicKey_doc:
  assumes "ctx_wf (ctx w)"
  shows "outcome_of (handlePublicKey w) = map_option (\<lambda>q. (Inr q, data_of (ctx w))) (doc_handlePublicKey w)"
proof (cases "doc_getValidUsername w")
  case None
  with prompt_doc [of target_prompt w] show ?thesis by (simp add: handlePublicKey_def doc_handlePublicKey_def outcome_of_def)
next
  case (Some nm)
  then obtain v where v: "getValidUsername target_prompt w = Some (nm, v)" "ctx v = ctx w"
    using prompt_doc [of target_prompt w] by auto
  have "length t = 16" if "tryGetFriendIdByName (ctx w) nm = Some t" for t
    using tryGetFriendIdByName_Some [OF assms that] by blast
  with v Some show ?thesis
    by (auto simp: handlePublicKey_def doc_handlePublicKey_def outcome_of_def cancelled_def own_id_ctx payload_request split: option.splits)
qed

text \<open>The registration keeps its contract except when it should be cancelled.\<close>

lemma handleRegister_doc:
  assumes "crypto_ok cr" and "hasClientID (ctx w) \<or> doc_getValidUsername w \<noteq> Some (lit ''0'')"
  shows "outcome_of (handleRegister cr w) = map_option (returned None) (doc_handleRegister cr w)"
proof (cases "hasClientID (ctx w) \<or> doc_getValidUsername w = None")
  case True
  then show ?thesis
    using prompt_doc [of "lit ''Please enter your username: ''" w]
    by (auto simp: handleRegister_def doc_handleRegister_def outcome_of_def hasClientID_data [symmetric] Let_def returned_def)
next
  case False
  then obtain nm v where nm: "doc_getValidUsername w = Some nm" "\<not> cancelled nm"
    and v: "getValidUsername (lit ''Please enter your username: '') w = Some (nm, v)" "ctx v = ctx w" "rng v = rng w"
    using prompt_doc [of "lit ''Please enter your username: ''" w] assms(2) by (auto simp: cancelled_def)
  let ?sk = "rsa_generate cr (rng w)"
  let ?pk = "rsa_save_public cr (rsa_public_of cr ?sk)"
  have len: "length nm \<le> 254" using nm(1) by (auto simp: doc_getValidUsername_def find_Some_iff doc_isValidUsername_def)
  note pk = crypto_okD(7) [OF assms(1), of "rng w"]
  have key: "RSAPrivateWrapper_getPublicKey cr (RSAPrivateWrapper_generate cr (rng w)) (replicate RSA_KEYSIZE 0) RSA_KEYSIZE = ?pk"
    using pk by (simp add: RSAPrivateWrapper_generate_def RSAPrivateWrapper_getPublicKey_full)
  have "length (padded_name nm @ ?pk) < 2 ^ 32" using len pk by (simp add: padded_name_def)
  note req = payload_request [OF this, of "clientID (ctx w)" 700]
  have d: "data_of (setPrivateKey (rsa_save_private cr ?sk) (setName nm (ctx w)))
      = (data_of (ctx w))\<lparr>own_name := nm, own_key := rsa_save_private cr ?sk\<rparr>"
    by (simp add: data_of_def ctx_simps)
  have sk: "RSAPrivateWrapper_getPrivateKey cr (RSAPrivateWrapper_generate cr (rng w)) = rsa_save_private cr ?sk"
    by (simp add: RSAPrivateWrapper_getPrivateKey_def RSAPrivateWrapper_generate_def)
  have "outcome_of (handleRegister cr w) = Some (Inr (request_bytes (clientID (ctx w)) 700 (padded_name nm @ ?pk)),
      (data_of (ctx w))\<lparr>own_name := nm, own_key := rsa_save_private cr ?sk\<rparr>)"
    using False v name_field [OF len] key req d sk by (simp add: handleRegister_def outcome_of_def Let_def ctx_simps)
  then show ?thesis using False nm by (simp add: doc_handleRegister_def hasClientID_data [symmetric] own_id_ctx Let_def returned_def)
qed

section \<open>The property\<close>

text \<open>C29: every menu action, on every branch, has the outcome that the comments of
  \<^verbatim>\<open>ClientActions.h\<close> and \<^verbatim>\<open>ClientActions.cpp\<close> promise: the buffer, empty exactly in the cases they
  name, byte for byte the protocol's request otherwise, the client data afterwards, and not returning
  when no line is a name. There are two exceptions. The cancelled registration is excluded here. And where
  the comments promise not to throw, the sending of a symmetric key throws exactly when the bytes stored as
  the target's public key do not load or do not encrypt it, with the new key already stored. The client's
  state keeps its types, the library does what it documents (\<open>crypto_ok\<close>), and the typed text and the
  ciphertexts fit the 32-bit size fields of the protocol (\<open>contents_fit\<close>).\<close>

lemma actions_meet_contract:
  assumes "crypto_ok cr" and "world_wf w" and "contents_fit cr w"
    and "\<not> (code = 110 \<and> \<not> hasClientID (ctx w) \<and> doc_getValidUsername w = Some (lit ''0''))"
  shows "outcome_of (handleMenuChoice cr code w) = map_option (returned (key_error cr code w)) (doc_handleMenuChoice cr code w)"
proof -
  have wf: "ctx_wf (ctx w)" and id: "length (clientID (ctx w)) = 16"
    using assms(2) world_wf_id by (simp_all add: world_wf_def)
  have "outcome_of (handleRegister cr w) = map_option (returned None) (doc_handleRegister cr w)" if "code = 110"
    using handleRegister_doc [OF assms(1), of w] assms(4) that by blast
  moreover have "key_error cr c w = None" if "c \<noteq> 152" for c using that by (simp add: key_error_def)
  moreover have "outcome_of (handleAllMessages cr c w) = map_option (returned (key_error cr c w)) (doc_handleAllMessages cr c w)"
    if "c = 150 \<or> c = 151 \<or> c = 152" for c
    using handleAllMessages_doc [OF wf assms(3), of c] that by blast
  moreover have "outcome_of (Some (r, w)) = Some (r, data_of (ctx w))" for r w by (simp add: outcome_of_def)
  moreover have "returned None (q, d) = (Inr q, d)" for q d by (simp add: returned_def)
  moreover have "map_option (returned None) (map_option (\<lambda>q. (q, d)) x) = map_option (\<lambda>q. (Inr q, d)) x" for d x
    by (cases x) (simp_all add: returned_def)
  ultimately show ?thesis
    using id handlePublicKey_doc [OF wf]
    by (simp add: handleMenuChoice_def doc_handleMenuChoice_def doc_handleClientList_def doc_handleWaitingMessages_def
        handleClientList_def handleWaitingMessages_def empty_request own_id_ctx Let_def)
qed

lemma actions_meet_contract_witness:
  "outcome_of (handleMenuChoice toy 152 (alice_world [[], bob_name]))
     = Some (Inr (request_bytes alice 703 (send_payload bob 2 (66 # AESWrapper_random toy 0 (replicate 16 0)))),
             doc_setFriendSymmetricKey bob (AESWrapper_random toy 0 (replicate 16 0)) (data_of alice_ctx))"
proof -
  let ?w = "alice_world [[], bob_name]"
  have rest: "rest_input ?w = []" and find: "doc_getValidUsername ?w = Some bob_name"
    using sample_names(2) by (simp_all add: rest_input_def doc_getValidUsername_def sample_worlds isValidUsername_doc [symmetric])
  have fit: "contents_fit toy ?w"
    by (auto simp: contents_fit_def rest typed_text_def toy_facts toy_keys)
  have doc: "doc_handleMenuChoice toy 152 ?w
     = Some (request_bytes alice 703 (send_payload bob 2 (66 # AESWrapper_random toy 0 (replicate 16 0))),
             doc_setFriendSymmetricKey bob (AESWrapper_random toy 0 (replicate 16 0)) (data_of alice_ctx))"
    "key_error toy 152 ?w = None"
    using find sample_names(5)
    by (simp_all add: doc_handleMenuChoice_def doc_handleAllMessages_def doc_handleSendSymmetricKey_def content_request_def cancelled_def
        sample_worlds sample_friends book_ctx own_id_ctx toy_facts toy_keys wrapped_key_def new_key_def key_error_def Let_def)
  show ?thesis
    using actions_meet_contract [OF crypto_ok_toy world_wf_sample(1) fit, of 152] doc by (simp add: returned_def)
qed

end
