(* ===== verification/Response_Contract.thy ===== *)
theory Response_Contract
  imports Sample Context_Contract
begin

text \<open>
  The contracts of the response handlers: what the comments in \<^verbatim>\<open>ResponseClient.h\<close> and
  \<^verbatim>\<open>ResponseClient.cpp\<close> promise of each, on the abstract client data of \<open>Context_Contract\<close>, with the
  payload read by the readers of \<open>Wire_Format\<close>. A handler's outcome is a verdict, what it tells the
  user, and the data afterwards; \<open>render\<close> is the text it prints for it.
\<close>

section \<open>Outcomes\<close>

datatype verdict =
    Handled
  | Malformed
  | Unknown_target
  | Raised exn

text \<open>``@throws std::runtime_error If the response is too small or malformed''; the other exceptions
  are not announced.\<close>

fun delivers :: "verdict \<Rightarrow> exn + unit \<Rightarrow> bool" where
  "delivers Handled r \<longleftrightarrow> r = Inr ()"
| "delivers Malformed r \<longleftrightarrow> (\<exists>m. r = Inl (Runtime_error m))"
| "delivers Unknown_target r \<longleftrightarrow> (\<exists>m. r = Inl (Logic_error m))"
| "delivers (Raised e) r \<longleftrightarrow> r = Inl e"

datatype body =
    Key_asked
  | Key_stored
  | Text_shown bytes
  | Undecryptable
  | Unsupported nat

datatype notice =
    Not_saved
  | Not_created
  | Not_written
  | Registered bytes bytes
  | Listed bytes bytes
  | Key_shown bytes bytes
  | Confirmed bytes nat
  | No_messages
  | Message_shown bytes body
  | General_error
  | Unknown_code nat

fun render_body :: "body \<Rightarrow> bytes" where
  "render_body Key_asked = lit ''Request for symmetric key'' @ nl"
| "render_body Key_stored = lit ''symmetric key received'' @ nl"
| "render_body (Text_shown t) = t @ nl"
| "render_body Undecryptable = cant_decrypt"
| "render_body (Unsupported n) = lit ''[Unsupported message type: '' @ show_dec n @ lit '']'' @ nl"

fun render :: "('sk, 'pk) crypto \<Rightarrow> notice \<Rightarrow> bytes" where
  "render cr Not_saved = lit ''Cannot save my.info: client data is incomplete.'' @ nl"
| "render cr Not_created = lit ''Failed to create my.info file.'' @ nl"
| "render cr Not_written = lit ''Failed to write my.info file.'' @ nl"
| "render cr (Registered n i) = lit ''----- Client Context -----'' @ nl @ lit ''Name: '' @ n @ nl @ lit ''Client ID: '' @ bytesToHex i @ nl"
| "render cr (Listed n i) = n @ lit '' : '' @ bytesToHex i @ nl"
| "render cr (Key_shown i k) = lit ''Received public key for '' @ bytesToHex i @ nl @ lit ''Public Key (Base64):'' @ nl @ base64_encode cr k @ nl"
| "render cr (Confirmed n m) = lit ''Your message has been sent to '' @ n @ lit '' and assigned '' @ show_dec m @ lit '' message ID.'' @ nl"
| "render cr No_messages = lit ''No waiting messages.'' @ nl"
| "render cr (Message_shown n b) = lit ''From: '' @ n @ nl @ lit ''Content:'' @ nl @ render_body b @ lit ''-----<EOM>-----'' @ nl @ nl"
| "render cr General_error = lit ''server responded with an error'' @ nl"
| "render cr (Unknown_code n) = lit ''Unknown response code: '' @ show_dec n @ nl"

type_synonym reply = "verdict \<times> notice list \<times> client_data"

text \<open>What the disk makes of the file: there is no path to it, it does not open, only some of it is written
  (which \<^verbatim>\<open>saveMyInfo\<close> notices or not), or it is written.\<close>

datatype disk = No_path exn | Not_opened | Cut nat bool | Writable

definition disk_of :: "client_world \<Rightarrow> disk" where
  "disk_of w = (case getExecutableDirectory w of Inl e \<Rightarrow> No_path e | Inr _ \<Rightarrow>
     if \<not> my_info_open_ok w then Not_opened
     else case my_info_short_write w of None \<Rightarrow> Writable | Some (n, seen) \<Rightarrow> Cut n seen)"

definition file_after :: "disk \<Rightarrow> bytes \<Rightarrow> bytes" where
  "file_after dk text = (case dk of Cut n _ \<Rightarrow> take n text | _ \<Rightarrow> text)"

section \<open>The handlers\<close>

text \<open>``Extracts the assigned client ID from the response, updates the client context, saves the
  client data to disk, and prints the registration details.'' Without a path to the file, the
  exception of \<^verbatim>\<open>saveMyInfo\<close> comes before the details.\<close>

definition doc_responseRegister :: "disk \<Rightarrow> bytes \<Rightarrow> client_data \<Rightarrow> reply" where
  "doc_responseRegister dk p d =
     (if length p < 16 then (Malformed, [], d)
      else let d = d\<lparr>own_id := take 16 p\<rparr>; details = Registered (own_name d) (own_id d) in
        if \<not> (doc_hasClientID d \<and> own_name d \<noteq> [] \<and> own_key d \<noteq> []) then (Handled, [Not_saved, details], d)
        else case dk of
            No_path e \<Rightarrow> (Raised e, [], d)
          | Not_opened \<Rightarrow> (Handled, [Not_created, details], d)
          | Cut n seen \<Rightarrow> (Handled, (if seen then [Not_written] else []) @ [details], d)
          | Writable \<Rightarrow> (Handled, [details], d))"

text \<open>``Parses all client entries in the response, prints their names and IDs, and updates the local
  client cache.'' Nothing is stored unless all of them parse.\<close>

definition doc_responseClientList :: "bytes \<Rightarrow> client_data \<Rightarrow> reply" where
  "doc_responseClientList p d =
     (case decode_all (length p) dec_entry p of (es, rest) \<Rightarrow>
        if rest \<noteq> [] then (Malformed, [], d)
        else (Handled, map (\<lambda>(i, n). Listed n i) es, fold (\<lambda>(i, n). doc_setFriendBase i n) es d))"

text \<open>``Extracts the client ID and public key, updates the local client cache, and prints the received
  key in a readable format.''\<close>

definition doc_known :: "bytes \<Rightarrow> client_data \<Rightarrow> client_data" where
  "doc_known i d = (if book d i = None then doc_setFriendBase i [] d else d)"

definition doc_responsePublicKey :: "bytes \<Rightarrow> client_data \<Rightarrow> reply" where
  "doc_responsePublicKey p d =
     (if length p < 176 then (Malformed, [], d)
      else let i = take 16 p; k = bslice 16 160 p
        in (Handled, [Key_shown i k], doc_setFriendPublicKey i k (doc_known i d)))"

text \<open>``Extracts the target client ID and message ID, and displays a confirmation message.''\<close>

definition doc_responseMessageSent :: "bytes \<Rightarrow> client_data \<Rightarrow> reply" where
  "doc_responseMessageSent p d =
     (if length p < 20 then (Malformed, [], d)
      else case book d (take 16 p) of
        None \<Rightarrow> (Unknown_target, [], d)
      | Some f \<Rightarrow> (Handled, [Confirmed (known_as f) (unat (le32 (drop 16 p)))], d))"

text \<open>``Decrypts the symmetric key using the client's private RSA key, validates its size, stores it in
  the client context, and updates the local cache.''\<close>

definition doc_handleSymmetricKeyMessage ::
    "('sk, 'pk) crypto \<Rightarrow> 'sk \<Rightarrow> bytes \<Rightarrow> bytes \<Rightarrow> client_data \<Rightarrow> body \<times> client_data" where
  "doc_handleSymmetricKeyMessage cr sk i c d =
     (case oaep_decrypt cr sk c of
        Inr k \<Rightarrow> if length k = 16 then (Key_stored, doc_setFriendSymmetricKey i k (doc_known i d)) else (Undecryptable, d)
      | Inl _ \<Rightarrow> (Undecryptable, d))"

text \<open>``Verifies that a symmetric key exists for the sender, decrypts the message using AES, and
  prints the resulting plaintext.''\<close>

definition doc_handleTextMessage :: "('sk, 'pk) crypto \<Rightarrow> bytes \<Rightarrow> bytes \<Rightarrow> client_data \<Rightarrow> body" where
  "doc_handleTextMessage cr i c d =
     (case Option.bind (book d i) symmetric_key of
        None \<Rightarrow> Undecryptable
      | Some k \<Rightarrow> (case aes_decrypt cr k c of Inl _ \<Rightarrow> Undecryptable | Inr t \<Rightarrow> Text_shown t))"

text \<open>``Parses each message entry, identifies its type, and processes it accordingly, including
  decrypting symmetric keys and text messages when possible.''\<close>

definition doc_sender :: "client_data \<Rightarrow> bytes \<Rightarrow> bytes" where
  "doc_sender d i = (case book d i of None \<Rightarrow> bytesToHex i | Some f \<Rightarrow> if known_as f = [] then bytesToHex i else known_as f)"

definition doc_message :: "('sk, 'pk) crypto \<Rightarrow> 'sk \<Rightarrow> waiting_record \<Rightarrow> client_data \<Rightarrow> notice \<times> client_data" where
  "doc_message cr sk r d =
     (let i = wr_from r; c = wr_content r;
          (b, d') = (if wr_type r = 1 then (Key_asked, d)
            else if wr_type r = 2 then doc_handleSymmetricKeyMessage cr sk i c d
            else if wr_type r = 3 then (doc_handleTextMessage cr i c d, d)
            else (Unsupported (unat (wr_type r)), d))
      in (Message_shown (doc_sender d i) b, d'))"

fun doc_messages :: "('sk, 'pk) crypto \<Rightarrow> 'sk \<Rightarrow> waiting_record list \<Rightarrow> client_data \<Rightarrow> notice list \<times> client_data" where
  "doc_messages cr sk [] d = ([], d)"
| "doc_messages cr sk (r # rs) d =
     (let (n, d) = doc_message cr sk r d; (ns, d) = doc_messages cr sk rs d in (n # ns, d))"

definition doc_responseWaitingMessages :: "('sk, 'pk) crypto \<Rightarrow> bytes \<Rightarrow> client_data \<Rightarrow> reply" where
  "doc_responseWaitingMessages cr p d =
     (if p = [] then (Handled, [No_messages], d)
      else case rsa_load_private cr (own_key d) of Inl e \<Rightarrow> (Raised e, [], d) | Inr sk \<Rightarrow>
        let (rs, rest) = decode_all (length p) dec_record p; (ns, d) = doc_messages cr sk rs d
        in (if rest = [] then Handled else Malformed, ns, d))"

text \<open>``Handles a general error response from the server. Displays an error message to the user.''\<close>

definition doc_responseErrorGeneral :: "client_data \<Rightarrow> reply" where
  "doc_responseErrorGeneral d = (Handled, [General_error], d)"

text \<open>``Copies the required number of bytes'' at the offset, and throws ``if there are not enough bytes in
  the buffer''.\<close>

definition doc_readClientID :: "bytes \<Rightarrow> nat \<Rightarrow> exn + bytes \<Rightarrow> bool" where
  "doc_readClientID data off res =
     (if off + 16 \<le> length data then \<exists>a b cid. data = a @ cid @ b \<and> length a = off \<and> length cid = 16 \<and> res = Inr cid
      else \<exists>m. res = Inl (Runtime_error m))"

text \<open>``Parses the response header, extracts the response code, and routes the data to the
  appropriate handler function.''\<close>

definition doc_responseClientMain :: "('sk, 'pk) crypto \<Rightarrow> disk \<Rightarrow> bytes \<Rightarrow> client_data \<Rightarrow> reply" where
  "doc_responseClientMain cr dk data d =
     (if length data < 7 then (Malformed, [], d)
      else let code = unat (data ! 1) + 256 * unat (data ! 2); p = drop 7 data in
        if code = 2100 then doc_responseRegister dk p d
        else if code = 2101 then doc_responseClientList p d
        else if code = 2102 then doc_responsePublicKey p d
        else if code = 2103 then doc_responseMessageSent p d
        else if code = 2104 then doc_responseWaitingMessages cr p d
        else if code = 9000 then doc_responseErrorGeneral d
        else (Handled, [Unknown_code code], d))"

text \<open>A run of the code has a promised outcome; a registration that is neither refused nor without a file
  is on disk, as far as it was written.\<close>

definition stored :: "notice list \<Rightarrow> bool" where
  "stored ns \<longleftrightarrow> list_ex (\<lambda>n. case n of Registered _ _ \<Rightarrow> True | _ \<Rightarrow> False) ns \<and> Not_saved \<notin> set ns \<and> Not_created \<notin> set ns"

definition fulfils :: "('sk, 'pk) crypto \<Rightarrow> client_world \<Rightarrow> (exn + unit) \<times> client_world \<Rightarrow> reply \<Rightarrow> bool" where
  "fulfils cr w run out =
     (case run of (r, w') \<Rightarrow> case out of (v, ns, d) \<Rightarrow>
        delivers v r \<and> data_of (ctx w') = d \<and> cout w' = cout w @ concat (map (render cr) ns)
        \<and> my_info w' = (if stored ns then Some (file_after (disk_of w) (my_info_text cr (ctx w'))) else my_info w))"

section \<open>The code keeps the contracts\<close>

lemma book_data: "book (data_of c) i = map_option contact_of (tryGetFriendCopy c i)"
  by (simp add: data_of_def)

lemma contact_fields: "known_as (contact_of f) = friendName f" "symmetric_key (contact_of f) = symmetricKey f"
  by (simp_all add: contact_of_def)

lemma data_of_known:
  "data_of (ctx (if tryGetFriendCopy (ctx w) i = None then upd_ctx (setFriendBase i []) w else w)) = doc_known i (data_of (ctx w))"
  using data_of_call [of "SetFriendBase i []" "ctx w"] by (simp add: doc_known_def book_data)

lemma data_of_setters:
  "data_of (setFriendBase i n c) = doc_setFriendBase i n (data_of c)"
  "data_of (setFriendPublicKey i k c) = doc_setFriendPublicKey i k (data_of c)"
  "data_of (setFriendSymmetricKey i k c) = doc_setFriendSymmetricKey i k (data_of c)"
  "data_of (setClientID j c) = (data_of c)\<lparr>own_id := j\<rparr>"
  using data_of_call [of "SetFriendBase i n" c] data_of_call [of "SetFriendPublicKey i k" c]
    data_of_call [of "SetFriendSymmetricKey i k" c] data_of_call [of "SetClientID j" c] by simp_all

lemma cout_if: "cout (if b then upd_ctx f w else w) = cout w"
  by simp

lemma readClientID_doc:
  assumes "off + 16 < 2 ^ 64"
  shows "doc_readClientID data off (readClientID data off)"
proof (cases "off + 16 \<le> length data")
  case True
  have "data = take off data @ bslice off 16 data @ drop (off + 16) data"
    by (simp add: bslice_def) (metis add.commute append_take_drop_id drop_drop)
  moreover have "length (take off data) = off" "length (bslice off 16 data) = 16"
    using True by (simp_all add: bslice_def)
  moreover have "readClientID data off = Inr (bslice off 16 data)" using True by (simp add: readClientID_def)
  ultimately show ?thesis using True unfolding doc_readClientID_def if_P [OF True] by blast
next
  case False
  with readClientID_throws [of data off] assms show ?thesis by (simp add: doc_readClientID_def)
qed

lemma readClientID_wraps:
  assumes "off < 2 ^ 64" and "2 ^ 64 \<le> off + 16" and "16 \<le> length data" and "length data < off"
  shows "readClientID data off = Inl Undefined"
  using assms by (simp add: readClientID_def size_add_wraps)

lemma readClientID_payload: "16 \<le> length (drop 7 data) \<Longrightarrow> readClientID data 7 = Inr (take 16 (drop 7 data))"
  by (simp add: readClientID_def bslice_def)

lemma responseRegister_doc:
  assumes "7 \<le> length data"
  shows "fulfils cr w (responseRegister cr data w) (doc_responseRegister (disk_of w) (drop 7 data) (data_of (ctx w)))"
proof (cases "length data < 23")
  case True
  then have "length data - 7 < 16" using assms by simp
  with True show ?thesis by (simp add: responseRegister_def readClientID_def doc_responseRegister_def fulfils_def stored_def)
next
  case False
  let ?cid = "take 16 (drop 7 data)"
  let ?w = "upd_ctx (setClientID ?cid) w" and ?d = "data_of (setClientID ?cid (ctx w))"
  have cid: "readClientID data 7 = Inr ?cid" using False by (simp add: readClientID_payload)
  have len: "length ?cid = 16" using False by simp
  have same: "getExecutableDirectory ?w = getExecutableDirectory w" by (simp add: getExecutableDirectory_def)
  have fields: "own_name ?d = userName (ctx ?w)" "own_key ?d = privateKey (ctx ?w)" "own_id ?d = ?cid"
    "doc_hasClientID ?d = hasClientID (ctx ?w)"
    by (simp_all add: data_of_def hasClientID_data ctx_simps)
  have d: "(data_of (ctx w))\<lparr>own_id := ?cid\<rparr> = ?d" by (simp add: data_of_setters)
  show ?thesis
    using False len
    unfolding fulfils_def responseRegister_def cid sum.case doc_responseRegister_def d Let_def fields saveMyInfo_def disk_of_def same
    by (auto simp: stored_def show_hex_bytes_id ctx_simps data_of_def my_info_text_def file_after_def Let_def
        split: sum.split option.split)
qed

lemma fold_learn_doc:
  "data_of (ctx (fold learn es w)) = fold (\<lambda>(i, n). doc_setFriendBase i n) es (data_of (ctx w))
   \<and> cout (fold learn es w) = cout w @ concat (map (render cr) (map (\<lambda>(i, n). Listed n i) es))
   \<and> my_info (fold learn es w) = my_info w"
  by (induction es arbitrary: w) (auto simp: learn_def data_of_setters)

lemma not_stored:
  "\<not> stored (map (\<lambda>(i, n). Listed n i) es)"
  by (induction es) (auto simp: stored_def)

lemma decode_entries_rest:
  "decode_all n dec_entry bs = (es, rest) \<Longrightarrow> length bs \<le> n \<Longrightarrow> rest = [] \<longleftrightarrow> length bs mod 271 = 0"
proof (induction n arbitrary: bs es rest)
  case (Suc n)
  show ?case
  proof (cases "length bs < 271")
    case True
    with Suc.prems show ?thesis by (auto simp: dec_entry_def [of bs] split: if_splits)
  next
    case False
    then obtain es' where "decode_all n dec_entry (drop 271 bs) = (es', rest)"
      using Suc.prems(1) by (auto simp: dec_entry_def [of bs] split: if_splits prod.splits)
    from Suc.IH [OF this] have "rest = [] \<longleftrightarrow> (length bs - 271) mod 271 = 0" using Suc.prems(2) by simp
    also have "(length bs - 271) mod 271 = length bs mod 271" using False by (simp add: le_mod_geq)
    finally show ?thesis .
  qed
qed auto

lemma responseClientList_doc:
  assumes "7 \<le> length data"
  shows "fulfils cr w (responseClientList data w) (doc_responseClientList (drop 7 data) (data_of (ctx w)))"
proof -
  obtain es rest where dec: "decode_all (length (drop 7 data)) dec_entry (drop 7 data) = (es, rest)" by fastforce
  then have whole: "rest = [] \<longleftrightarrow> (length data - 7) mod 271 = 0"
    using decode_entries_rest [OF dec] by simp
  have "decode_all (length data) dec_entry (drop 7 data) = (es, rest)"
    using entries.decode_all_fuel [of "drop 7 data" "length (drop 7 data)" 7] dec assms by simp
  then show ?thesis
    using whole dec assms responseClientList_refines [OF assms, of es rest w] fold_learn_doc [where cr = cr] not_stored
    by (auto simp: fulfils_def doc_responseClientList_def responseClientList_def stored_def)
qed

lemma responsePublicKey_doc:
  assumes "7 \<le> length data"
  shows "fulfils cr w (responsePublicKey cr data w) (doc_responsePublicKey (drop 7 data) (data_of (ctx w)))"
proof (cases "length data < 183")
  case True
  then have "length data - 7 < 176" using assms by simp
  with True show ?thesis by (simp add: fulfils_def responsePublicKey_def doc_responsePublicKey_def stored_def)
next
  case False
  then show ?thesis
    using data_of_known [of w "take 16 (drop 7 data)"] readClientID_payload [of data]
    by (auto simp: fulfils_def responsePublicKey_def doc_responsePublicKey_def stored_def data_of_setters Let_def
        Base64Wrapper_encode_def bslice_def)
qed

lemma responseMessageSent_doc:
  assumes "7 \<le> length data"
  shows "fulfils cr w (responseMessageSent data w) (doc_responseMessageSent (drop 7 data) (data_of (ctx w)))"
proof (cases "length data < 27")
  case True
  then have "length data - 7 < 20" using assms by simp
  with True show ?thesis by (simp add: fulfils_def responseMessageSent_def doc_responseMessageSent_def stored_def)
next
  case False
  then have "readUint32LE data 23 = Inr (le32 (drop 23 data))" by (intro readUint32LE_le32) simp
  with False show ?thesis
    using readClientID_payload [of data]
    by (auto simp: fulfils_def responseMessageSent_def doc_responseMessageSent_def stored_def book_data contact_fields
        split: option.splits)
qed

lemma handleSymmetricKeyMessage_doc:
  "(case doc_handleSymmetricKeyMessage cr sk i c (data_of (ctx w)) of (b, d) \<Rightarrow>
     data_of (ctx (handleSymmetricKeyMessage cr sk i c w)) = d
     \<and> cout (handleSymmetricKeyMessage cr sk i c w) = cout w @ render_body b
     \<and> my_info (handleSymmetricKeyMessage cr sk i c w) = my_info w)"
  using data_of_known [of w i]
  by (auto simp: handleSymmetricKeyMessage_def doc_handleSymmetricKeyMessage_def RSAPrivateWrapper_decrypt_def
      data_of_setters Let_def split: sum.splits)

lemma handleTextMessage_doc:
  assumes "world_wf w"
  shows "handleTextMessage cr i c w = say (render_body (doc_handleTextMessage cr i c (data_of (ctx w)))) w"
proof (cases "Option.bind (tryGetFriendCopy (ctx w) i) symmetricKey")
  case None
  then show ?thesis
    by (cases "tryGetFriendCopy (ctx w) i") (simp_all add: handleTextMessage_def doc_handleTextMessage_def book_data contact_fields)
next
  case (Some k)
  then obtain f where f: "tryGetFriendCopy (ctx w) i = Some f" "symmetricKey f = Some k" by (auto simp: bind_eq_Some_conv)
  then have "length k = 16"
    using ctx_wfD(3) [of "ctx w" i f] assms by (auto simp: world_wf_def tryGetFriendCopy_def friend_wf_def)
  with f show ?thesis
    by (simp add: handleTextMessage_def doc_handleTextMessage_def book_data contact_fields AESWrapper_key_def split: sum.split)
qed

lemma displayName_doc: "displayName c i = doc_sender (data_of c) i"
  by (simp add: displayName_def doc_sender_def book_data contact_fields split: option.split)

lemma showRecord_doc:
  assumes "world_wf w" and "doc_message cr sk r (data_of (ctx w)) = (n, d)"
  shows "data_of (ctx (showRecord cr sk (wr_from r) (wr_type r) (wr_content r) w)) = d
    \<and> cout (showRecord cr sk (wr_from r) (wr_type r) (wr_content r) w) = cout w @ render cr n
    \<and> my_info (showRecord cr sk (wr_from r) (wr_type r) (wr_content r) w) = my_info w"
  using assms handleSymmetricKeyMessage_doc [of cr sk "wr_from r" "wr_content r"
      "say (lit ''Content:'' @ nl) (say (lit ''From: '' @ displayName (ctx w) (wr_from r) @ nl) w)"]
  by (auto simp: showRecord_def doc_message_def handleTextMessage_doc displayName_doc Let_def split: prod.splits if_splits)

lemma showAll_doc:
  assumes "world_wf w" and "\<forall>r\<in>set rs. length (wr_from r) = 16" and "doc_messages cr sk rs (data_of (ctx w)) = (ns, d)"
  shows "data_of (ctx (showAll cr sk rs w)) = d \<and> cout (showAll cr sk rs w) = cout w @ concat (map (render cr) ns)
    \<and> my_info (showAll cr sk rs w) = my_info w \<and> \<not> stored ns"
  using assms
proof (induction rs arbitrary: w ns d)
  case Nil
  then show ?case by (simp add: showAll_def stored_def)
next
  case (Cons r rs)
  let ?w = "showRecord cr sk (wr_from r) (wr_type r) (wr_content r) w"
  obtain n e where one: "doc_message cr sk r (data_of (ctx w)) = (n, e)" by fastforce
  obtain ms where rest: "doc_messages cr sk rs e = (ms, d)" "ns = n # ms"
    using Cons.prems(3) one by (auto split: prod.splits)
  have "keeps w ?w" by (rule keeps_showRecord) (use Cons.prems(2) in simp)
  then have "world_wf ?w" using Cons.prems(1) by (simp add: keeps_def)
  note first = showRecord_doc [OF Cons.prems(1) one] and IH = Cons.IH [OF this]
  have "\<not> stored [n]" using one by (auto simp: doc_message_def stored_def Let_def split: prod.splits)
  then show ?case
    using first IH [of ms d] rest Cons.prems(2) by (auto simp: showAll_def stored_def)
qed

lemma responseWaitingMessages_doc:
  assumes "world_wf w" and "7 \<le> length data"
  shows "fulfils cr w (responseWaitingMessages cr data w) (doc_responseWaitingMessages cr (drop 7 data) (data_of (ctx w)))"
proof (cases "rsa_load_private cr (privateKey (ctx w))")
  case (Inl e)
  then show ?thesis
    using assms(2) by (simp add: fulfils_def responseWaitingMessages_def doc_responseWaitingMessages_def
        RSAPrivateWrapper_load_def data_of_def stored_def)
next
  case (Inr sk)
  obtain rs rest where dec: "decode_all (length (drop 7 data)) dec_record (drop 7 data) = (rs, rest)" by fastforce
  then have dec': "decode_all (length data) dec_record (drop 7 data) = (rs, rest)"
    using rows.decode_all_fuel [of "drop 7 data" "length (drop 7 data)" 7] assms(2) by simp
  obtain ns d where ns: "doc_messages cr sk rs (data_of (ctx w)) = (ns, d)" by fastforce
  have "own_key (data_of (ctx w)) = privateKey (ctx w)" by (simp add: data_of_def)
  moreover have "waitingMessages_loop cr sk data 7 w = (cut_result rest, showAll cr sk rs w)"
    by (rule waitingMessages_loop_refines [OF _ _ dec']) (use assms(2) in simp_all)
  moreover have "\<forall>r\<in>set rs. length (wr_from r) = 16" using decode_all_wr_from [OF dec] by blast
  note showAll_doc [OF assms(1) this ns]
  ultimately show ?thesis
    using Inr dec ns assms(2)
    by (auto simp: fulfils_def responseWaitingMessages_def doc_responseWaitingMessages_def RSAPrivateWrapper_load_def
        cut_result_def stored_def)
qed

text \<open>The response code, joined by bit operations, is the little-endian number.\<close>

lemma join_bytes: "unat (ucast a OR push_bit 8 (ucast b) :: u16) = unat a + 256 * unat b" for a b :: byte
proof -
  have "(ucast a :: u16) AND push_bit 8 (ucast b) = 0"
    by (rule bit_word_eqI) (auto simp: bit_simps dest: bit_imp_le_length)
  then have or: "(ucast a OR push_bit 8 (ucast b) :: u16) = ucast a + push_bit 8 (ucast b)"
    by (simp add: disjunctive_add_eq_or)
  have high: "push_bit 8 (ucast b) = (of_nat (256 * unat b) :: u16)"
    by (simp add: push_bit_eq_mult mult.commute)
  have "unat a < 256" "unat b < 256" using unsigned_less [of a, where 'a = nat] unsigned_less [of b, where 'a = nat] by simp_all
  then show ?thesis unfolding or unfolding high by (simp add: unat_word_ariths unat_of_nat unsigned_ucast_eq take_bit_eq_mod)
qed

lemma responseCode_doc: "unat (responseCode data) = unat (data ! 1) + 256 * unat (data ! 2)"
  by (simp add: responseCode_def join_bytes numeral_2_eq_2)

section \<open>The property\<close>

text \<open>C30: a response, well-formed or not, has the outcome that the comments of \<^verbatim>\<open>ResponseClient.h\<close> and
  \<^verbatim>\<open>ResponseClient.cpp\<close> promise: it is handled, or refused with a \<^verbatim>\<open>runtime_error\<close> when it is too small
  or malformed, or ended by an exception the comments do not name (a confirmation for an unknown
  client, a private key that does not load, no path to the file of a registration); the client data, the
  printed text and the file afterwards are those of the records in it, whatever the disk makes of the
  file: a registration is shown also when the file cannot be created or not all of it is written. This is
  for every state of the client that keeps its types. A client ID is read from any offset, or a
  \<^verbatim>\<open>std::runtime_error\<close> thrown when it does not fit, unless the offset is so close to \<open>2 ^ 64\<close> that the sum
  in the bounds check wraps: then the code reads outside the buffer.\<close>

lemma responses_meet_contract:
  assumes "world_wf w"
  shows "fulfils cr w (responseClientMain cr data w) (doc_responseClientMain cr (disk_of w) data (data_of (ctx w)))
    \<and> (off + 16 < 2 ^ 64 \<longrightarrow> doc_readClientID data off (readClientID data off))
    \<and> (off < 2 ^ 64 \<and> 2 ^ 64 \<le> off + 16 \<and> 16 \<le> length data \<and> length data < off \<longrightarrow> readClientID data off = Inl Undefined)"
proof (cases "length data < 7")
  case True
  then show ?thesis by (simp add: fulfils_def responseClientMain_def doc_responseClientMain_def stored_def readClientID_doc readClientID_wraps)
next
  case False
  then have len: "7 \<le> length data" by simp
  have code: "responseCode data = c \<longleftrightarrow> unat (data ! 1) + 256 * unat (data ! 2) = unat c" for c
    using responseCode_doc [of data] by (metis word_unat_eq_iff)
  have last: "fulfils cr w (Inr (), responseErrorGeneral w) (doc_responseErrorGeneral (data_of (ctx w)))"
    "fulfils cr w (Inr (), say (lit ''Unknown response code: '' @ show_dec (unat (responseCode data)) @ nl) w)
       (Handled, [Unknown_code (unat (data ! 1) + 256 * unat (data ! 2))], data_of (ctx w))"
    unfolding responseCode_doc by (simp_all add: fulfils_def responseErrorGeneral_def doc_responseErrorGeneral_def stored_def)
  note parts = last responseRegister_doc [OF len] responseClientList_doc [OF len] responsePublicKey_doc [OF len]
    responseMessageSent_doc [OF len] responseWaitingMessages_doc [OF assms len]
  show ?thesis
    unfolding responseClientMain_def doc_responseClientMain_def Let_def code
    by (simp add: False parts readClientID_doc readClientID_wraps del: One_nat_def)
qed

lemma responses_meet_contract_witness:
  "fulfils toy bob_world (responseClientMain toy (response_bytes 2104 (encode_row (5, alice, 3, shared_key @ lit ''hi''))) bob_world)
     (Handled, [Message_shown alice_name (Text_shown (lit ''hi''))], data_of bob_ctx)"
proof -
  let ?row = "(5, alice, 3, shared_key @ lit ''hi'')" and ?w = bob_world
  let ?p = "encode_row ?row"
  have row: "row_ok ?row" by (simp add: row_ok_def lit_Cons)
  have dec: "decode_all (length ?p) dec_record ?p = ([row_view ?row], [])"
    using rows.decode_concat [of "[?row]" "length ?p"] row by simp
  have ne: "?p \<noteq> []" using rows.enc_nonempty [OF row] .
  have sender: "doc_sender (data_of bob_ctx) alice = alice_name"
    "doc_handleTextMessage toy alice (shared_key @ lit ''hi'') (data_of bob_ctx) = Text_shown (lit ''hi'')"
    by (simp_all add: doc_sender_def doc_handleTextMessage_def book_data contact_fields sample_friends aes_decrypt_def toy_def
        toy_cbc_decrypt_def alice_name_def lit_Cons)
  have code: "unat (response_bytes 2104 ?p ! Suc 0) + 256 * unat (response_bytes 2104 ?p ! 2) = 2104"
    by (simp add: response_bytes_split le_bytes_2)
  have "own_key (data_of bob_ctx) = [66]" by (simp add: data_of_def sample_friends)
  then have doc: "doc_responseClientMain toy dk (response_bytes 2104 ?p) (data_of bob_ctx)
      = (Handled, [Message_shown alice_name (Text_shown (lit ''hi''))], data_of bob_ctx)" for dk
    using dec ne sender code by (simp add: doc_responseClientMain_def doc_responseWaitingMessages_def doc_message_def row_view_def
        length_response drop_response toy_facts)
  from responses_meet_contract [OF world_wf_sample(2), where cr = toy and data = "response_bytes 2104 ?p" and off = 7] show ?thesis
    by (simp add: sample_worlds doc)
qed

end
