(* ===== verification/File_Contract.thy ===== *)
theory File_Contract
  imports Sample Context_Contract Client_Contracts
begin

text \<open>
  The contract of \<^verbatim>\<open>FileManager.h\<close>: which files the client accepts, given by their grammar instead
  of by a scan, and what loading and saving do to the abstract client data of \<open>Context_Contract\<close>.
\<close>

section \<open>The promises\<close>

text \<open>``Extracts the username, client ID, and private key, validates their format'': three lines, the
  last with or without a line end, and nothing after it.\<close>

definition doc_my_info :: "('sk, 'pk) crypto \<Rightarrow> bytes \<Rightarrow> bytes \<Rightarrow> bytes \<Rightarrow> bytes \<Rightarrow> bool" where
  "doc_my_info cr file nm cid key \<longleftrightarrow>
     (\<exists>h b. \<exists>e\<in>{[], nl}. file = nm @ nl @ h @ nl @ b @ e \<and> 10 \<notin> set (nm @ h @ b) \<and> doc_isValidUsername nm
        \<and> doc_isValidHexUUID h \<and> cid = hex_pairs h \<and> b \<noteq> [] \<and> base64_decode cr b = Inr key \<and> key \<noteq> [])"

text \<open>``Attempts to read and validate stored client data and update the client context.''\<close>

definition doc_loadMyInfo :: "('sk, 'pk) crypto \<Rightarrow> bytes option \<Rightarrow> client_data \<Rightarrow> client_data \<Rightarrow> bytes \<Rightarrow> bool" where
  "doc_loadMyInfo cr fl d d' msg \<longleftrightarrow>
     (case fl of
        None \<Rightarrow> d' = d \<and> msg = lit ''my.info file was not found, please register (110) before any use.'' @ nl
      | Some file \<Rightarrow>
          if \<exists>nm cid key. doc_my_info cr file nm cid key
          then \<exists>nm cid key. doc_my_info cr file nm cid key \<and> d' = d\<lparr>own_name := nm, own_id := cid, own_key := key\<rparr>
                 \<and> msg = lit ''Welcome back '' @ nm @ nl
          else d' = d \<and> msg = lit ''my.info is invalid, please use register (110).'' @ nl)"

text \<open>``Serializes the username, client ID, and private key and writes them to disk.''\<close>

definition doc_saveMyInfo :: "('sk, 'pk) crypto \<Rightarrow> client_data \<Rightarrow> bytes \<Rightarrow> bool" where
  "doc_saveMyInfo cr d file \<longleftrightarrow> doc_my_info cr file (own_name d) (own_id d) (own_key d)"

text \<open>``Attempts to read and validate the server address and port''; ``ensures the format is correct
  (address:port) and verifies both values''.\<close>

definition doc_loadServerInfo :: "bytes option \<Rightarrow> bytes \<Rightarrow> u16 \<Rightarrow> bool" where
  "doc_loadServerInfo fl address port \<longleftrightarrow>
     (if \<exists>file ps pp. fl = Some file \<and> server_info_file file ps pp
      then \<exists>file ps pp. fl = Some file \<and> server_info_file file ps pp \<and> address = dot_join ps \<and> unat port = dec_value pp
      else address = [] \<and> port = 0)"

text \<open>``@throws std::runtime_error If the executable path cannot be determined.''\<close>

definition doc_getExecutableDirectory :: "client_world \<Rightarrow> exn + unit \<Rightarrow> bool" where
  "doc_getExecutableDirectory w r \<longleftrightarrow>
     (if exe_path_len w \<in> {1..<260} \<or> 260 < exe_path_len w then r = Inr () else \<exists>m. r = Inl (Runtime_error m))"

section \<open>The code keeps them\<close>

lemma getline_line: "10 \<notin> set l \<Longrightarrow> file_getline (l @ nl @ rest) = Some (l, rest)"
  using file_getline_line(1) [of l rest] by (auto simp: nl_def)

lemma getline_last: "10 \<notin> set b \<Longrightarrow> b \<noteq> [] \<Longrightarrow> e \<in> {[], nl} \<Longrightarrow> file_getline (b @ e) = Some (b, [])"
proof -
  assume "10 \<notin> set b" "b \<noteq> []" "e \<in> {[], nl}"
  moreover from this(1) have "\<forall>c\<in>set b. c \<noteq> 10" by metis
  ultimately show ?thesis using file_getline_line(1) [of b "[]"] file_getline_line(2) [of b] by (auto simp: nl_def)
qed

lemma getline_None: "file_getline file = None \<longleftrightarrow> file = []"
  by (simp add: file_getline_def)

definition logged_in :: "bytes \<Rightarrow> bytes \<Rightarrow> bytes \<Rightarrow> client_world \<Rightarrow> client_world" where
  "logged_in nm cid key w = say (lit ''Welcome back '' @ nm @ nl) (upd_ctx (setPrivateKey key o setClientID cid o setName nm) w)"

lemma my_info_complete:
  assumes "doc_my_info cr file nm cid key"
  shows "validateAndLoadMyInfo cr file w = (True, logged_in nm cid key w)"
proof -
  from assms obtain h b e where fl: "file = nm @ nl @ h @ nl @ b @ e" "e \<in> {[], nl}"
    and n10: "10 \<notin> set nm" "10 \<notin> set h" "10 \<notin> set b" and ok: "isValidUsername nm" "isValidHexUUID h" "cid = hex_pairs h"
    and b: "b \<noteq> []" "base64_decode cr b = Inr key" "key \<noteq> []"
    unfolding doc_my_info_def isValidUsername_doc isValidHexUUID_doc set_append by blast
  have "uuidHex32ToBytes16 h = Inr cid"
    using uuidHex32ToBytes16_doc [of h] ok(2,3) by (simp add: doc_uuidHex32ToBytes16_def isValidHexUUID_doc)
  moreover have "length h = 32" "list_all isxdigit h" using ok(2) by (simp_all add: isValidHexUUID_def split: if_splits)
  ultimately show ?thesis
    using getline_line [OF n10(1)] getline_line [OF n10(2)] getline_last [OF n10(3) b(1) fl(2)] ok b
    by (simp add: validateAndLoadMyInfo_def fl(1) Base64Wrapper_decode_def getline_None logged_in_def)
qed

lemma my_info_sound:
  assumes "validateAndLoadMyInfo cr file w = (True, w')"
  shows "\<exists>nm cid key. doc_my_info cr file nm cid key \<and> w' = logged_in nm cid key w"
proof -
  from assms obtain nm f1 h f2 b cid key where
    lines: "file_getline file = Some (nm, f1)" "file_getline f1 = Some (h, f2)" "file_getline f2 = Some (b, [])"
    and ok: "isValidUsername nm" "length h = 32" "list_all isxdigit h" "uuidHex32ToBytes16 h = Inr cid"
    and b: "b \<noteq> []" "base64_decode cr b = Inr key" "key \<noteq> []" and w': "w' = logged_in nm cid key w"
    by (auto simp: validateAndLoadMyInfo_def Base64Wrapper_decode_def getline_None logged_in_def
        split: option.splits prod.splits if_splits sum.splits)
  have h: "doc_isValidHexUUID h" using ok(2,3) by (simp add: isValidHexUUID_doc [symmetric] isValidHexUUID_def)
  have "file = nm @ nl @ f1" "f1 = h @ nl @ f2"
    using file_getline_Some(2) [OF lines(1)] file_getline_Some(2) [OF lines(2)] lines(2,3) by (auto simp: nl_def getline_None file_getline_def)
  moreover obtain e where "f2 = b @ e" "e \<in> {[], nl}"
    using file_getline_Some(2) [OF lines(3)] by (auto simp: nl_def)
  ultimately have "file = nm @ nl @ h @ nl @ b @ e" "e \<in> {[], nl}" by simp_all
  moreover have "10 \<notin> set (nm @ h @ b)"
    using file_getline_Some(1) [OF lines(1)] file_getline_Some(1) [OF lines(2)] file_getline_Some(1) [OF lines(3)] by auto
  moreover have "cid = hex_pairs h"
    using uuidHex32ToBytes16_doc [of h] ok(4) h by (simp add: doc_uuidHex32ToBytes16_def)
  ultimately show ?thesis
    using ok(1) h b w' unfolding doc_my_info_def isValidUsername_doc by blast
qed

text \<open>A file that is not accepted leaves the world as it was.\<close>

lemma my_info_refused: "validateAndLoadMyInfo cr file w = (False, w') \<Longrightarrow> w' = w"
  by (auto simp: validateAndLoadMyInfo_def split: option.splits prod.splits if_splits sum.splits)

lemma data_of_logged_in:
  "data_of (ctx (logged_in nm cid key w)) = (data_of (ctx w))\<lparr>own_name := nm, own_id := cid, own_key := key\<rparr>"
  by (simp add: logged_in_def data_of_def ctx_simps)

lemma loadMyInfo_doc:
  assumes "getExecutableDirectory w = Inr ()"
  shows "\<exists>w' msg. loadMyInfo cr w = (Inr (), w') \<and> cout w' = cout w @ msg
    \<and> doc_loadMyInfo cr (my_info w) (data_of (ctx w)) (data_of (ctx w')) msg"
proof (cases "my_info w")
  case None
  with assms show ?thesis by (simp add: loadMyInfo_def doc_loadMyInfo_def)
next
  case (Some bs)
  obtain ok v where v: "validateAndLoadMyInfo cr bs w = (ok, v)" by fastforce
  show ?thesis
  proof (cases ok)
    case True
    with my_info_sound [of cr bs w v] v obtain nm cid key where
      "doc_my_info cr bs nm cid key" "v = logged_in nm cid key w" by auto
    moreover from this(2) have "cout v = cout w @ lit ''Welcome back '' @ nm @ nl" by (simp add: logged_in_def)
    ultimately show ?thesis
      using assms Some v True unfolding loadMyInfo_def doc_loadMyInfo_def by (auto simp: data_of_logged_in)
  next
    case False
    then have "\<not> doc_my_info cr bs nm cid key" for nm cid key using my_info_complete v by fastforce
    with assms Some v False my_info_refused [of cr bs w v] show ?thesis by (simp add: loadMyInfo_def doc_loadMyInfo_def)
  qed
qed

text \<open>What is saved is such a file.\<close>

lemma saveMyInfo_doc:
  assumes "crypto_ok cr" and "ctx_saveable c"
  shows "doc_saveMyInfo cr (data_of c) (my_info_text cr c)"
proof -
  let ?b = "filter (\<lambda>b. b \<noteq> 13) (filter (\<lambda>b. b \<noteq> 10) (base64_encode cr (privateKey c)))"
  have b': "?b = filter (\<lambda>c. c \<noteq> 10 \<and> c \<noteq> 13) (base64_encode cr (privateKey c))" by (simp add: filter_filter conj_commute)
  have c: "length (clientID c) = 16" "isValidUsername (userName c)" "10 \<notin> set (userName c)" "privateKey c \<noteq> []"
    using assms(2) by (auto simp: ctx_saveable_def ctx_wf_def)
  have b: "?b \<noteq> []" "base64_decode cr ?b = Inr (privateKey c)" unfolding b' using crypto_okD(8,9) [OF assms(1) c(4)] by simp_all
  have h: "doc_isValidHexUUID (bytesToHex (clientID c))" "hex_pairs (bytesToHex (clientID c)) = clientID c"
    using bytesToHex_doc [OF c(1)] by (simp_all add: doc_bytesToHex_def)
  have "10 \<notin> set (bytesToHex (clientID c))" using bytesToHex_no_newline [OF c(1)] by blast
  then have "10 \<notin> set (userName c @ bytesToHex (clientID c) @ ?b)" using c(3) by auto
  moreover have "my_info_text cr c = userName c @ nl @ bytesToHex (clientID c) @ nl @ ?b @ []"
    by (simp add: my_info_text_def Base64Wrapper_encode_def Let_def)
  ultimately have "doc_my_info cr (my_info_text cr c) (userName c) (clientID c) (privateKey c)"
    unfolding doc_my_info_def using b c h isValidUsername_doc [of "userName c"]
    by (intro exI [of _ "bytesToHex (clientID c)"] exI [of _ ?b] bexI [of _ "[]"]) simp_all
  then show ?thesis by (simp add: doc_saveMyInfo_def data_of_def)
qed

lemma getExecutableDirectory_doc: "doc_getExecutableDirectory w (getExecutableDirectory w)"
  by (auto simp: doc_getExecutableDirectory_def getExecutableDirectory_def)

lemma server_info_port:
  assumes "server_info_file file ps pp"
  shows "unat (of_nat (dec_value pp) :: u16) = dec_value pp"
  using assms by (simp add: server_info_file_def unat_of_nat)

lemma loadServerInfo_doc:
  assumes "getExecutableDirectory w = Inr ()"
  shows "\<exists>a p w'. loadServerInfo w = (Inr (a, p), w') \<and> ctx w' = ctx w \<and> doc_loadServerInfo (server_info w) a p"
proof (cases "server_info w")
  case None
  with assms show ?thesis by (simp add: loadServerInfo_def doc_loadServerInfo_def)
next
  case (Some bs)
  show ?thesis
  proof (cases "validateAndLoadServerInfo bs")
    case None
    then have "\<not> server_info_file bs ps pp" for ps pp using server_info_complete [of bs ps pp] by auto
    with assms Some None show ?thesis by (simp add: loadServerInfo_def doc_loadServerInfo_def)
  next
    case (Some ap)
    obtain a p where ap: "ap = (a, p)" by fastforce
    from server_info_sound [OF Some [unfolded ap]] obtain ps pp where
      "server_info_file bs ps pp" "a = dot_join ps" "p = of_nat (dec_value pp)" by blast
    with assms Some \<open>server_info w = Some bs\<close> ap show ?thesis
      by (auto simp: loadServerInfo_def doc_loadServerInfo_def server_info_port)
  qed
qed

section \<open>The property\<close>

text \<open>C31: the configuration files are handled as \<^verbatim>\<open>FileManager.h\<close> promises. Loading accepts exactly the
  files of the documented form and stores what they hold, and changes nothing for any other file or
  without one; what is saved is a file of that form with the current data; the server's address is
  accepted exactly in the form address:port; without the path of the executable all three throw.\<close>

lemma files_meet_contract:
  assumes "crypto_ok cr"
  shows "doc_getExecutableDirectory w (getExecutableDirectory w)
    \<and> (case getExecutableDirectory w of
         Inl e \<Rightarrow> loadMyInfo cr w = (Inl e, w) \<and> loadServerInfo w = (Inl e, w)
           \<and> (ctx_saveable (ctx w) \<longrightarrow> saveMyInfo cr w = (Inl e, w))
       | Inr _ \<Rightarrow>
           (\<exists>w' msg. loadMyInfo cr w = (Inr (), w') \<and> cout w' = cout w @ msg
              \<and> doc_loadMyInfo cr (my_info w) (data_of (ctx w)) (data_of (ctx w')) msg)
         \<and> (\<exists>a p w'. loadServerInfo w = (Inr (a, p), w') \<and> ctx w' = ctx w \<and> doc_loadServerInfo (server_info w) a p)
         \<and> (ctx_saveable (ctx w) \<and> my_info_open_ok w \<and> my_info_short_write w = None \<longrightarrow>
              (\<exists>file. saveMyInfo cr w = (Inr (), w\<lparr>my_info := Some file\<rparr>) \<and> doc_saveMyInfo cr (data_of (ctx w)) file)))"
proof (cases "getExecutableDirectory w")
  case (Inl e)
  then show ?thesis
    using getExecutableDirectory_doc [of w]
    by (simp add: loadMyInfo_def loadServerInfo_def saveMyInfo_def ctx_saveable_def isValidUsername_def split: if_splits)
next
  case (Inr u)
  then have dir: "getExecutableDirectory w = Inr ()" by simp
  show ?thesis
    unfolding dir sum.case
    using getExecutableDirectory_doc [of w] loadMyInfo_doc [OF dir] loadServerInfo_doc [OF dir]
      saveMyInfo_doc [OF assms, of "ctx w"] saveMyInfo_text [OF _ dir, of cr] dir by auto
qed

lemma files_meet_contract_witness:
  "\<exists>file. saveMyInfo toy (alice_world []) = (Inr (), (alice_world [])\<lparr>my_info := Some file\<rparr>)
     \<and> doc_my_info toy file alice_name alice [65]"
proof -
  let ?w = "alice_world []"
  have "ctx_saveable (ctx ?w)"
    using sample_names(1) ctx_wf_sample(1) sample_registered(1)
    by (simp add: ctx_saveable_def sample_worlds) (simp add: alice_ctx_def alice_name_def lit_Cons)
  then show ?thesis
    using files_meet_contract [OF crypto_ok_toy, of ?w] sample_paths(1) [of "[]"]
    by (auto simp: doc_saveMyInfo_def alice_world_def init_world_def alice_ctx_def data_of_def)
qed

end
