(* ===== verification/Client_Process.thy ===== *)
theory Client_Process
  imports Client_Main
begin

text \<open>
  The whole client process: \<^verbatim>\<open>main\<close> with its start, its loop, the stop flag, the join of the pull
  thread and the destruction of the connection, and the pull thread with its control. The two
  threads' steps are those of \<open>thread_step\<close>, to which a run of the process is projected by
  \<open>threads_of\<close>. \<^verbatim>\<open>boost::asio::read\<close> has no timeout: on a network where the exchange of a request
  \<open>hangs\<close>, the call does not return, and there is no step. A thread in such a call also keeps
  \<^verbatim>\<open>_connMutex\<close>; the model does not hold up the exchanges of the other thread for it, so its runs are
  those of the code and, after a hanging exchange, more. Exchanges that return are single steps here, so
  that the mutex has no other effect.
\<close>

section \<open>State and steps\<close>

datatype main_pc = Starting | At_menu | Sending bytes | Handling bytes | Joining "exn + unit" | Exited nat

datatype puller = Not_started | Puller pull_pc | Pull_response bytes

record 'net process =
  p_world :: client_world
  p_net :: 'net
  p_stop :: bool
  p_main :: main_pc
  p_pull :: puller

definition start_process :: "client_world \<Rightarrow> 'net \<Rightarrow> 'net process" where
  "start_process w net = \<lparr>p_world = w, p_net = net, p_stop = False, p_main = Starting, p_pull = Not_started\<rparr>"

text \<open>The inner \<^verbatim>\<open>catch (...)\<close>, up to the join.\<close>

definition leave :: "exn + unit \<Rightarrow> 'net process \<Rightarrow> 'net process" where
  "leave r p = p\<lparr>p_stop := True, p_main := Joining r\<rparr>"

definition fatal :: "exn \<Rightarrow> client_world \<Rightarrow> client_world" where
  "fatal e w = say (lit ''Fatal error: '' @ lit (what e) @ nl) w"

text \<open>What \<^verbatim>\<open>main\<close> does after the join: the exit code and its last output.\<close>

definition exit_code :: "exn + unit \<Rightarrow> nat" where
  "exit_code r = (case r of Inl _ \<Rightarrow> 1 | Inr _ \<Rightarrow> 0)"

definition last_words :: "exn + unit \<Rightarrow> client_world \<Rightarrow> client_world" where
  "last_words r w = (case r of Inl e \<Rightarrow> fatal e w | Inr _ \<Rightarrow> w)"

abbreviation pull_data_of :: "'net process \<Rightarrow> bytes" where
  "pull_data_of p \<equiv> createBuffer (Message_no_payload (clientID (ctx (p_world p))) Code_REQUEST_WAITING_MESSAGES)"

inductive process_step ::
    "('sk, 'pk) crypto \<Rightarrow> 'net asio \<Rightarrow> 'net socket_ops \<Rightarrow> (bytes \<Rightarrow> 'net \<Rightarrow> bool) \<Rightarrow> 'net process \<Rightarrow> 'net process \<Rightarrow> bool"
  for cr io so hangs where
  no_info: "p_main p = Starting \<Longrightarrow> loadMyInfo cr ((p_world p)\<lparr>ctx := init_ctx\<rparr>) = (Inl e, w) \<Longrightarrow>
      process_step cr io so hangs p (p\<lparr>p_world := fatal e w, p_main := Exited 1\<rparr>)"
| no_server: "p_main p = Starting \<Longrightarrow> loadMyInfo cr ((p_world p)\<lparr>ctx := init_ctx\<rparr>) = (Inr u, v) \<Longrightarrow>
      connect io v (p_net p) = (Inl e, w, net) \<Longrightarrow>
      process_step cr io so hangs p (p\<lparr>p_world := fatal e w, p_net := net, p_main := Exited 1\<rparr>)"
| connected: "p_main p = Starting \<Longrightarrow> loadMyInfo cr ((p_world p)\<lparr>ctx := init_ctx\<rparr>) = (Inr u, v) \<Longrightarrow>
      connect io v (p_net p) = (Inr u', w, net) \<Longrightarrow>
      process_step cr io so hangs p (p\<lparr>p_world := w, p_net := net, p_main := At_menu, p_pull := Puller Loop_head\<rparr>)"
| menu_exit: "p_main p = At_menu \<Longrightarrow> clientMenuMain (p_world p) = Some (Code_EXIT, v) \<Longrightarrow>
      process_step cr io so hangs p (leave (Inr ()) (p\<lparr>p_world := say (lit ''Exiting client...'' @ nl) v\<rparr>))"
| menu_act: "p_main p = At_menu \<Longrightarrow> clientMenuMain (p_world p) = Some (input, v) \<Longrightarrow> input \<noteq> Code_EXIT \<Longrightarrow>
      handleMenuChoice cr input v = Some (Inr data, w) \<Longrightarrow>
      process_step cr io so hangs p (p\<lparr>p_world := w, p_main := (if data = [] then At_menu else Sending data)\<rparr>)"
| menu_throw: "p_main p = At_menu \<Longrightarrow> clientMenuMain (p_world p) = Some (input, v) \<Longrightarrow> input \<noteq> Code_EXIT \<Longrightarrow>
      handleMenuChoice cr input v = Some (Inl e, w) \<Longrightarrow>
      process_step cr io so hangs p (leave (Inl e) (p\<lparr>p_world := w\<rparr>))"
| send: "p_main p = Sending data \<Longrightarrow> \<not> hangs data (p_net p) \<Longrightarrow> sendAndReceive io data (p_net p) = (Inr buffer, net) \<Longrightarrow>
      process_step cr io so hangs p (p\<lparr>p_net := net, p_main := Handling buffer\<rparr>)"
| send_throw: "p_main p = Sending data \<Longrightarrow> \<not> hangs data (p_net p) \<Longrightarrow> sendAndReceive io data (p_net p) = (Inl e, net) \<Longrightarrow>
      process_step cr io so hangs p (leave (Inl e) (p\<lparr>p_net := net\<rparr>))"
| handle: "p_main p = Handling buffer \<Longrightarrow> responseClientMain cr buffer (p_world p) = (Inr u, w) \<Longrightarrow>
      process_step cr io so hangs p (p\<lparr>p_world := w, p_main := At_menu\<rparr>)"
| handle_throw: "p_main p = Handling buffer \<Longrightarrow> responseClientMain cr buffer (p_world p) = (Inl e, w) \<Longrightarrow>
      process_step cr io so hangs p (leave (Inl e) (p\<lparr>p_world := w\<rparr>))"
| join: "p_main p = Joining r \<Longrightarrow> p_pull p = Puller Stopped \<Longrightarrow>
      process_step cr io so hangs p (p\<lparr>p_world := last_words r (p_world p), p_net := disconnect so (p_net p), p_main := Exited (exit_code r)\<rparr>)"
| pull_tick: "p_pull p = Puller pc \<Longrightarrow> pc \<noteq> Pulling \<Longrightarrow> pc \<noteq> Stopped \<Longrightarrow>
      process_step cr io so hangs p (p\<lparr>p_pull := Puller (pull_step (p_stop p) pc)\<rparr>)"
| pull_skip: "p_pull p = Puller Pulling \<Longrightarrow> \<not> hasClientID (ctx (p_world p)) \<Longrightarrow>
      process_step cr io so hangs p (p\<lparr>p_pull := Puller Loop_head\<rparr>)"
| pull_send: "p_pull p = Puller Pulling \<Longrightarrow> hasClientID (ctx (p_world p)) \<Longrightarrow> \<not> hangs (pull_data_of p) (p_net p) \<Longrightarrow>
      sendAndReceive io (pull_data_of p) (p_net p) = (r, net) \<Longrightarrow>
      process_step cr io so hangs p (p\<lparr>p_net := net, p_pull := (case r of Inl e \<Rightarrow> Puller Loop_head | Inr buffer \<Rightarrow> Pull_response buffer)\<rparr>)"
| pull_handles: "p_pull p = Pull_response buffer \<Longrightarrow>
      responseClientMain cr buffer (say (lit ''Pulling waiting messages automatically:'' @ nl) (p_world p)) = (r, w) \<Longrightarrow>
      process_step cr io so hangs p (p\<lparr>p_world := w, p_pull := Puller Loop_head\<rparr>)"

section \<open>The process is well-behaved at its start and its end\<close>

text \<open>Before the connection there is no pull thread, and after the join it has stopped; the flag is
  set exactly while or after \<^verbatim>\<open>main\<close> leaves.\<close>

fun process_ok :: "bool \<Rightarrow> main_pc \<Rightarrow> puller \<Rightarrow> bool" where
  "process_ok stop Starting pl = (\<not> stop \<and> pl = Not_started)"
| "process_ok stop (Joining r) pl = (stop \<and> pl \<noteq> Not_started)"
| "process_ok stop (Exited n) pl = (n \<le> 1 \<and> (stop \<and> pl = Puller Stopped \<or> \<not> stop \<and> pl = Not_started \<and> n = 1))"
| "process_ok stop m pl = (\<not> stop \<and> pl \<noteq> Not_started \<and> pl \<noteq> Puller Stopped)"

definition process_inv :: "'net process \<Rightarrow> bool" where
  "process_inv p = process_ok (p_stop p) (p_main p) (p_pull p)"

lemma process_inv_start: "process_inv (start_process w net)"
  by (simp add: process_inv_def start_process_def)

lemma pull_step_running: "pc \<noteq> Stopped \<Longrightarrow> pull_step False pc \<noteq> Stopped"
  by (cases pc) auto

lemma process_inv_step: "process_step cr io so hangs p q \<Longrightarrow> process_inv p \<Longrightarrow> process_inv q"
proof (induction rule: process_step.induct)
  case (pull_tick p pc)
  then show ?case
    by (cases "p_main p") (auto simp: process_inv_def pull_step_running)
next
  case (pull_send p r net)
  then show ?case by (cases "p_main p") (auto simp: process_inv_def split: sum.split)
next
  case (pull_skip p)
  then show ?case by (cases "p_main p") (auto simp: process_inv_def)
next
  case (pull_handles p buffer r w)
  then show ?case by (cases "p_main p") (auto simp: process_inv_def)
next
  case (join p r)
  then show ?case by (cases r) (auto simp: process_inv_def exit_code_def)
qed (auto simp: process_inv_def leave_def)

lemma process_inv_reach: "(process_step cr io so hangs)\<^sup>*\<^sup>* p q \<Longrightarrow> process_inv p \<Longrightarrow> process_inv q"
  by (induction rule: rtranclp_induct) (auto intro: process_inv_step)

section \<open>After the end\<close>

lemma exited_final:
  assumes "process_inv p" and "p_main p = Exited n"
  shows "\<not> process_step cr io so hangs p q"
proof
  assume "process_step cr io so hangs p q"
  then show False
    by (cases rule: process_step.cases) (use assms in \<open>auto simp: process_inv_def\<close>)
qed

section \<open>Shutdown\<close>

text \<open>The steps a pull thread has left once the flag is set.\<close>

fun rest_steps :: "puller \<Rightarrow> nat" where
  "rest_steps Not_started = 0"
| "rest_steps (Pull_response b) = 2"
| "rest_steps (Puller pc) = (case pc of Stopped \<Rightarrow> 0 | Pulling \<Rightarrow> 3 | _ \<Rightarrow> 1)"

definition shutdown_measure :: "'net process \<Rightarrow> nat" where
  "shutdown_measure p = (case p_main p of Joining r \<Rightarrow> Suc (rest_steps (p_pull p)) | _ \<Rightarrow> 0)"

lemma shutdown_decreases:
  assumes "process_step cr io so hangs p q" and "process_inv p" and "p_main p = Joining r"
  shows "shutdown_measure q < shutdown_measure p" and "p_main q = Joining r \<or> p_main q = Exited (exit_code r)"
proof -
  have "shutdown_measure q < shutdown_measure p \<and> (p_main q = Joining r \<or> p_main q = Exited (exit_code r))"
    using assms(1)
  proof (cases rule: process_step.cases)
    case (pull_tick pc)
    then show ?thesis using assms(2,3) by (cases pc) (auto simp: shutdown_measure_def process_inv_def)
  qed (use assms(2,3) in \<open>auto simp: shutdown_measure_def process_inv_def split: sum.split\<close>)
  then show "shutdown_measure q < shutdown_measure p" and "p_main q = Joining r \<or> p_main q = Exited (exit_code r)" by simp_all
qed

text \<open>The pull thread before an exchange that hangs: the join then waits for ever, and otherwise not.\<close>

definition pull_hangs :: "(bytes \<Rightarrow> 'net \<Rightarrow> bool) \<Rightarrow> 'net process \<Rightarrow> bool" where
  "pull_hangs hangs p \<longleftrightarrow> p_pull p = Puller Pulling \<and> hasClientID (ctx (p_world p)) \<and> hangs (pull_data_of p) (p_net p)"

lemma shutdown_hangs:
  assumes "p_main p = Joining r" and "pull_hangs hangs p"
  shows "\<not> process_step cr io so hangs p q"
proof
  assume "process_step cr io so hangs p q"
  then show False by (cases rule: process_step.cases) (use assms in \<open>auto simp: pull_hangs_def\<close>)
qed

lemma shutdown_proceeds:
  assumes "process_inv p" and "p_main p = Joining r" and "\<not> pull_hangs hangs p"
  obtains q where "process_step cr io so hangs p q"
proof (cases "p_pull p")
  case Not_started
  with assms show ?thesis by (simp add: process_inv_def)
next
  case (Pull_response buffer)
  obtain x w where "responseClientMain cr buffer (say (lit ''Pulling waiting messages automatically:'' @ nl) (p_world p)) = (x, w)"
    by fastforce
  from that [OF pull_handles [OF Pull_response this]] show ?thesis .
next
  case (Puller pc)
  show ?thesis
  proof (cases "pc = Pulling \<or> pc = Stopped")
    case False
    with that [OF pull_tick [OF Puller]] show ?thesis by blast
  next
    case True
    show ?thesis
    proof (cases "pc = Stopped")
      case True
      with that [OF join [OF assms(2)]] Puller show ?thesis by blast
    next
      case False
      then have pc: "p_pull p = Puller Pulling" using True Puller by simp
      obtain x net where x: "sendAndReceive io (pull_data_of p) (p_net p) = (x, net)"
        by fastforce
      show ?thesis
      proof (cases "hasClientID (ctx (p_world p))")
        case True
        then have "\<not> hangs (pull_data_of p) (p_net p)" using assms(3) pc by (simp add: pull_hangs_def)
        show ?thesis by (rule that) (rule pull_send [where p = p and hangs = hangs, OF pc True _ x], fact)
      qed (rule that [OF pull_skip [OF pc]])
    qed
  qed
qed

text \<open>Every run from there has at most four steps, and one that cannot go on has exited.\<close>

lemma shutdown_bound:
  assumes "(process_step cr io so hangs ^^ n) p q" and "process_inv p" and "p_main p = Joining r"
  shows "n \<le> shutdown_measure p" and "p_main q = Joining r \<or> p_main q = Exited (exit_code r)"
proof -
  have "n + shutdown_measure q \<le> shutdown_measure p \<and> process_inv q \<and> (p_main q = Joining r \<or> p_main q = Exited (exit_code r))"
    using assms(1)
  proof (induction n arbitrary: q)
    case 0
    then show ?case using assms(2,3) by simp
  next
    case (Suc n)
    then obtain v where v: "(process_step cr io so hangs ^^ n) p v" "process_step cr io so hangs v q" by auto
    with Suc.IH have iv: "n + shutdown_measure v \<le> shutdown_measure p" "process_inv v"
      "p_main v = Joining r \<or> p_main v = Exited (exit_code r)" by blast+
    then have j: "p_main v = Joining r" using exited_final [OF iv(2)] v(2) by blast
    note d = shutdown_decreases [OF v(2) iv(2) j]
    from d iv(1) process_inv_step [OF v(2) iv(2)] show ?case by simp
  qed
  then show "n \<le> shutdown_measure p" and "p_main q = Joining r \<or> p_main q = Exited (exit_code r)" by simp_all
qed

lemma shutdown_measure_le: "shutdown_measure p \<le> 4"
  by (cases "p_pull p"; cases "p_main p") (auto simp: shutdown_measure_def split: pull_pc.split)

section \<open>Projection to the interleaving of the two threads\<close>

definition main_view :: "main_pc \<Rightarrow> pending" where
  "main_view m = (case m of Sending data \<Rightarrow> Request data | Handling buffer \<Rightarrow> Response buffer
     | Joining r \<Rightarrow> Finished (case r of Inl e \<Rightarrow> Throw e | Inr _ \<Rightarrow> Exit) | _ \<Rightarrow> Idle)"

definition pull_view :: "puller \<Rightarrow> pending" where
  "pull_view pl = (case pl of Pull_response buffer \<Rightarrow> Response buffer | _ \<Rightarrow> Idle)"

definition threads_of :: "'net process \<Rightarrow> 'net threads" where
  "threads_of p = \<lparr>world = p_world p, network = p_net p, main_pending = main_view (p_main p), pull_pending = pull_view (p_pull p)\<rparr>"

lemma process_step_threads:
  assumes "process_step cr io so hangs p q" and "p_main p \<noteq> Starting" and "\<forall>n. p_main q \<noteq> Exited n"
  shows "thread_step cr io (threads_of p) (threads_of q) \<or> threads_of q = threads_of p"
  using assms(1)
proof (cases rule: process_step.cases)
  case (menu_exit v)
  then show ?thesis using thread_step.main_exit [of "threads_of p" v cr io] by (simp add: threads_of_def main_view_def leave_def)
next
  case (menu_act input v data w)
  then show ?thesis using thread_step.main_act [of "threads_of p" input v cr data w io]
    by (cases "data = []") (simp_all add: threads_of_def main_view_def)
next
  case (menu_throw input v e w)
  then show ?thesis using thread_step.main_throw [of "threads_of p" input v cr e w io] by (simp add: threads_of_def main_view_def leave_def)
next
  case (send data buffer net)
  then show ?thesis using thread_step.main_exchange [of "threads_of p" data io "Inr buffer" net cr] by (simp add: threads_of_def main_view_def)
next
  case (send_throw data e net)
  then show ?thesis using thread_step.main_exchange [of "threads_of p" data io "Inl e" net cr] by (simp add: threads_of_def main_view_def leave_def)
next
  case (handle buffer u w)
  then show ?thesis using thread_step.main_handle [of "threads_of p" buffer cr "Inr u" w io] by (simp add: threads_of_def main_view_def)
next
  case (handle_throw buffer e w)
  then show ?thesis using thread_step.main_handle [of "threads_of p" buffer cr "Inl e" w io] by (simp add: threads_of_def main_view_def leave_def)
next
  case (pull_send r net)
  then show ?thesis using thread_step.pull_exchange [of "threads_of p" io r net cr] by (cases r) (simp_all add: threads_of_def pull_view_def)
next
  case (pull_handles buffer r w)
  then show ?thesis using thread_step.pull_handle [of "threads_of p" buffer cr r w io] by (simp add: threads_of_def pull_view_def)
qed (use assms(2,3) in \<open>auto simp: threads_of_def pull_view_def\<close>)

lemma starting_only_first: "process_step cr io so hangs p q \<Longrightarrow> p_main q \<noteq> Starting \<or> p_main p = Starting"
  by (erule process_step.cases) (auto simp: leave_def)

lemma exited_stays:
  "process_step cr io so hangs p q \<Longrightarrow> p_main p = Exited n \<Longrightarrow> p_main q = Exited n"
  by (erule process_step.cases) (auto simp: leave_def)

lemma exited_stays_run: "(process_step cr io so hangs)\<^sup>*\<^sup>* p q \<Longrightarrow> p_main p = Exited n \<Longrightarrow> p_main q = Exited n"
  by (induction rule: rtranclp_induct) (auto dest: exited_stays)

lemma process_run_threads:
  "(process_step cr io so hangs)\<^sup>*\<^sup>* p q \<Longrightarrow> p_main p \<noteq> Starting \<Longrightarrow> \<forall>n. p_main q \<noteq> Exited n \<Longrightarrow>
     (thread_step cr io)\<^sup>*\<^sup>* (threads_of p) (threads_of q) \<and> p_main q \<noteq> Starting"
proof (induction rule: rtranclp_induct)
  case (step v q)
  have "\<forall>n. p_main v \<noteq> Exited n" using exited_stays [OF step.hyps(2)] step.prems(2) by blast
  with step.IH step.prems(1) have v: "(thread_step cr io)\<^sup>*\<^sup>* (threads_of p) (threads_of v)" "p_main v \<noteq> Starting" by blast+
  from process_step_threads [OF step.hyps(2) v(2) step.prems(2)] v(1)
  have "(thread_step cr io)\<^sup>*\<^sup>* (threads_of p) (threads_of q)" by (auto intro: rtranclp.rtrancl_into_rtrancl)
  moreover have "p_main q \<noteq> Starting" using starting_only_first [OF step.hyps(2)] v(2) by blast
  ultimately show ?case by blast
qed simp

section \<open>\<open>client_main\<close> is a run of the process\<close>

text \<open>The functions are about exchanges that return.\<close>

definition never :: "bytes \<Rightarrow> 'net \<Rightarrow> bool" where
  [simp]: "never q net \<longleftrightarrow> False"

lemma steps3:
  "process_step cr io so never a b \<Longrightarrow> process_step cr io so never b c \<Longrightarrow> process_step cr io so never c d \<Longrightarrow> (process_step cr io so never)\<^sup>*\<^sup>* a d"
  by (meson converse_rtranclp_into_rtranclp r_into_rtranclp)

text \<open>The main loop as a run in which only the main thread moves.\<close>

lemma main_turn_run:
  assumes "main_turn cr io (p_world p, p_net p) = Some (t, w, net)" and "p_main p = At_menu"
  shows "(process_step cr io so never)\<^sup>*\<^sup>* p (let q = p\<lparr>p_world := w, p_net := net\<rparr> in
     case t of Exit \<Rightarrow> leave (Inr ()) q | Throw e \<Rightarrow> leave (Inl e) q | Again \<Rightarrow> q)"
proof -
  obtain input v where m: "clientMenuMain (p_world p) = Some (input, v)"
    using assms(1) by (auto simp: main_turn_def split: option.splits)
  show ?thesis
  proof (cases "input = Code_EXIT")
    case True
    then have e: "t = Exit" "w = say (lit ''Exiting client...'' @ nl) v" "net = p_net p" using assms(1) m by (simp_all add: main_turn_def)
    have "process_step cr io so never p (leave (Inr ()) (p\<lparr>p_world := w\<rparr>))"
      unfolding e by (rule menu_exit [OF assms(2)]) (use m True in simp)
    moreover have "p\<lparr>p_world := w\<rparr> = p\<lparr>p_world := w, p_net := net\<rparr>" by (simp add: e)
    ultimately show ?thesis by (simp add: e)
  next
    case no_exit: False
    obtain r w1 where a: "handleMenuChoice cr input v = Some (r, w1)"
      using assms(1) m no_exit by (auto simp: main_turn_def split: option.splits)
    show ?thesis
    proof (cases r)
      case (Inl e)
      then have "t = Throw e" "w = w1" "net = p_net p" using assms(1) m no_exit a by (simp_all add: main_turn_def)
      then show ?thesis using menu_throw [OF assms(2) m no_exit a [unfolded Inl], of io so never] by simp
    next
      case (Inr data)
      let ?q = "p\<lparr>p_world := w1, p_main := (if data = [] then At_menu else Sending data)\<rparr>"
      have act: "process_step cr io so never p ?q" by (rule menu_act [OF assms(2) m no_exit a [unfolded Inr]])
      show ?thesis
      proof (cases "data = []")
        case True
        then have "t = Again" "w = w1" "net = p_net p" using assms(1) m no_exit a Inr by (simp_all add: main_turn_def)
        moreover have "?q = p\<lparr>p_world := w1\<rparr>" using True assms(2) by simp
        ultimately show ?thesis using act by simp
      next
        case ne: False
        obtain x net1 where x: "sendAndReceive io data (p_net p) = (x, net1)" by fastforce
        show ?thesis
        proof (cases x)
          case (Inl e)
          then have "t = Throw e" "w = w1" "net = net1" using assms(1) m no_exit a Inr ne x by (simp_all add: main_turn_def)
          moreover have "process_step cr io so never ?q (leave (Inl e) (?q\<lparr>p_net := net1\<rparr>))"
            by (rule send_throw) (use ne x Inl in simp_all)
          ultimately show ?thesis using act by (simp add: leave_def converse_rtranclp_into_rtranclp)
        next
          case buf: (Inr buffer)
          let ?h = "?q\<lparr>p_net := net1, p_main := Handling buffer\<rparr>"
          have snd: "process_step cr io so never ?q ?h" by (rule send) (use ne x buf in simp_all)
          obtain y w2 where y: "responseClientMain cr buffer w1 = (y, w2)" by fastforce
          show ?thesis
          proof (cases y)
            case (Inl e)
            then have "t = Throw e" "w = w2" "net = net1"
              using assms(1) m no_exit a Inr ne x buf y by (simp_all add: main_turn_def)
            moreover have "process_step cr io so never ?h (leave (Inl e) (?h\<lparr>p_world := w2\<rparr>))"
              by (rule handle_throw) (use y Inl in simp_all)
            moreover have "leave (Inl e) (?h\<lparr>p_world := w2\<rparr>) = leave (Inl e) (p\<lparr>p_world := w2, p_net := net1\<rparr>)"
              by (cases p) (simp add: leave_def)
            ultimately show ?thesis using steps3 [OF act snd, of "leave (Inl e) (?h\<lparr>p_world := w2\<rparr>)"] by simp
          next
            case (Inr u)
            then have "t = Again" "w = w2" "net = net1"
              using assms(1) m no_exit a \<open>r = Inr data\<close> ne x buf y by (simp_all add: main_turn_def)
            moreover have "process_step cr io so never ?h (?h\<lparr>p_world := w2, p_main := At_menu\<rparr>)"
              by (rule handle) (use y Inr in simp_all)
            moreover have "?h\<lparr>p_world := w2, p_main := At_menu\<rparr> = p\<lparr>p_world := w2, p_net := net1\<rparr>"
              using assms(2) by (cases p) simp
            ultimately show ?thesis using steps3 [OF act snd, of "?h\<lparr>p_world := w2, p_main := At_menu\<rparr>"] by simp
          qed
        qed
      qed
    qed
  qed
qed

definition left_with :: "(exn + unit) \<times> client_world \<times> 'net \<Rightarrow> 'net process \<Rightarrow> 'net process" where
  "left_with res p = (case res of (r, w, net) \<Rightarrow> leave r (p\<lparr>p_world := w, p_net := net\<rparr>))"

lemma main_loop_run:
  fixes cr :: "('sk, 'pk) crypto" and io :: "'net asio"
  assumes "main_loop cr io s = Some res"
  shows "\<forall>p. p_main p = At_menu \<longrightarrow> (p_world p, p_net p) = s \<longrightarrow> (process_step cr io so never)\<^sup>*\<^sup>* p (left_with res p)"
proof (rule main_loop.raw_induct [where P = "\<lambda>cr io s res. \<forall>p. p_main p = At_menu \<longrightarrow> (p_world p, p_net p) = s \<longrightarrow>
    (process_step cr io so never)\<^sup>*\<^sup>* p (left_with res p)", OF _ assms], intro allI impI)
  fix loop :: "('sk, 'pk) crypto \<Rightarrow> 'net asio \<Rightarrow> client_world \<times> 'net \<Rightarrow> ((exn + unit) \<times> client_world \<times> 'net) option"
    and cr :: "('sk, 'pk) crypto" and io :: "'net asio" and s :: "client_world \<times> 'net" and res and p :: "'net process"
  assume IH: "\<And>cr io s res. loop cr io s = Some res \<Longrightarrow> \<forall>p. p_main p = At_menu \<longrightarrow> (p_world p, p_net p) = s \<longrightarrow>
      (process_step cr io so never)\<^sup>*\<^sup>* p (left_with res p)"
    and res: "(case main_turn cr io s of None \<Rightarrow> None
        | Some (t, s) \<Rightarrow> (case t of Exit \<Rightarrow> Some (Inr (), s) | Again \<Rightarrow> loop cr io s | Throw e \<Rightarrow> Some (Inl e, s))) = Some res"
    and p: "p_main p = At_menu" "(p_world p, p_net p) = s"
  obtain t w net where t: "main_turn cr io (p_world p, p_net p) = Some (t, w, net)"
    using res p(2) by (auto split: option.splits)
  let ?q = "p\<lparr>p_world := w, p_net := net\<rparr>"
  note run = main_turn_run [OF t p(1), of so]
  show "(process_step cr io so never)\<^sup>*\<^sup>* p (left_with res p)"
  proof (cases t)
    case Again
    then have "loop cr io (w, net) = Some res" using res t p(2) by simp
    from IH [OF this] have "(process_step cr io so never)\<^sup>*\<^sup>* ?q (left_with res ?q)" using p(1) by simp
    moreover have "left_with res ?q = left_with res p" by (cases res) (simp add: left_with_def leave_def)
    ultimately show ?thesis using run Again by simp
  qed (use res t p(2) run in \<open>auto simp: left_with_def\<close>)
qed

text \<open>The pull thread, asleep, sees the flag at its next look.\<close>

lemma client_main_run:
  assumes "client_main cr io (w, net) = Some (code, w', net')"
  shows "\<exists>q. (process_step cr io so never)\<^sup>*\<^sup>* (start_process w net) q \<and> p_main q = Exited code \<and> p_world q = w'
    \<and> p_net q = (if p_pull q = Not_started then net' else disconnect so net')"
proof -
  let ?p = "start_process w net"
  have start: "p_main ?p = Starting" "p_world ?p = w" "p_net ?p = net" "p_pull ?p = Not_started"
    by (simp_all add: start_process_def)
  obtain x v where x: "loadMyInfo cr (w\<lparr>ctx := init_ctx\<rparr>) = (x, v)" by fastforce
  show ?thesis
  proof (cases x)
    case (Inl e)
    then have "code = 1" "w' = fatal e v" "net' = net" using assms x by (simp_all add: client_main_def fatal_def)
    then show ?thesis using no_info [OF start(1), of cr e v io so never] x Inl start by (auto intro!: r_into_rtranclp)
  next
    case (Inr u)
    obtain y v1 n1 where y: "connect io v net = (y, v1, n1)" by (metis prod_cases3)
    show ?thesis
    proof (cases y)
      case (Inl e)
      then have "code = 1" "w' = fatal e v1" "net' = n1" using assms x Inr y by (simp_all add: client_main_def fatal_def)
      then show ?thesis using no_server [OF start(1), of cr u v io e v1 n1 so never] x Inr y Inl start by (auto intro!: r_into_rtranclp)
    next
      case (Inr u')
      let ?q = "?p\<lparr>p_world := v1, p_net := n1, p_main := At_menu, p_pull := Puller Loop_head\<rparr>"
      have conn: "process_step cr io so never ?p ?q"
        by (rule connected [OF start(1)]) (use x \<open>x = Inr u\<close> y Inr start in simp_all)
      obtain r v2 n2 where loop: "main_loop cr io (v1, n1) = Some (r, v2, n2)" and res: "code = exit_code r" "w' = last_words r v2" "net' = n2"
        using assms x \<open>x = Inr u\<close> y Inr
        by (auto simp: client_main_def exit_code_def last_words_def fatal_def split: option.splits sum.splits)
      let ?l = "leave r (?q\<lparr>p_world := v2, p_net := n2\<rparr>)"
      let ?e = "?l\<lparr>p_pull := Puller Stopped\<rparr>"
      have "(process_step cr io so never)\<^sup>*\<^sup>* ?q ?l"
        using main_loop_run [OF loop, of so, THEN spec, of ?q] by (simp add: left_with_def)
      moreover have "process_step cr io so never ?l ?e"
        using pull_tick [of ?l Loop_head cr io so never] by (simp add: leave_def)
      moreover have "process_step cr io so never ?e (?e\<lparr>p_world := last_words r v2, p_net := disconnect so n2, p_main := Exited (exit_code r)\<rparr>)"
        using join [of ?e r cr io so never] by (simp add: leave_def)
      ultimately have "(process_step cr io so never)\<^sup>*\<^sup>* ?p (?e\<lparr>p_world := last_words r v2, p_net := disconnect so n2, p_main := Exited (exit_code r)\<rparr>)"
        using conn by (meson converse_rtranclp_into_rtranclp rtranclp.rtrancl_into_rtrancl)
      then show ?thesis using res by (auto simp: leave_def)
    qed
  qed
qed

end
