(* ===== verification/Process_Properties.thy ===== *)
theory Process_Properties
  imports Sample Client_Process
begin

text \<open>
  Properties of the client process as a whole: its two threads from the start to the exit
  code, the shutdown and the join of the pull thread.
\<close>

section \<open>One run: the user leaves at once\<close>

definition server_line :: bytes where
  "server_line = lit ''127.0.0.1:1234''"

definition start_world :: client_world where
  "start_world = init_world\<lparr>cin := [lit ''0''], server_info := Some server_line\<rparr>"

definition empty_net :: srv_net where
  "empty_net = \<lparr>sdb = sample_db, inbox = [], turns = 0\<rparr>"

definition no_socket :: "srv_net socket_ops" where
  "no_socket = \<lparr>socket_is_open = (\<lambda>net. True), socket_shutdown = (\<lambda>net. net), socket_close = (\<lambda>net. net\<lparr>inbox := []\<rparr>)\<rparr>"

lemma server_line_valid: "validateAndLoadServerInfo server_line = Some (lit ''127.0.0.1'', 1234)"
proof -
  have "server_info_file server_line [lit ''127'', lit ''0'', lit ''0'', lit ''1''] (lit ''1234'')"
    by (simp add: server_info_file_def server_line_def lit_Cons octet_def isdigit_def dec_value_def)
  from server_info_complete [OF this] show ?thesis
    by (simp add: lit_Cons dec_value_def)
qed

lemma option_0: "option_line (lit ''0'')" "parse_input (lit ''0'') = 0"
  by (simp_all add: option_line_def parse_input_def isNumber_def strtoul_def lit_Cons isspace_def isdigit_def dec_value_def
      isValidMenuOption_def)

lemma start_connects:
  obtains v w where "loadMyInfo cr (start_world\<lparr>ctx := init_ctx\<rparr>) = (Inr (), v)"
    and "connect (loopback envs) v empty_net = (Inr (), w, empty_net)" and "cin w = [lit ''0'']"
proof -
  let ?v = "say (lit ''my.info file was not found, please register (110) before any use.'' @ nl) start_world"
  have v: "loadMyInfo cr (start_world\<lparr>ctx := init_ctx\<rparr>) = (Inr (), ?v)"
    by (simp add: loadMyInfo_def start_world_def init_world_def getExecutableDirectory_def)
  have "loadServerInfo ?v = (Inr (lit ''127.0.0.1'', 1234), ?v)"
    by (simp add: loadServerInfo_def) (simp add: start_world_def init_world_def getExecutableDirectory_def server_line_valid)
  then obtain w where "connect (loopback envs) ?v empty_net = (Inr (), w, empty_net)" "cin w = cin ?v"
    by (simp add: connect_def loopback_def lit_Cons)
  with v show ?thesis by (intro that) (simp_all add: start_world_def)
qed

text \<open>The process connects, and with the only line of input its main thread leaves the loop.\<close>

lemma start_run:
  obtains w p v where "client_main cr (loopback envs) (start_world, empty_net) = Some (0, w, empty_net)"
    and "process_step cr (loopback envs) so hangs (start_process start_world empty_net) p" and "p_main p = At_menu"
    and "process_step cr (loopback envs) so hangs p (leave (Inr ()) (p\<lparr>p_world := v\<rparr>))"
proof -
  obtain v w where c: "loadMyInfo cr (start_world\<lparr>ctx := init_ctx\<rparr>) = (Inr (), v)"
    "connect (loopback envs) v empty_net = (Inr (), w, empty_net)" "cin w = [lit ''0'']"
    by (rule start_connects)
  obtain w2 where menu: "clientMenuMain w = Some (0, w2)"
    using menu.run_accept [OF c(3)] option_0 by auto
  let ?w = "say (lit ''Exiting client...'' @ nl) w2"
  have "main_turn cr (loopback envs) (w, empty_net) = Some (Exit, ?w, empty_net)"
    using menu by (simp add: main_turn_def)
  then have "main_loop cr (loopback envs) (w, empty_net) = Some (Inr (), ?w, empty_net)"
    by (subst main_loop.simps) simp
  with c(1,2) have main: "client_main cr (loopback envs) (start_world, empty_net) = Some (0, ?w, empty_net)"
    by (simp add: client_main_def)
  let ?p = "(start_process start_world empty_net)\<lparr>p_world := w, p_net := empty_net, p_main := At_menu, p_pull := Puller Loop_head\<rparr>"
  have "process_step cr (loopback envs) so hangs (start_process start_world empty_net) ?p"
    by (rule connected) (use c in \<open>simp_all add: start_process_def\<close>)
  moreover have "process_step cr (loopback envs) so hangs ?p (leave (Inr ()) (?p\<lparr>p_world := ?w\<rparr>))"
    by (rule menu_exit) (use menu in simp_all)
  ultimately show ?thesis using main by (intro that [of ?w ?p ?w]) simp_all
qed

section \<open>Start and end\<close>

text \<open>C23: whenever the process has exited, in any interleaving of its threads, the pull thread has
  ended or was never started, and then the exit code is 1; the exit code is 0 or 1, and no
  thread does anything afterwards.\<close>

lemma exit_leaves_no_thread:
  assumes "(process_step cr io so hangs)\<^sup>*\<^sup>* (start_process w net) p" and "p_main p = Exited code"
  shows "(p_pull p = Puller Stopped \<or> p_pull p = Not_started \<and> code = 1) \<and> code \<le> 1 \<and> (\<nexists>q. process_step cr io so hangs p q)"
proof -
  have "process_inv p" using process_inv_reach [OF assms(1) process_inv_start] .
  with exited_final [OF this assms(2), of cr io so hangs] show ?thesis by (auto simp: process_inv_def assms(2))
qed

lemma exit_leaves_no_thread_witness:
  "\<exists>p. (process_step toy (loopback (\<lambda>n. sample_env)) no_socket never)\<^sup>*\<^sup>* (start_process start_world empty_net) p
     \<and> p_main p = Exited 0 \<and> p_pull p = Puller Stopped"
proof -
  obtain w where "client_main toy (loopback (\<lambda>n. sample_env)) (start_world, empty_net) = Some (0, w, empty_net)"
    by (rule start_run)
  from client_main_run [OF this, of no_socket] obtain p
    where p: "(process_step toy (loopback (\<lambda>n. sample_env)) no_socket never)\<^sup>*\<^sup>* (start_process start_world empty_net) p" "p_main p = Exited 0"
    by blast
  from exit_leaves_no_thread [OF p] p show ?thesis by auto
qed

text \<open>C21: once the main thread has left its loop, every run of the process has at most four more
  steps, whatever the pull thread was doing. A run that cannot go on has exited, with code 0 after the
  menu's exit and with code 1 after an exception, or the pull thread is at an exchange that the server
  never answers, and only then: the reads have no timeout and the stop flag is not looked at in
  \<^verbatim>\<open>sendAndReceive\<close>, so that the join, and with it the exit of the client, waits for ever.\<close>

lemma shutdown_terminates:
  assumes "(process_step cr io so hangs)\<^sup>*\<^sup>* (start_process w net) p" and "p_main p = Joining r"
    and "(process_step cr io so hangs ^^ n) p q"
  shows "n \<le> 4 \<and> ((\<nexists>v. process_step cr io so hangs q v) \<longleftrightarrow>
      p_main q = Exited (case r of Inl _ \<Rightarrow> 1 | Inr _ \<Rightarrow> 0)
    \<or> p_main q = Joining r \<and> p_pull q = Puller Pulling \<and> hasClientID (ctx (p_world q)) \<and> hangs (pull_data_of q) (p_net q))"
proof -
  have inv: "process_inv p" using process_inv_reach [OF assms(1) process_inv_start] .
  have q: "process_inv q" using process_inv_reach [OF relpowp_imp_rtranclp [OF assms(3)] inv] .
  have "(\<nexists>v. process_step cr io so hangs q v) \<longleftrightarrow> p_main q = Exited (exit_code r) \<or> p_main q = Joining r \<and> pull_hangs hangs q"
    using shutdown_bound(2) [OF assms(3) inv assms(2)] shutdown_proceeds [OF q] shutdown_hangs exited_final [OF q]
    by metis
  with shutdown_bound(1) [OF assms(3) inv assms(2)] shutdown_measure_le [of p] show ?thesis
    by (simp add: exit_code_def pull_hangs_def)
qed

lemma shutdown_terminates_witness:
  "\<exists>p. p_main p = Joining (Inr ()) \<and> (\<forall>n q. (process_step toy (loopback (\<lambda>n. sample_env)) no_socket never ^^ n) p q \<longrightarrow> n \<le> 4
      \<and> ((\<nexists>v. process_step toy (loopback (\<lambda>n. sample_env)) no_socket never q v) \<longrightarrow> p_main q = Exited 0))"
proof -
  obtain p v where p: "process_step toy (loopback (\<lambda>n. sample_env)) no_socket never (start_process start_world empty_net) p"
    "process_step toy (loopback (\<lambda>n. sample_env)) no_socket never p (leave (Inr ()) (p\<lparr>p_world := v\<rparr>))"
    by (rule start_run)
  have run: "(process_step toy (loopback (\<lambda>n. sample_env)) no_socket never)\<^sup>*\<^sup>* (start_process start_world empty_net) (leave (Inr ()) (p\<lparr>p_world := v\<rparr>))"
    using p by (meson converse_rtranclp_into_rtranclp r_into_rtranclp)
  have join: "p_main (leave (Inr ()) (p\<lparr>p_world := v\<rparr>)) = Joining (Inr ())" by (simp add: leave_def)
  from shutdown_terminates [OF run join] join show ?thesis by (intro exI [of _ "leave (Inr ()) (p\<lparr>p_world := v\<rparr>)"]) simp
qed

section \<open>The process and the functions\<close>

text \<open>C22: a run of the process that has not exited is its start, with the files and the connection,
  followed by a run of the interleaving of the two threads to which the invariants of the
  system apply; only the control of the pull thread and the stop flag are forgotten.\<close>

lemma process_refines_threads:
  assumes "(process_step cr io so hangs)\<^sup>*\<^sup>* (start_process w net) q" and "p_main q \<noteq> Starting" and "\<forall>n. p_main q \<noteq> Exited n"
  shows "\<exists>v w1 net1. loadMyInfo cr (w\<lparr>ctx := init_ctx\<rparr>) = (Inr (), v) \<and> connect io v net = (Inr (), w1, net1)
    \<and> (thread_step cr io)\<^sup>*\<^sup>* \<lparr>world = w1, network = net1, main_pending = Idle, pull_pending = Idle\<rparr> (threads_of q)"
proof -
  have start: "p_main (start_process w net) = Starting" "p_world (start_process w net) = w" "p_net (start_process w net) = net"
    "p_pull (start_process w net) = Not_started"
    by (simp_all add: start_process_def)
  obtain p where p: "process_step cr io so hangs (start_process w net) p" "(process_step cr io so hangs)\<^sup>*\<^sup>* p q"
    using assms(1,2) start(1) by (metis converse_rtranclpE)
  have alive: "\<forall>n. p_main p \<noteq> Exited n"
    using p(2) assms(3) by (metis exited_stays_run)
  from p(1) show ?thesis
  proof (cases rule: process_step.cases)
    case (connected u v u' w1 net1)
    have "(thread_step cr io)\<^sup>*\<^sup>* (threads_of p) (threads_of q)"
      by (rule process_run_threads [OF p(2), THEN conjunct1]) (use connected assms(3) in simp_all)
    with connected start show ?thesis by (auto simp: threads_of_def main_view_def pull_view_def)
  qed (use start alive in auto)
qed

lemma process_refines_threads_witness:
  "\<exists>w1 t. (thread_step toy (loopback (\<lambda>n. sample_env)))\<^sup>*\<^sup>* \<lparr>world = w1, network = empty_net, main_pending = Idle, pull_pending = Idle\<rparr> t
     \<and> main_pending t = Finished Exit"
proof -
  obtain p v where p: "process_step toy (loopback (\<lambda>n. sample_env)) no_socket never (start_process start_world empty_net) p"
    "process_step toy (loopback (\<lambda>n. sample_env)) no_socket never p (leave (Inr ()) (p\<lparr>p_world := v\<rparr>))"
    by (rule start_run)
  let ?q = "leave (Inr ()) (p\<lparr>p_world := v\<rparr>)"
  have run: "(process_step toy (loopback (\<lambda>n. sample_env)) no_socket never)\<^sup>*\<^sup>* (start_process start_world empty_net) ?q"
    using p by (meson converse_rtranclp_into_rtranclp r_into_rtranclp)
  obtain v' w' where c: "loadMyInfo toy (start_world\<lparr>ctx := init_ctx\<rparr>) = (Inr (), v')"
    "connect (loopback (\<lambda>n. sample_env)) v' empty_net = (Inr (), w', empty_net)"
    by (rule start_connects)
  have "main_pending (threads_of ?q) = Finished Exit" by (simp add: threads_of_def main_view_def leave_def)
  then show ?thesis using process_refines_threads [OF run] c by (auto simp: leave_def)
qed

text \<open>C24: when \<^verbatim>\<open>main\<close> without its pull thread returns an exit code, the process with both threads, on a
  network where no exchange hangs, has a run to that exit code with the same files, context and output, in which the
  destructor has closed the connection if there was one.\<close>

lemma main_is_process_run:
  assumes "client_main cr io (w, net) = Some (code, w', net')"
  shows "\<exists>q. (process_step cr io so never)\<^sup>*\<^sup>* (start_process w net) q \<and> p_main q = Exited code \<and> p_world q = w'
    \<and> p_net q = (if p_pull q = Not_started then net' else disconnect so net')"
  using client_main_run [OF assms] .

lemma main_is_process_run_witness:
  "\<exists>q. (process_step toy (loopback (\<lambda>n. sample_env)) no_socket never)\<^sup>*\<^sup>* (start_process start_world empty_net) q \<and> p_main q = Exited 0"
proof -
  obtain w where "client_main toy (loopback (\<lambda>n. sample_env)) (start_world, empty_net) = Some (0, w, empty_net)"
    by (rule start_run)
  from main_is_process_run [OF this] show ?thesis by blast
qed

end
