(* ===== verification/Handshake.thy ===== *)
theory Handshake
  imports Sample
begin

text \<open>
  Several turns of two clients, one after the other, on one server: the key exchange that the
  repository's documentation describes, from the first request for a key to a text in the other
  direction. A turn is the action, the server's handling of its request and the client's
  handling of the response.
\<close>

section \<open>One turn\<close>

text \<open>A turn of the main loop after the menu, with the lines the user types and the server at the
  other end of the connection; \<open>None\<close> when it does not return or ends in an exception, or when
  nothing is sent.\<close>

definition turn_with :: "('sk, 'pk) crypto \<Rightarrow> srv_env \<Rightarrow> u16 \<Rightarrow> bytes list \<Rightarrow> client_world \<Rightarrow> db \<Rightarrow> (client_world \<times> db) option" where
  "turn_with cr e code lines w d =
     (case handleMenuChoice cr code (w\<lparr>cin := lines\<rparr>) of
        Some (Inr q, w) \<Rightarrow>
          if q = [] then None
          else (case request_handler_main e q d of
                  (Inr r, d) \<Rightarrow> (case responseClientMain cr r w of (Inr _, w) \<Rightarrow> Some (w, d) | _ \<Rightarrow> None)
                | _ \<Rightarrow> None)
      | _ \<Rightarrow> None)"

lemma turn_withI:
  assumes "handleMenuChoice cr code (w\<lparr>cin := lines\<rparr>) = Some (Inr q, w1)" and "q \<noteq> []"
    and "request_handler_main e q d = (Inr r, d1)" and "responseClientMain cr r w1 = (Inr u, w2)"
  shows "turn_with cr e code lines w d = Some (w2, d1)"
  using assms by (simp add: turn_with_def)

lemma request_nonempty: "request_bytes cid code p \<noteq> []"
  by (simp add: request_bytes_def)

text \<open>The tables as the two clients see them: the ids with their public keys, the number of messages
  so far, and what waits for each id.\<close>

definition mail :: "db \<Rightarrow> (bytes \<times> bytes) set \<Rightarrow> nat \<Rightarrow> (bytes \<Rightarrow> waiting_row list) \<Rightarrow> bool" where
  "mail d keys n waiting \<longleftrightarrow> db_ok d \<and> (\<lambda>r. (c_id r, c_pubkey r)) ` set (clients d) = keys \<and> seq d = n
     \<and> (\<forall>r. fetch_rows d r = waiting r)"

lemma mailD:
  assumes "mail d keys n waiting" and "(i, k) \<in> keys"
  shows "length i = 16" and "i \<in> c_id ` set (clients d)" and "length k = 160"
    and "\<exists>row\<in>set (clients d). c_id row = i \<and> c_pubkey row = k"
proof -
  from assms obtain row where row: "row \<in> set (clients d)" "c_id row = i" "c_pubkey row = k" "db_ok d"
    by (auto simp: mail_def)
  with db_okD(3) [OF row(4,1)] show "length i = 16" "length k = 160" "i \<in> c_id ` set (clients d)"
    "\<exists>row\<in>set (clients d). c_id row = i \<and> c_pubkey row = k"
    by (auto simp: client_row_ok_def)
qed

lemma touched_pubkeys:
  "(\<lambda>r. (c_id r, c_pubkey r)) ` set (clients (touched t me d)) = (\<lambda>r. (c_id r, c_pubkey r)) ` set (clients d)"
  by (simp add: touched_def update_client_last_seen_def image_image del: if_image_distrib) (rule image_cong, auto)

lemma mail_touched: "mail d keys n waiting \<Longrightarrow> mail (touched t me d) keys n waiting"
  by (simp add: mail_def db_ok_touched touched_pubkeys fetch_rows_touched) (simp add: touched_keeps)

section \<open>Turns\<close>

lemma turn_send:
  assumes "mail d keys n waiting" and "(me, kme) \<in> keys" and "(t, kt) \<in> keys" and "db_ready e" and "env_ok e"
    and "handleMenuChoice cr code (w\<lparr>cin := lines\<rparr>) = Some (Inr (request_bytes me 703 (send_payload t ty c)), w1)"
    and "tryGetFriendCopy (ctx w1) t \<noteq> None"
    and "ty \<in> {1, 2, 3}" and "ty = 1 \<longrightarrow> c = []" and "21 + length c < 2 ^ 32" and "Suc n < 2 ^ 32"
  obtains w2 d2 where "turn_with cr e code lines w d = Some (w2, d2)" and "ctx w2 = ctx w1"
    and "mail d2 keys (Suc n) (waiting(t := waiting t @ [(Suc n, me, unat ty, c)]))"
proof -
  have n: "seq d = n" and ok: "db_ok d" using assms(1) by (simp_all add: mail_def)
  note m = mailD [OF assms(1,2)] mailD [OF assms(1,3)]
  let ?d = "touched (now e) me d" and ?q = "request_bytes me 703 (send_payload t ty c)"
  let ?d2 = "snd (store_row t me (unat ty) c ?d)" and ?r = "response_bytes 2103 (t @ le_bytes 4 (Suc n))"
  have srv: "request_handler_main e ?q d = (Inr ?r, ?d2)"
    using send_run [OF m(1) assms(4) m(2) m(5,6) assms(8-10)] assms(11) n by simp
  obtain f where f: "tryGetFriendCopy (ctx w1) t = Some f" using assms(7) by auto
  obtain w2 where w2: "responseClientMain cr ?r w1 = (Inr (), w2)" "ctx w2 = ctx w1"
    using client_confirms [OF m(5) f assms(11), of cr] by simp
  have "turn_with cr e code lines w d = Some (w2, ?d2)"
    by (rule turn_withI [OF assms(6) request_nonempty srv w2(1)])
  moreover have "mail ?d2 keys (Suc n) (waiting(t := waiting t @ [(Suc n, me, unat ty, c)]))"
  proof -
    note t = mail_touched [OF assms(1), of "now e" me]
    have ids: "ids_ok ?d" and s: "seq ?d = n" using t db_ok_ids_ok by (auto simp: mail_def)
    have "fetch_rows ?d2 r = (waiting(t := waiting t @ [(Suc n, me, unat ty, c)])) r" for r
      using fetch_after_store [OF ids, of t me "unat ty" c r] t s by (simp add: mail_def)
    moreover have "clients ?d2 = clients ?d" "seq ?d2 = Suc n" using s by (simp_all add: store_row_def)
    ultimately show ?thesis using db_ok_request [OF ok assms(5) srv] t by (simp add: mail_def)
  qed
  ultimately show ?thesis using w2(2) that by blast
qed

lemma turn_fetch:
  assumes "mail d keys n waiting" and "(me, kme) \<in> keys" and "db_ready e" and "env_ok e" and "1 \<le> max_vars e"
    and "waiting me = [row]" and "row = (i, from, ty, c)" and "n < 2 ^ 32" and "25 + length c < 2 ^ 32"
    and "clientID (ctx w) = me" and "RSAPrivateWrapper_load cr (privateKey (ctx w)) = Inr sk"
  obtains d2 where "turn_with cr e 140 lines w d = Some (showRecord cr sk from (of_nat ty) c (w\<lparr>cin := lines\<rparr>), d2)"
    and "mail d2 keys n (waiting(me := []))"
proof -
  have n: "seq d = n" and ok: "db_ok d" and rows: "fetch_rows d me = [row]" using assms(1,6) by (simp_all add: mail_def)
  note m = mailD [OF assms(1,2)]
  have row: "row_ok row" using row_ok_fetched [OF ok, of row me] rows n assms(8) by simp
  then have fits: "fits [row]" using assms(9) by (simp add: fits_def assms(7) length_encode_row row_ok_def)
  let ?d2 = "drop_rows (map fst (fetch_rows d me)) (touched (now e) me d)" and ?r = "response_bytes 2104 (encode_row row)"
  have srv: "request_handler_main e (request_bytes me 704 []) d = (Inr ?r, ?d2)"
    using waiting_run [OF m(1) assms(3) m(2)] fits assms(5) rows by simp
  have req: "handleMenuChoice cr 140 (w\<lparr>cin := lines\<rparr>) = Some (Inr (request_bytes me 704 []), w\<lparr>cin := lines\<rparr>)"
    using m(1) assms(10) by (simp add: handleMenuChoice_def handleWaitingMessages_def empty_request)
  have "responseClientMain cr ?r (w\<lparr>cin := lines\<rparr>) = (Inr (), showRecord cr sk from (of_nat ty) c (w\<lparr>cin := lines\<rparr>))"
    using client_shows_rows [OF fits, of cr "w\<lparr>cin := lines\<rparr>" sk] assms(11) by (simp add: showAll_def row_view_def assms(7))
  note turn_withI [OF req request_nonempty srv this]
  moreover have "mail ?d2 keys n (waiting(me := []))"
  proof -
    note t = mail_touched [OF assms(1), of "now e" me]
    have "fetch_rows ?d2 r = (waiting(me := [])) r" for r
      using fetch_after_fetch [OF db_ok_ids_ok [OF ok], of me "now e" r] assms(1) by (simp add: mail_def)
    moreover have "clients ?d2 = clients (touched (now e) me d)" "seq ?d2 = seq (touched (now e) me d)"
      by (simp_all add: drop_rows_def delete_messages_def)
    ultimately show ?thesis using db_ok_request [OF ok assms(4) srv] t by (simp add: mail_def)
  qed
  ultimately show ?thesis using that by blast
qed

lemma turn_public_key:
  assumes "mail d keys n waiting" and "(me, kme) \<in> keys" and "(t, kt) \<in> keys" and "db_ready e"
    and "clientID (ctx w) = me" and "isValidUsername nm" and "nm \<noteq> lit ''0''" and "tryGetFriendIdByName (ctx w) nm = Some t"
    and "tryGetFriendCopy (ctx w) t \<noteq> None"
  obtains w2 d2 where "turn_with cr e 130 [nm] w d = Some (w2, d2)" and "ctx w2 = setFriendPublicKey t kt (ctx w)"
    and "mail d2 keys n waiting"
proof -
  have ok: "db_ok d" using assms(1) by (simp add: mail_def)
  note m = mailD [OF assms(1,2)] and mt = mailD [OF assms(1,3)]
  obtain row where row: "row \<in> set (clients d)" "c_id row = t" "c_pubkey row = kt" using mt(4) by blast
  obtain v where v: "getValidUsername target_prompt (w\<lparr>cin := [nm]\<rparr>) = Some (nm, v)" "ctx v = ctx w"
    using target_first [of "w\<lparr>cin := [nm]\<rparr>" nm "[]" t] assms(6-8) by auto
  have req: "handleMenuChoice cr 130 (w\<lparr>cin := [nm]\<rparr>) = Some (Inr (request_bytes me 702 t), v)"
    using v assms(5,7,8) mt(1) by (simp add: handleMenuChoice_def handlePublicKey_def payload_request)
  have srv: "request_handler_main e (request_bytes me 702 t) d = (Inr (response_bytes 2102 (t @ kt)), touched (now e) me d)"
    using public_key_run [OF m(1) assms(4) m(2) ok row(1)] by (simp add: row(2,3))
  obtain w2 where w2: "responseClientMain cr (response_bytes 2102 (t @ kt)) v = (Inr (), w2)"
    "ctx w2 = setFriendPublicKey t kt (ctx w)"
    using client_stores_key [OF mt(1,3), of cr v] v(2) assms(9) by auto
  from that [OF turn_withI [OF req request_nonempty srv w2(1)] w2(2) mail_touched [OF assms(1)]] show ?thesis .
qed

section \<open>The search by name while keys are learned\<close>

lemma search_same_names:
  assumes "ctx_wf c" and "ctx_wf d" and "\<And>k. map_option friendName (tryGetFriendCopy d k) = map_option friendName (tryGetFriendCopy c k)"
  shows "tryGetFriendIdByName d n = tryGetFriendIdByName c n"
proof -
  have same: "(\<exists>g. tryGetFriendCopy d k = Some g \<and> friendName g = n) \<longleftrightarrow> (\<exists>f. tryGetFriendCopy c k = Some f \<and> friendName f = n)" for k
    using assms(3) [of k] by (cases "tryGetFriendCopy c k"; cases "tryGetFriendCopy d k") auto
  show ?thesis
  proof (cases "tryGetFriendIdByName c n")
    case None
    then have "tryGetFriendIdByName d n = None"
      using same tryGetFriendIdByName_None [OF assms(1), of n] tryGetFriendIdByName_None [OF assms(2), of n] by blast
    with None show ?thesis by simp
  next
    case (Some k)
    note c = tryGetFriendIdByName_Some [OF assms(1) Some]
    then obtain j where j: "tryGetFriendIdByName d n = Some j"
      using same [of k] tryGetFriendIdByName_None [OF assms(2), of n] by (cases "tryGetFriendIdByName d n") blast+
    note d = tryGetFriendIdByName_Some [OF assms(2) j]
    have "k \<le> j" "j \<le> k" using c d same by blast+
    with Some j show ?thesis by simp
  qed
qed

lemma search_set_key:
  assumes "ctx_wf c"
  shows "length p = 160 \<Longrightarrow> tryGetFriendIdByName (setFriendPublicKey k p c) n = tryGetFriendIdByName c n"
    and "length s = 16 \<Longrightarrow> tryGetFriendIdByName (setFriendSymmetricKey k s c) n = tryGetFriendIdByName c n"
  using assms
  by (auto intro!: search_same_names ctx_wf_setFriendPublicKey ctx_wf_setFriendSymmetricKey
      simp: tryGet_setFriendPublicKey tryGet_setFriendSymmetricKey option.map_comp comp_def)

section \<open>The turns of the key exchange\<close>

definition srv_ready :: "srv_env \<Rightarrow> bool" where
  "srv_ready e \<longleftrightarrow> db_ready e \<and> env_ok e \<and> 1 \<le> max_vars e"

text \<open>A name the user types for a client in the cache.\<close>

definition calls_known :: "client_ctx \<Rightarrow> bytes \<Rightarrow> bytes \<Rightarrow> bool" where
  "calls_known c nm t \<longleftrightarrow> ctx_wf c \<and> isValidUsername nm \<and> nm \<noteq> lit ''0'' \<and> tryGetFriendIdByName c nm = Some t"

lemma calls_knownD:
  assumes "calls_known c nm t"
  shows "isValidUsername nm" and "nm \<noteq> lit ''0''" and "tryGetFriendIdByName c nm = Some t" and "ctx_wf c"
    and "length t = 16" and "\<exists>f. tryGetFriendCopy c t = Some f \<and> friendName f = nm"
  using assms tryGetFriendIdByName_Some [of c nm t] by (auto simp: calls_known_def)

lemma calls_known_set_key:
  "calls_known c nm t \<Longrightarrow> length p = 160 \<Longrightarrow> calls_known (setFriendPublicKey k p c) nm t"
  "calls_known c nm t \<Longrightarrow> length s = 16 \<Longrightarrow> calls_known (setFriendSymmetricKey k s c) nm t"
  by (simp_all add: calls_known_def search_set_key ctx_wf_setFriendPublicKey ctx_wf_setFriendSymmetricKey)

lemma displayName_known: "calls_known c nm t \<Longrightarrow> displayName c t = nm"
  using calls_knownD(1,6) [of c nm t] by (auto simp: displayName_def isValidUsername_def)

lemma ask_run:
  assumes "calls_known (ctx w) nm t"
  shows "\<exists>v. handleMenuChoice cr 151 (w\<lparr>cin := [nm]\<rparr>) = Some (Inr (request_bytes (clientID (ctx w)) 703 (send_payload t 1 [])), v)
    \<and> ctx v = ctx w"
proof -
  note k = calls_knownD [OF assms]
  obtain v where v: "getValidUsername target_prompt (w\<lparr>cin := [nm]\<rparr>) = Some (nm, v)" "ctx v = ctx w"
    using target_first [of "w\<lparr>cin := [nm]\<rparr>" nm "[]" t] k by auto
  with k show ?thesis by (simp add: handleMenuChoice_def handleAllMessages_def message_request_bytes)
qed

lemma turn_ask:
  assumes "mail d keys n waiting" and "(me, kme) \<in> keys" and "(t, kt) \<in> keys" and "srv_ready e"
    and "clientID (ctx w) = me" and "calls_known (ctx w) nm t" and "Suc n < 2 ^ 32"
  obtains w2 d2 where "turn_with cr e 151 [nm] w d = Some (w2, d2)" and "ctx w2 = ctx w"
    and "mail d2 keys (Suc n) (waiting(t := waiting t @ [(Suc n, me, 1, [])]))"
proof -
  obtain v where v: "handleMenuChoice cr 151 (w\<lparr>cin := [nm]\<rparr>) = Some (Inr (request_bytes me 703 (send_payload t 1 [])), v)"
    "ctx v = ctx w"
    using ask_run [OF assms(6), of cr] assms(5) by auto
  have "tryGetFriendCopy (ctx v) t \<noteq> None" using calls_knownD(6) [OF assms(6)] v(2) by auto
  then obtain w2 d2 where "turn_with cr e 151 [nm] w d = Some (w2, d2)" "ctx w2 = ctx v"
    "mail d2 keys (Suc n) (waiting(t := waiting t @ [(Suc n, me, unat (1 :: byte), [])]))"
    using turn_send [OF assms(1-3) _ _ v(1) _ _ _ _ assms(7)] assms(4) by (auto simp: srv_ready_def)
  with v(2) show ?thesis by (intro that [of w2 d2]) simp_all
qed

lemma turn_key:
  assumes "mail d keys n waiting" and "(me, kme) \<in> keys" and "(t, kt) \<in> keys" and "srv_ready e"
    and "clientID (ctx w) = me" and "calls_known (ctx w) nm t" and "Suc n < 2 ^ 32"
    and "crypto_ok cr" and "kt = rsa_save_public cr (rsa_public_of cr (rsa_generate cr j))"
    and "Option.bind (tryGetFriendCopy (ctx w) t) publicKey = Some kt"
    and "\<forall>i m c. length m = 16 \<longrightarrow> oaep_encrypt cr i (rsa_public_of cr (rsa_generate cr j)) m = Inr c \<longrightarrow> 25 + length c < 2 ^ 32"
  obtains w2 d2 k c where "turn_with cr e 152 [nm] w d = Some (w2, d2)" and "ctx w2 = setFriendSymmetricKey t k (ctx w)"
    and "mail d2 keys (Suc n) (waiting(t := waiting t @ [(Suc n, me, 2, c)]))"
    and "length k = 16" and "oaep_decrypt cr (rsa_generate cr j) c = Inr k" and "25 + length c < 2 ^ 32"
    and "k = AESWrapper_random cr (rng w) (replicate 16 0)"
proof -
  note known = calls_knownD [OF assms(6)]
  let ?k = "AESWrapper_random cr (rng w) (replicate 16 0)"
  have k: "length ?k = 16" by (simp add: length_AESWrapper_random)
  obtain c where c: "oaep_encrypt cr (rng w + 4) (rsa_public_of cr (rsa_generate cr j)) ?k = Inr c" "c \<noteq> []"
    "oaep_decrypt cr (rsa_generate cr j) c = Inr ?k"
    using crypto_okD(3) [OF assms(8) k] by blast
  have c25: "25 + length c < 2 ^ 32" using assms(11) c(1) k by blast
  then have c21: "21 + length c < 2 ^ 32" by simp
  obtain f where f: "tryGetFriendCopy (ctx w) t = Some f" "publicKey f = Some kt"
    using assms(10) by (auto split: bind_splits)
  have lk: "length kt = 160" and pk: "rsa_load_public cr kt = Inr (rsa_public_of cr (rsa_generate cr j))"
    using crypto_okD(6,7) [OF assms(8)] assms(9) by simp_all
  let ?w = "w\<lparr>cin := [nm]\<rparr>"
  obtain v where v: "handleAllMessages cr 152 ?w = Some (Inr (request_bytes (clientID (ctx ?w)) 703 (send_payload t 2 c)), v)"
    "ctx v = setFriendSymmetricKey t ?k (ctx ?w)"
    using send_key_run [of ?w nm "[]" t f kt cr _ ?k c] known f lk pk c(1,2) c21 by auto
  have act: "handleMenuChoice cr 152 ?w = Some (Inr (request_bytes me 703 (send_payload t 2 c)), v)"
    using v(1) assms(5) by (simp add: handleMenuChoice_def)
  have "tryGetFriendCopy (ctx v) t \<noteq> None" using f(1) v(2) by (simp add: tryGet_setFriendSymmetricKey)
  then obtain w2 d2 where "turn_with cr e 152 [nm] w d = Some (w2, d2)" "ctx w2 = ctx v"
    "mail d2 keys (Suc n) (waiting(t := waiting t @ [(Suc n, me, unat (2 :: byte), c)]))"
    using turn_send [OF assms(1-3) _ _ act _ _ _ c21 assms(7)] assms(4) by (auto simp: srv_ready_def)
  with v(2) k c(3) c25 show ?thesis by (intro that [of w2 d2 ?k c]) simp_all
qed

lemma turn_text:
  assumes "mail d keys n waiting" and "(me, kme) \<in> keys" and "(t, kt) \<in> keys" and "srv_ready e"
    and "clientID (ctx w) = me" and "calls_known (ctx w) nm t" and "Suc n < 2 ^ 32"
    and "crypto_ok cr" and "Option.bind (tryGetFriendCopy (ctx w) t) symmetricKey = Some k" and "length k = 16"
    and "lines \<noteq> []" and "[] \<notin> set lines" and "msg = concat (map (\<lambda>l. l @ nl) lines)"
    and "length msg < 2 ^ 32" and "25 + length (aes_encrypt cr k msg) < 2 ^ 32"
  obtains w2 d2 where "turn_with cr e 150 (nm # lines @ [[]]) w d = Some (w2, d2)" and "ctx w2 = ctx w"
    and "mail d2 keys (Suc n) (waiting(t := waiting t @ [(Suc n, me, 3, aes_encrypt cr k msg)]))"
proof -
  note known = calls_knownD [OF assms(6)]
  let ?c = "aes_encrypt cr k msg" and ?w = "w\<lparr>cin := nm # lines @ [[]]\<rparr>"
  obtain f where f: "tryGetFriendCopy (ctx w) t = Some f" "symmetricKey f = Some k"
    using assms(9) by (auto split: bind_splits)
  have c21: "21 + length ?c < 2 ^ 32" using assms(15) by simp
  obtain v where v: "handleAllMessages cr 150 ?w = Some (Inr (request_bytes (clientID (ctx ?w)) 703 (send_payload t 3 ?c)), v)"
    "ctx v = ctx ?w"
    using send_text_run [of ?w nm lines "[]" t f k msg cr] known f assms(10-14) crypto_okD(2) [OF assms(8,10)] c21 by auto
  have act: "handleMenuChoice cr 150 ?w = Some (Inr (request_bytes me 703 (send_payload t 3 ?c)), v)"
    using v(1) assms(5) by (simp add: handleMenuChoice_def)
  have "tryGetFriendCopy (ctx v) t \<noteq> None" using f(1) v(2) by simp
  then obtain w2 d2 where "turn_with cr e 150 (nm # lines @ [[]]) w d = Some (w2, d2)" "ctx w2 = ctx v"
    "mail d2 keys (Suc n) (waiting(t := waiting t @ [(Suc n, me, unat (3 :: byte), ?c)]))"
    using turn_send [OF assms(1-3) _ _ act _ _ _ c21 assms(7)] assms(4) by (auto simp: srv_ready_def)
  with v(2) show ?thesis by (intro that [of w2 d2]) simp_all
qed

lemma show_request:
  "showRecord cr sk a 1 c w =
    say (lit ''From: '' @ displayName (ctx w) a @ nl @ lit ''Content:'' @ nl @ lit ''Request for symmetric key'' @ nl
      @ lit ''-----<EOM>-----'' @ nl @ nl) w"
  by (simp add: showRecord_def Let_def say_def)

section \<open>The key exchange and a text\<close>

text \<open>The first five turns: the first client asks for a key, the second one sees it, gets the first
  one's public key and sends a symmetric key, the first one fetches it.\<close>

lemma keys_exchanged:
  assumes "crypto_ok cr" and "mail d keys n waiting" and "(a, ka) \<in> keys" and "(b, kb) \<in> keys" and "a \<noteq> b"
    and "waiting a = []" "waiting b = []" and "Suc (Suc n) < 2 ^ 32" and "\<And>i :: nat. srv_ready (e i)"
    and "clientID (ctx wa) = a" and "clientID (ctx wb) = b" and "calls_known (ctx wa) nb b" and "calls_known (ctx wb) na a"
    and "ka = rsa_save_public cr (rsa_public_of cr (rsa_generate cr j))" and "privateKey (ctx wa) = rsa_save_private cr (rsa_generate cr j)"
    and "RSAPrivateWrapper_load cr (privateKey (ctx wb)) = Inr sk"
    and "\<forall>i m c. length m = 16 \<longrightarrow> oaep_encrypt cr i (rsa_public_of cr (rsa_generate cr j)) m = Inr c \<longrightarrow> 25 + length c < 2 ^ 32"
  obtains wa1 d1 wb1 d2 wb2 d3 wb3 d4 wa2 d5 k
  where "turn_with cr (e 0) 151 [nb] wa d = Some (wa1, d1)" and "turn_with cr (e 1) 140 [] wb d1 = Some (wb1, d2)"
    and "cout wb1 = cout wb @ lit ''From: '' @ na @ nl @ lit ''Content:'' @ nl @ lit ''Request for symmetric key'' @ nl
      @ lit ''-----<EOM>-----'' @ nl @ nl"
    and "turn_with cr (e 2) 130 [na] wb1 d2 = Some (wb2, d3)" and "turn_with cr (e 3) 152 [na] wb2 d3 = Some (wb3, d4)"
    and "turn_with cr (e 4) 140 [] wa1 d4 = Some (wa2, d5)"
    and "ctx wa2 = setFriendSymmetricKey b k (ctx wa)"
    and "ctx wb3 = setFriendSymmetricKey a k (setFriendPublicKey a ka (ctx wb))"
    and "length k = 16" and "mail d5 keys (Suc (Suc n)) waiting"
proof -
  have ready: "db_ready (e i)" "env_ok (e i)" "1 \<le> max_vars (e i)" for i
    using assms(9) [of i] by (simp_all add: srv_ready_def)
  have ka: "length ka = 160" using crypto_okD(7) [OF assms(1)] by (simp add: assms(14))
  obtain wa1 d1 where t1: "turn_with cr (e 0) 151 [nb] wa d = Some (wa1, d1)" "ctx wa1 = ctx wa"
    "mail d1 keys (Suc n) (waiting(b := [(Suc n, a, 1, [])]))"
    using turn_ask [OF assms(2-4) assms(9) [of 0] assms(10,12), of cr] assms(7,8) by auto
  obtain d2 where t2: "turn_with cr (e 1) 140 [] wb d1 = Some (showRecord cr sk a (of_nat 1) [] (wb\<lparr>cin := []\<rparr>), d2)"
    "mail d2 keys (Suc n) (waiting(b := []))"
    using turn_fetch [OF t1(3) assms(4) ready [of 1] _ refl _ _ assms(11,16), where lines = "[]"] assms(8) by auto
  let ?wb1 = "showRecord cr sk a 1 [] (wb\<lparr>cin := []\<rparr>)"
  have wb1: "ctx ?wb1 = ctx wb" "cout ?wb1 = cout wb @ lit ''From: '' @ na @ nl @ lit ''Content:'' @ nl
      @ lit ''Request for symmetric key'' @ nl @ lit ''-----<EOM>-----'' @ nl @ nl"
    using displayName_known [OF assms(13)] by (simp_all add: show_request)
  note known = calls_knownD [OF assms(13)]
  obtain wb2 d3 where t3: "turn_with cr (e 2) 130 [na] ?wb1 d2 = Some (wb2, d3)" "ctx wb2 = setFriendPublicKey a ka (ctx wb)"
    "mail d3 keys (Suc n) (waiting(b := []))"
    using turn_public_key [OF t2(2) assms(4,3) ready(1) [of 2], of ?wb1 na cr] known assms(11) wb1(1) by auto
  have wb2: "clientID (ctx wb2) = b" "calls_known (ctx wb2) na a" "Option.bind (tryGetFriendCopy (ctx wb2) a) publicKey = Some ka"
    using known(6) calls_known_set_key(1) [OF assms(13) ka] by (auto simp: t3(2) ctx_simps assms(11))
  obtain wb3 d4 k c where t4: "turn_with cr (e 3) 152 [na] wb2 d3 = Some (wb3, d4)" "ctx wb3 = setFriendSymmetricKey a k (ctx wb2)"
    "mail d4 keys (Suc (Suc n)) (waiting(b := [], a := (waiting(b := [])) a @ [(Suc (Suc n), b, 2, c)]))"
    "length k = 16" "oaep_decrypt cr (rsa_generate cr j) c = Inr k" "25 + length c < 2 ^ 32"
    "k = AESWrapper_random cr (rng wb2) (replicate 16 0)"
    by (rule turn_key [OF t3(3) assms(4,3) assms(9) [of 3] wb2(1,2) assms(8,1,14) wb2(3) assms(17)])
  have d4: "mail d4 keys (Suc (Suc n)) (waiting(b := [], a := [(Suc (Suc n), b, 2, c)]))"
    using t4(3) assms(5,6) by simp
  have load: "RSAPrivateWrapper_load cr (privateKey (ctx wa1)) = Inr (rsa_generate cr j)"
    using crypto_okD(4) [OF assms(1)] by (simp add: RSAPrivateWrapper_load_def t1(2) assms(15))
  obtain d5 where t5: "turn_with cr (e 4) 140 [] wa1 d4 = Some (showRecord cr (rsa_generate cr j) b (of_nat 2) c (wa1\<lparr>cin := []\<rparr>), d5)"
    "mail d5 keys (Suc (Suc n)) (waiting(b := [], a := []))"
    using turn_fetch [OF d4 assms(3) ready [of 4] _ refl assms(8) t4(6) _ load, where lines = "[]"] assms(10) t1(2) by auto
  have "tryGetFriendCopy (ctx wa) b \<noteq> None" using calls_knownD(6) [OF assms(12)] by auto
  then have wa2: "ctx (showRecord cr (rsa_generate cr j) b 2 c (wa1\<lparr>cin := []\<rparr>)) = setFriendSymmetricKey b k (ctx wa)"
    using show_key [OF t4(5,4), of b "wa1\<lparr>cin := []\<rparr>"] t1(2) by (auto simp del: not_None_eq)
  have "waiting(b := [], a := []) = waiting" using assms(6,7) by auto
  then show ?thesis
    using that [of wa1 d1 ?wb1 d2 wb2 d3 wb3 d4 _ d5 k] t1(1) t2(1) wb1(2) t3(1,2) t4(1,2,4) t5 wa2 by simp
qed

text \<open>C2: the key exchange of the documentation, turn by turn. The first client asks for a key; the
  second one sees the request under its name, fetches its public key and sends a new symmetric
  key; the first one fetches it. From then on both hold the same key for each other, a text
  typed at the first one is shown unchanged at the second one under the first one's name, and
  nothing is left waiting.\<close>

lemma handshake_then_text:
  assumes "crypto_ok cr" and "mail d keys n waiting" and "(a, ka) \<in> keys" and "(b, kb) \<in> keys" and "a \<noteq> b"
    and "waiting a = []" "waiting b = []" and "Suc (Suc (Suc n)) < 2 ^ 32" and "\<And>i :: nat. srv_ready (e i)"
    and "clientID (ctx wa) = a" and "clientID (ctx wb) = b" and "calls_known (ctx wa) nb b" and "calls_known (ctx wb) na a"
    and "ka = rsa_save_public cr (rsa_public_of cr (rsa_generate cr j))" and "privateKey (ctx wa) = rsa_save_private cr (rsa_generate cr j)"
    and "RSAPrivateWrapper_load cr (privateKey (ctx wb)) = Inr sk"
    and "\<forall>i m c. length m = 16 \<longrightarrow> oaep_encrypt cr i (rsa_public_of cr (rsa_generate cr j)) m = Inr c \<longrightarrow> 25 + length c < 2 ^ 32"
    and "lines \<noteq> []" and "[] \<notin> set lines" and "msg = concat (map (\<lambda>l. l @ nl) lines)" and "length msg < 2 ^ 32"
    and "\<forall>k. length k = 16 \<longrightarrow> 25 + length (aes_encrypt cr k msg) < 2 ^ 32"
  shows "\<exists>wa1 d1 wb1 d2 wb2 d3 wb3 d4 wa2 d5 wa3 d6 wb4 d7 k.
      turn_with cr (e 0) 151 [nb] wa d = Some (wa1, d1) \<and> turn_with cr (e 1) 140 [] wb d1 = Some (wb1, d2)
    \<and> cout wb1 = cout wb @ lit ''From: '' @ na @ nl @ lit ''Content:'' @ nl @ lit ''Request for symmetric key'' @ nl
        @ lit ''-----<EOM>-----'' @ nl @ nl
    \<and> turn_with cr (e 2) 130 [na] wb1 d2 = Some (wb2, d3) \<and> turn_with cr (e 3) 152 [na] wb2 d3 = Some (wb3, d4)
    \<and> turn_with cr (e 4) 140 [] wa1 d4 = Some (wa2, d5)
    \<and> length k = 16 \<and> Option.bind (tryGetFriendCopy (ctx wa2) b) symmetricKey = Some k
    \<and> Option.bind (tryGetFriendCopy (ctx wb3) a) symmetricKey = Some k
    \<and> turn_with cr (e 5) 150 (nb # lines @ [[]]) wa2 d5 = Some (wa3, d6) \<and> turn_with cr (e 6) 140 [] wb3 d6 = Some (wb4, d7)
    \<and> cout wb4 = cout wb3 @ lit ''From: '' @ na @ nl @ lit ''Content:'' @ nl @ msg @ nl @ lit ''-----<EOM>-----'' @ nl @ nl
    \<and> fetch_rows d7 a = [] \<and> fetch_rows d7 b = []"
proof -
  have ready: "db_ready (e i)" "env_ok (e i)" "1 \<le> max_vars (e i)" for i
    using assms(9) [of i] by (simp_all add: srv_ready_def)
  have ka: "length ka = 160" using crypto_okD(7) [OF assms(1)] by (simp add: assms(14))
  have n2: "Suc (Suc n) < 2 ^ 32" using assms(8) by simp
  obtain wa1 d1 wb1 d2 wb2 d3 wb3 d4 wa2 d5 k
    where x: "turn_with cr (e 0) 151 [nb] wa d = Some (wa1, d1)" "turn_with cr (e 1) 140 [] wb d1 = Some (wb1, d2)"
    "cout wb1 = cout wb @ lit ''From: '' @ na @ nl @ lit ''Content:'' @ nl @ lit ''Request for symmetric key'' @ nl
      @ lit ''-----<EOM>-----'' @ nl @ nl"
    "turn_with cr (e 2) 130 [na] wb1 d2 = Some (wb2, d3)" "turn_with cr (e 3) 152 [na] wb2 d3 = Some (wb3, d4)"
    "turn_with cr (e 4) 140 [] wa1 d4 = Some (wa2, d5)"
    and wa2: "ctx wa2 = setFriendSymmetricKey b k (ctx wa)"
    and wb3: "ctx wb3 = setFriendSymmetricKey a k (setFriendPublicKey a ka (ctx wb))"
    and k: "length k = 16" and d5: "mail d5 keys (Suc (Suc n)) waiting"
    by (rule keys_exchanged [OF assms(1-7) n2 assms(9-17)])
  have ka2: "Option.bind (tryGetFriendCopy (ctx wa2) b) symmetricKey = Some k"
    using calls_knownD(6) [OF assms(12)] by (auto simp: wa2 tryGet_setFriendSymmetricKey)
  have kb3: "\<exists>f. tryGetFriendCopy (ctx wb3) a = Some f \<and> symmetricKey f = Some k"
    using calls_knownD(6) [OF assms(13)] by (auto simp: wb3 tryGet_setFriendSymmetricKey tryGet_setFriendPublicKey)
  then obtain f where f: "tryGetFriendCopy (ctx wb3) a = Some f" "symmetricKey f = Some k" by blast
  have known_a: "calls_known (ctx wa2) nb b" "clientID (ctx wa2) = a"
    using calls_known_set_key(2) [OF assms(12) k] by (simp_all add: wa2 ctx_simps assms(10))
  have known_b: "calls_known (ctx wb3) na a" "clientID (ctx wb3) = b" "RSAPrivateWrapper_load cr (privateKey (ctx wb3)) = Inr sk"
    using calls_known_set_key(2) [OF calls_known_set_key(1) [OF assms(13) ka] k] assms(11,16) by (simp_all add: wb3 ctx_simps)
  let ?c = "aes_encrypt cr k msg"
  have c: "25 + length ?c < 2 ^ 32" using assms(22) k by blast
  obtain wa3 d6 where t6: "turn_with cr (e 5) 150 (nb # lines @ [[]]) wa2 d5 = Some (wa3, d6)"
    "mail d6 keys (Suc (Suc (Suc n))) (waiting(b := waiting b @ [(Suc (Suc (Suc n)), a, 3, ?c)]))"
    by (rule turn_text [OF d5 assms(3,4) assms(9) [of 5] known_a(2,1) assms(8,1) ka2 k assms(18-21) c])
  have d6: "mail d6 keys (Suc (Suc (Suc n))) (waiting(b := [(Suc (Suc (Suc n)), a, 3, ?c)]))"
    using t6(2) assms(7) by simp
  obtain d7 where t7: "turn_with cr (e 6) 140 [] wb3 d6 = Some (showRecord cr sk a (of_nat 3) ?c (wb3\<lparr>cin := []\<rparr>), d7)"
    "mail d7 keys (Suc (Suc (Suc n))) (waiting(b := []))"
    using turn_fetch [OF d6 assms(4) ready [of 6] _ refl assms(8) c known_b(2,3), where lines = "[]"] by auto
  have "cout (showRecord cr sk a 3 ?c (wb3\<lparr>cin := []\<rparr>)) = cout wb3 @ lit ''From: '' @ na @ nl @ lit ''Content:'' @ nl @ msg @ nl
      @ lit ''-----<EOM>-----'' @ nl @ nl"
    using show_text [of "wb3\<lparr>cin := []\<rparr>" a f k cr ?c msg sk] f k crypto_okD(1) [OF assms(1) k] displayName_known [OF known_b(1)] by simp
  moreover have "fetch_rows d7 a = []" "fetch_rows d7 b = []" using t7(2) assms(5,6) by (simp_all add: mail_def)
  ultimately show ?thesis
    using x k ka2 f t6(1) t7(1) by (intro exI conjI) (assumption | simp)+
qed

lemma sample_calls: "calls_known alice_ctx bob_name bob" "calls_known bob_ctx alice_name alice"
  using sample_names ctx_wf_sample
  by (simp_all add: calls_known_def sample_friends) (simp add: bob_ctx_def tryGetFriendIdByName_def)

lemma sample_mail: "mail sample_db {(alice, alice_pub), (bob, bob_pub)} 6 (\<lambda>r. [])"
  by (simp add: mail_def db_ok_sample sample_clients sample_fetch)

lemma handshake_then_text_witness:
  "\<exists>wa1 d1 wb1 d2 wb2 d3 wb3 d4 wa2 d5 wa3 d6 wb4 d7.
      turn_with toy sample_env 151 [bob_name] (alice_world []) sample_db = Some (wa1, d1)
    \<and> turn_with toy sample_env 140 [] bob_world d1 = Some (wb1, d2) \<and> turn_with toy sample_env 130 [alice_name] wb1 d2 = Some (wb2, d3)
    \<and> turn_with toy sample_env 152 [alice_name] wb2 d3 = Some (wb3, d4) \<and> turn_with toy sample_env 140 [] wa1 d4 = Some (wa2, d5)
    \<and> turn_with toy sample_env 150 (bob_name # [lit ''hi''] @ [[]]) wa2 d5 = Some (wa3, d6)
    \<and> turn_with toy sample_env 140 [] wb3 d6 = Some (wb4, d7)
    \<and> cout wb4 = cout wb3 @ lit ''From: '' @ alice_name @ nl @ lit ''Content:'' @ nl @ (lit ''hi'' @ nl) @ nl @ lit ''-----<EOM>-----'' @ nl @ nl"
proof -
  have ready: "srv_ready sample_env" by (simp add: srv_ready_def sample_env_facts)
  have load: "RSAPrivateWrapper_load toy (privateKey (ctx bob_world)) = Inr 66"
    by (simp add: RSAPrivateWrapper_load_def sample_worlds sample_friends toy_facts)
  have pub: "alice_pub = rsa_save_public toy (rsa_public_of toy (rsa_generate toy 32))"
    by (simp add: toy_keys alice_pub_def)
  have priv: "privateKey (ctx (alice_world [])) = rsa_save_private toy (rsa_generate toy 32)"
    by (simp add: toy_keys sample_worlds sample_friends)
  have oaep: "\<forall>i m c. length m = 16 \<longrightarrow> oaep_encrypt toy i (rsa_public_of toy (rsa_generate toy 32)) m = Inr c \<longrightarrow> 25 + length c < 2 ^ 32"
    by (auto simp: toy_keys)
  have size: "\<forall>k. length k = 16 \<longrightarrow> 25 + length (aes_encrypt toy k (lit ''hi'' @ nl)) < 2 ^ 32"
    by (simp add: toy_facts nl_def)
  have ids: "clientID (ctx (alice_world [])) = alice" "clientID (ctx bob_world) = bob"
    by (simp_all add: sample_worlds sample_friends)
  have calls: "calls_known (ctx (alice_world [])) bob_name bob" "calls_known (ctx bob_world) alice_name alice"
    using sample_calls by (simp_all add: sample_worlds)
  show ?thesis
    using handshake_then_text [OF crypto_ok_toy sample_mail _ _ sample_ids(3) refl refl _ ready ids calls pub priv load oaep _ _ _ _ size,
        of bob_pub "[lit ''hi'']"]
    by (simp add: lit_Cons nl_def) blast
qed

end
