(* ===== verification/Crossed_Keys.thy ===== *)
theory Crossed_Keys
  imports Handshake
begin

text \<open>
  The key exchange when both clients send a key before either has fetched: each stores its own new
  key with action 152, and each replaces it by the other's when it fetches. The turns are those of
  \<open>Handshake\<close>.
\<close>

lemma show_undecryptable:
  assumes "tryGetFriendCopy (ctx w) a = Some f" and "symmetricKey f = Some k" and "length k = 16"
    and "aes_decrypt cr k c = Inl e"
  shows "showRecord cr sk a 3 c w =
    say (lit ''From: '' @ displayName (ctx w) a @ nl @ lit ''Content:'' @ nl @ cant_decrypt @ lit ''-----<EOM>-----'' @ nl @ nl) w"
  using assms by (simp add: showRecord_def handleTextMessage_def AESWrapper_key_def Let_def say_def)

text \<open>A client that fetches a key stores it for the sender, whatever it held before.\<close>

lemma turn_fetch_key:
  assumes "crypto_ok cr" and "mail d keys n waiting" and "(me, kme) \<in> keys" and "srv_ready e"
    and "waiting me = [(i, from, 2, c)]" and "n < 2 ^ 32" and "25 + length c < 2 ^ 32"
    and "clientID (ctx w) = me" and "privateKey (ctx w) = rsa_save_private cr (rsa_generate cr j)"
    and "oaep_decrypt cr (rsa_generate cr j) c = Inr k" and "length k = 16" and "calls_known (ctx w) nm from"
  obtains w2 d2 where "turn_with cr e 140 [] w d = Some (w2, d2)" and "ctx w2 = setFriendSymmetricKey from k (ctx w)"
    and "mail d2 keys n (waiting(me := []))"
proof -
  let ?w = "showRecord cr (rsa_generate cr j) from 2 c (w\<lparr>cin := []\<rparr>)"
  have load: "RSAPrivateWrapper_load cr (privateKey (ctx w)) = Inr (rsa_generate cr j)"
    using crypto_okD(4) [OF assms(1)] by (simp add: RSAPrivateWrapper_load_def assms(9))
  have ready: "db_ready e" "env_ok e" "1 \<le> max_vars e" using assms(4) by (simp_all add: srv_ready_def)
  obtain d2 where d2: "turn_with cr e 140 [] w d = Some (?w, d2)" "mail d2 keys n (waiting(me := []))"
    using turn_fetch [OF assms(2,3) ready assms(5) refl assms(6,7,8) load, where lines = "[]"] by auto
  have "tryGetFriendCopy (ctx w) from \<noteq> None" using calls_knownD(6) [OF assms(12)] by auto
  then have "ctx ?w = setFriendSymmetricKey from k (ctx w)"
    using show_key [OF assms(10,11), of "from" "w\<lparr>cin := []\<rparr>"] by (auto simp del: not_None_eq)
  from that [OF d2(1) this d2(2)] show ?thesis .
qed

section \<open>The keys cross\<close>

text \<open>What both clients have when each has registered, knows the other by name and has its public key.\<close>

definition can_send_key :: "('sk, 'pk) crypto \<Rightarrow> client_world \<Rightarrow> nat \<Rightarrow> bytes \<Rightarrow> bytes \<Rightarrow> bytes \<Rightarrow> nat \<Rightarrow> bool" where
  "can_send_key cr w i me nm t j \<longleftrightarrow> clientID (ctx w) = me \<and> calls_known (ctx w) nm t
     \<and> privateKey (ctx w) = rsa_save_private cr (rsa_generate cr i)
     \<and> Option.bind (tryGetFriendCopy (ctx w) t) publicKey = Some (rsa_save_public cr (rsa_public_of cr (rsa_generate cr j)))"

definition short_keys :: "('sk, 'pk) crypto \<Rightarrow> nat \<Rightarrow> bool" where
  "short_keys cr j \<longleftrightarrow>
     (\<forall>i m c. length m = 16 \<longrightarrow> oaep_encrypt cr i (rsa_public_of cr (rsa_generate cr j)) m = Inr c \<longrightarrow> 25 + length c < 2 ^ 32)"

lemma can_send_key_stored:
  assumes "can_send_key cr w i me nm t j" and "length k = 16" and "ctx v = setFriendSymmetricKey t k (ctx w)"
  shows "clientID (ctx v) = me" and "calls_known (ctx v) nm t" and "privateKey (ctx v) = rsa_save_private cr (rsa_generate cr i)"
    and "Option.bind (tryGetFriendCopy (ctx v) t) symmetricKey = Some k"
  using assms calls_known_set_key(2) [of "ctx w" nm t k t] calls_knownD(6) [of "ctx w" nm t]
  by (auto simp: can_send_key_def ctx_simps)

lemma stored_key:
  assumes "calls_known c nm t"
  shows "Option.bind (tryGetFriendCopy (setFriendSymmetricKey t k (setFriendSymmetricKey t j c)) t) symmetricKey = Some k"
  using calls_knownD(6) [OF assms] by (auto simp: ctx_simps)

lemma turn_own_key:
  assumes "mail d keys n waiting" and "(me, kme) \<in> keys"
    and "(t, rsa_save_public cr (rsa_public_of cr (rsa_generate cr j))) \<in> keys" and "srv_ready e"
    and "can_send_key cr w i me nm t j" and "Suc n < 2 ^ 32" and "crypto_ok cr" and "short_keys cr j"
    and "k = AESWrapper_random cr (rng w) (replicate 16 0)"
  obtains w2 d2 c where "turn_with cr e 152 [nm] w d = Some (w2, d2)" and "ctx w2 = setFriendSymmetricKey t k (ctx w)"
    and "mail d2 keys (Suc n) (waiting(t := waiting t @ [(Suc n, me, 2, c)]))"
    and "oaep_decrypt cr (rsa_generate cr j) c = Inr k" and "25 + length c < 2 ^ 32"
proof -
  note s = assms(5) [unfolded can_send_key_def]
  show ?thesis
    by (rule turn_key [OF assms(1-4) _ _ assms(6,7) refl _ assms(8) [unfolded short_keys_def]])
       (use s in \<open>auto simp: assms(9) intro: that\<close>)
qed

text \<open>Both clients send a key, both fetch: each ends with the other's.\<close>

lemma keys_cross:
  assumes "crypto_ok cr" and "mail d keys n waiting"
    and "(a, rsa_save_public cr (rsa_public_of cr (rsa_generate cr ja))) \<in> keys"
    and "(b, rsa_save_public cr (rsa_public_of cr (rsa_generate cr jb))) \<in> keys" and "a \<noteq> b"
    and "waiting a = []" "waiting b = []" and "Suc (Suc n) < 2 ^ 32" and "\<And>i :: nat. srv_ready (e i)"
    and "can_send_key cr wa ja a nb b jb" and "can_send_key cr wb jb b na a ja" and "short_keys cr ja" and "short_keys cr jb"
    and "KA = AESWrapper_random cr (rng wa) (replicate 16 0)" and "KB = AESWrapper_random cr (rng wb) (replicate 16 0)"
  obtains wa1 d1 wb1 d2 wa2 d3 wb2 d4 where "turn_with cr (e 0) 152 [nb] wa d = Some (wa1, d1)"
    and "turn_with cr (e 1) 152 [na] wb d1 = Some (wb1, d2)"
    and "turn_with cr (e 2) 140 [] wa1 d2 = Some (wa2, d3)" and "turn_with cr (e 3) 140 [] wb1 d3 = Some (wb2, d4)"
    and "ctx wa2 = setFriendSymmetricKey b KB (setFriendSymmetricKey b KA (ctx wa))"
    and "ctx wb2 = setFriendSymmetricKey a KA (setFriendSymmetricKey a KB (ctx wb))" and "mail d4 keys (Suc (Suc n)) waiting"
proof -
  have K: "length KA = 16" "length KB = 16" by (simp_all add: assms(14,15) length_AESWrapper_random)
  have n1: "Suc n < 2 ^ 32" using assms(8) by simp
  obtain wa1 d1 ca where t1: "turn_with cr (e 0) 152 [nb] wa d = Some (wa1, d1)" "ctx wa1 = setFriendSymmetricKey b KA (ctx wa)"
    "mail d1 keys (Suc n) (waiting(b := waiting b @ [(Suc n, a, 2, ca)]))"
    "oaep_decrypt cr (rsa_generate cr jb) ca = Inr KA" "25 + length ca < 2 ^ 32"
    by (rule turn_own_key [OF assms(2-4) assms(9) [of 0] assms(10) n1 assms(1,13,14)])
  let ?w1 = "waiting(b := [(Suc n, a, 2, ca)])"
  have m1: "mail d1 keys (Suc n) ?w1" using t1(3) assms(7) by simp
  obtain wb1 d2 cb where t2: "turn_with cr (e 1) 152 [na] wb d1 = Some (wb1, d2)" "ctx wb1 = setFriendSymmetricKey a KB (ctx wb)"
    "mail d2 keys (Suc (Suc n)) (?w1(a := ?w1 a @ [(Suc (Suc n), b, 2, cb)]))"
    "oaep_decrypt cr (rsa_generate cr ja) cb = Inr KB" "25 + length cb < 2 ^ 32"
    by (rule turn_own_key [OF m1 assms(4,3) assms(9) [of 1] assms(11) assms(8,1,12,15)])
  let ?w2 = "?w1(a := [(Suc (Suc n), b, 2, cb)])"
  have m2: "mail d2 keys (Suc (Suc n)) ?w2" using t2(3) assms(5,6) by simp
  note A1 = can_send_key_stored [OF assms(10) K(1) t1(2)] and B1 = can_send_key_stored [OF assms(11) K(2) t2(2)]
  obtain wa2 d3 where t3: "turn_with cr (e 2) 140 [] wa1 d2 = Some (wa2, d3)" "ctx wa2 = setFriendSymmetricKey b KB (ctx wa1)"
    "mail d3 keys (Suc (Suc n)) (?w2(a := []))"
    by (rule turn_fetch_key [OF assms(1) m2 assms(3) assms(9) [of 2] _ assms(8) t2(5) A1(1,3) t2(4) K(2) A1(2)]) simp
  have b3: "(?w2(a := [])) b = [(Suc n, a, 2, ca)]" using assms(5) by simp
  obtain wb2 d4 where t4: "turn_with cr (e 3) 140 [] wb1 d3 = Some (wb2, d4)" "ctx wb2 = setFriendSymmetricKey a KA (ctx wb1)"
    "mail d4 keys (Suc (Suc n)) (?w2(a := [], b := []))"
    by (rule turn_fetch_key [OF assms(1) t3(3) assms(4) assms(9) [of 3] b3 assms(8) t1(5) B1(1,3) t1(4) K(1) B1(2)])
  have "?w2(a := [], b := []) = waiting" using assms(6,7) by auto
  then show ?thesis using that [OF t1(1) t2(1) t3(1) t4(1)] t1(2) t2(2) t3(2) t4(2,3) by simp
qed

text \<open>C13: when two clients send each other a key before either fetches, the keys cross: each ends up
  encrypting with the key the other has just given up. Although every request was answered and
  both were told that the key was received, the next text of the first one is shown as one that
  cannot be decrypted, when decryption notices a wrong key.\<close>

lemma crossed_keys_undecryptable:
  assumes "crypto_ok cr" and "mail d keys n waiting"
    and "(a, rsa_save_public cr (rsa_public_of cr (rsa_generate cr ja))) \<in> keys"
    and "(b, rsa_save_public cr (rsa_public_of cr (rsa_generate cr jb))) \<in> keys" and "a \<noteq> b"
    and "waiting a = []" "waiting b = []" and "Suc (Suc (Suc n)) < 2 ^ 32" and "\<And>i :: nat. srv_ready (e i)"
    and "can_send_key cr wa ja a nb b jb" and "can_send_key cr wb jb b na a ja" and "short_keys cr ja" and "short_keys cr jb"
    and "KA = AESWrapper_random cr (rng wa) (replicate 16 0)" and "KB = AESWrapper_random cr (rng wb) (replicate 16 0)"
    and "lines \<noteq> []" and "[] \<notin> set lines" and "msg = concat (map (\<lambda>l. l @ nl) lines)" and "length msg < 2 ^ 32"
    and "25 + length (aes_encrypt cr KB msg) < 2 ^ 32" and "aes_decrypt cr KA (aes_encrypt cr KB msg) = Inl x"
  shows "\<exists>wa1 d1 wb1 d2 wa2 d3 wb2 d4 wa3 d5 wb3 d6.
      turn_with cr (e 0) 152 [nb] wa d = Some (wa1, d1) \<and> turn_with cr (e 1) 152 [na] wb d1 = Some (wb1, d2)
    \<and> turn_with cr (e 2) 140 [] wa1 d2 = Some (wa2, d3) \<and> turn_with cr (e 3) 140 [] wb1 d3 = Some (wb2, d4)
    \<and> Option.bind (tryGetFriendCopy (ctx wa2) b) symmetricKey = Some KB
    \<and> Option.bind (tryGetFriendCopy (ctx wb2) a) symmetricKey = Some KA
    \<and> turn_with cr (e 4) 150 (nb # lines @ [[]]) wa2 d4 = Some (wa3, d5) \<and> turn_with cr (e 5) 140 [] wb2 d5 = Some (wb3, d6)
    \<and> cout wb3 = cout wb2 @ lit ''From: '' @ na @ nl @ lit ''Content:'' @ nl @ cant_decrypt @ lit ''-----<EOM>-----'' @ nl @ nl"
proof -
  have n2: "Suc (Suc n) < 2 ^ 32" using assms(8) by simp
  have K: "length KA = 16" "length KB = 16" by (simp_all add: assms(14,15) length_AESWrapper_random)
  obtain wa1 d1 wb1 d2 wa2 d3 wb2 d4 where t: "turn_with cr (e 0) 152 [nb] wa d = Some (wa1, d1)"
    "turn_with cr (e 1) 152 [na] wb d1 = Some (wb1, d2)" "turn_with cr (e 2) 140 [] wa1 d2 = Some (wa2, d3)"
    "turn_with cr (e 3) 140 [] wb1 d3 = Some (wb2, d4)"
    and wa2: "ctx wa2 = setFriendSymmetricKey b KB (setFriendSymmetricKey b KA (ctx wa))"
    and wb2: "ctx wb2 = setFriendSymmetricKey a KA (setFriendSymmetricKey a KB (ctx wb))" and m4: "mail d4 keys (Suc (Suc n)) waiting"
    by (rule keys_cross [OF assms(1-7) n2 assms(9-15)])
  have A: "clientID (ctx wa2) = a" "calls_known (ctx wa2) nb b" "Option.bind (tryGetFriendCopy (ctx wa2) b) symmetricKey = Some KB"
    and B: "clientID (ctx wb2) = b" "calls_known (ctx wb2) na a" "Option.bind (tryGetFriendCopy (ctx wb2) a) symmetricKey = Some KA"
      "privateKey (ctx wb2) = rsa_save_private cr (rsa_generate cr jb)"
    using assms(10,11) by (simp_all add: can_send_key_def wa2 wb2 stored_key [of _ nb] stored_key [of _ na] calls_known_set_key(2) K identity_simps)
  let ?c = "aes_encrypt cr KB msg"
  obtain wa3 d5 where t5: "turn_with cr (e 4) 150 (nb # lines @ [[]]) wa2 d4 = Some (wa3, d5)"
    "mail d5 keys (Suc (Suc (Suc n))) (waiting(b := waiting b @ [(Suc (Suc (Suc n)), a, 3, ?c)]))"
    by (rule turn_text [OF m4 assms(3,4) assms(9) [of 4] A(1,2) assms(8,1) A(3) K(2) assms(16-20)])
  have m5: "mail d5 keys (Suc (Suc (Suc n))) (waiting(b := [(Suc (Suc (Suc n)), a, 3, ?c)]))" using t5(2) assms(7) by simp
  have ready: "db_ready (e 5)" "env_ok (e 5)" "1 \<le> max_vars (e 5)" using assms(9) [of 5] by (simp_all add: srv_ready_def)
  have load: "RSAPrivateWrapper_load cr (privateKey (ctx wb2)) = Inr (rsa_generate cr jb)"
    using crypto_okD(4) [OF assms(1)] by (simp add: RSAPrivateWrapper_load_def B(4))
  obtain d6 where t6: "turn_with cr (e 5) 140 [] wb2 d5 = Some (showRecord cr (rsa_generate cr jb) a (of_nat 3) ?c (wb2\<lparr>cin := []\<rparr>), d6)"
    using turn_fetch [OF m5 assms(4) ready _ refl assms(8,20) B(1) load, where lines = "[]"] by auto
  obtain f where f: "tryGetFriendCopy (ctx wb2) a = Some f" "symmetricKey f = Some KA" using B(3) by (auto split: bind_splits)
  have "cout (showRecord cr (rsa_generate cr jb) a 3 ?c (wb2\<lparr>cin := []\<rparr>)) = cout wb2 @ lit ''From: '' @ na @ nl @ lit ''Content:'' @ nl
      @ cant_decrypt @ lit ''-----<EOM>-----'' @ nl @ nl"
    using show_undecryptable [of "wb2\<lparr>cin := []\<rparr>" a f KA cr ?c x] f K(1) assms(21) displayName_known [OF B(2)] by simp
  then show ?thesis using t A(3) B(3) t5(1) t6 by (intro exI conjI) (assumption | simp)+
qed

text \<open>Alice and Bob, whose random sources are at different places.\<close>

lemma crossed_keys_undecryptable_witness:
  "\<exists>wa1 d1 wb1 d2 wa2 d3 wb2 d4 wa3 d5 wb3 d6.
      turn_with toy sample_env 152 [bob_name] (alice_world []) sample_db = Some (wa1, d1)
    \<and> turn_with toy sample_env 152 [alice_name] (bob_world\<lparr>rng := 8\<rparr>) d1 = Some (wb1, d2)
    \<and> turn_with toy sample_env 140 [] wa1 d2 = Some (wa2, d3) \<and> turn_with toy sample_env 140 [] wb1 d3 = Some (wb2, d4)
    \<and> turn_with toy sample_env 150 (bob_name # [lit ''hi''] @ [[]]) wa2 d4 = Some (wa3, d5)
    \<and> turn_with toy sample_env 140 [] wb2 d5 = Some (wb3, d6)
    \<and> cout wb3 = cout wb2 @ lit ''From: '' @ alice_name @ nl @ lit ''Content:'' @ nl @ cant_decrypt @ lit ''-----<EOM>-----'' @ nl @ nl"
proof -
  let ?wb = "bob_world\<lparr>rng := 8\<rparr>"
  have ready: "srv_ready sample_env" by (simp add: srv_ready_def sample_env_facts)
  have pub: "rsa_save_public toy (rsa_public_of toy (rsa_generate toy 32)) = alice_pub"
    "rsa_save_public toy (rsa_public_of toy (rsa_generate toy 33)) = bob_pub"
    by (simp_all add: toy_keys alice_pub_def bob_pub_def)
  have send: "can_send_key toy (alice_world []) 32 alice bob_name bob 33" "can_send_key toy ?wb 33 bob alice_name alice 32"
    using sample_calls by (simp_all add: can_send_key_def pub sample_worlds sample_friends) (simp_all add: toy_keys)
  have short: "short_keys toy j" for j by (auto simp: short_keys_def toy_keys)
  have key: "AESWrapper_random toy n (replicate 16 0) = concat (map (\<lambda>i. appendUint32LE [] (of_nat (n + i + 7))) [0..<4])" for n
    using GenerateKey_16 [of "replicate 16 0" "rdrand32 toy" n]
    by (simp add: AESWrapper_random_def appendUint32LE_def upt_rec toy_def ac_simps)
  have "AESWrapper_random toy 0 (replicate 16 0) \<noteq> AESWrapper_random toy 8 (replicate 16 0)"
    unfolding key by (simp add: upt_rec appendUint32LE_def)
  moreover have dec: "aes_decrypt toy k c = (if take 16 c = k then Inr (drop 16 c) else Inl (Crypto_exception ''invalid padding''))" for k c
    by (simp add: aes_decrypt_def toy_def toy_cbc_decrypt_def)
  ultimately have wrong: "aes_decrypt toy (AESWrapper_random toy 0 (replicate 16 0)) (aes_encrypt toy (AESWrapper_random toy 8 (replicate 16 0)) m)
      = Inl (Crypto_exception ''invalid padding'')" for m
    by (simp add: dec toy_facts length_AESWrapper_random)
  have rng: "rng (alice_world []) = 0" "rng ?wb = 8" by (simp_all add: sample_worlds)
  have size: "25 + length (aes_encrypt toy (AESWrapper_random toy 8 (replicate 16 0)) (lit ''hi'' @ nl)) < 2 ^ 32"
    by (simp add: toy_facts length_AESWrapper_random nl_def)
  show ?thesis
    using crossed_keys_undecryptable [OF crypto_ok_toy sample_mail _ _ sample_ids(3) refl refl _ ready send short short refl refl,
        of "[lit ''hi'']" "lit ''hi'' @ nl"] wrong size
    by (simp add: pub rng lit_Cons nl_def) blast
qed

end
