(* ===== verification/Act_Logic.thy ===== *)
theory Act_Logic
  imports MU_Prelude
begin

text \<open>
  Programs of atomic steps on a state that several threads share, and what a program keeps when
  other threads run between its steps. A program ends with a value, makes an atomic step, which
  may never return, or exchanges a request for an answer with something outside the state.

  \<open>sound\<close> is the judgement that a program keeps what it guarantees as long as the other threads keep what
  it relies on: every step is one it may take, every request is good at the state where it is made, and
  the value it ends with is good. The locale \<open>rely_guarantee\<close> has the rules for any two such relations,
  \<open>interference\<close> those for threads that all promise each other the same. \<open>tame\<close> is a simpler judgement, on
  the steps alone, for programs that are the same in every state.
\<close>

section \<open>Programs\<close>

datatype (dead 's, 'a) act =
    Done 'a
  | Step "'s \<Rightarrow> (('s, 'a) act \<times> 's) option"
  | Exchange bytes "exn + bytes \<Rightarrow> ('s, 'a) act"

primrec andthen :: "('s, 'a) act \<Rightarrow> ('a \<Rightarrow> ('s, 'b) act) \<Rightarrow> ('s, 'b) act" where
  "andthen (Done a) f = f a"
| "andthen (Step g) f = Step (\<lambda>s. map_option (map_prod (\<lambda>p. andthen p f) id) (g s))"
| "andthen (Exchange q k) f = Exchange q (\<lambda>r. andthen (k r) f)"

lemma andthen_Done [simp]: "andthen p Done = p"
proof (induction p)
  case (Step g)
  have "map_option (map_prod (\<lambda>p. andthen p Done) id) (g s) = g s" for s
  proof (cases "g s")
    case (Some x)
    then show ?thesis using Step.IH [of "g s" x "fst x"] rangeI [of g s] by (cases x) (simp add: Basic_BNFs.fsts.simps)
  qed simp
  then show ?case by simp
qed simp_all

lemma andthen_andthen: "andthen (andthen p f) g = andthen p (\<lambda>a. andthen (f a) g)"
proof (induction p)
  case (Step h)
  have "map_option (map_prod (\<lambda>p. andthen p g) id) (map_option (map_prod (\<lambda>p. andthen p f) id) (h s))
      = map_option (map_prod (\<lambda>p. andthen p (\<lambda>a. andthen (f a) g)) id) (h s)" for s
  proof (cases "h s")
    case (Some x)
    then show ?thesis using Step.IH [of "h s" x "fst x"] rangeI [of h s] by (cases x) (simp add: Basic_BNFs.fsts.simps)
  qed simp
  then show ?case by simp
qed simp_all

text \<open>An atomic step, a read, a write, and \<^verbatim>\<open>try\<close>-free sequencing over a value that may be an exception.\<close>

definition atom :: "('s \<Rightarrow> 'a \<times> 's) \<Rightarrow> ('s, 'a) act" where
  "atom f = Step (\<lambda>s. Some (map_prod Done id (f s)))"

definition look :: "('s \<Rightarrow> 'a) \<Rightarrow> ('s, 'a) act" where
  "look f = atom (\<lambda>s. (f s, s))"

definition change :: "('s \<Rightarrow> 's) \<Rightarrow> ('s, unit) act" where
  "change f = atom (\<lambda>s. ((), f s))"

definition partial :: "('s \<Rightarrow> ('a \<times> 's) option) \<Rightarrow> ('s, 'a) act" where
  "partial f = Step (\<lambda>s. map_option (map_prod Done id) (f s))"

definition unless_thrown :: "('s, exn + 'a) act \<Rightarrow> ('a \<Rightarrow> ('s, exn + 'b) act) \<Rightarrow> ('s, exn + 'b) act" where
  "unless_thrown p f = andthen p (\<lambda>r. case r of Inl e \<Rightarrow> Done (Inl e) | Inr a \<Rightarrow> f a)"

text \<open>The whole program with nothing in between.\<close>

primrec alone :: "('net \<Rightarrow> bytes \<Rightarrow> (exn + bytes) \<times> 'net) \<Rightarrow> ('s, 'a) act \<Rightarrow> 's \<times> 'net \<Rightarrow> ('a \<times> 's \<times> 'net) option" where
  "alone io (Done a) s = Some (a, s)"
| "alone io (Step g) s =
     (case map_option (map_prod (alone io) id) (g (fst s)) of None \<Rightarrow> None | Some (k, u) \<Rightarrow> k (u, snd s))"
| "alone io (Exchange q k) s = (case io (snd s) q of (r, net) \<Rightarrow> alone io (k r) (fst s, net))"

lemma alone_andthen:
  "alone io (andthen p f) s = (case alone io p s of None \<Rightarrow> None | Some (a, t) \<Rightarrow> alone io (f a) t)"
proof (induction p arbitrary: s)
  case (Step g)
  show ?case
  proof (cases "g (fst s)")
    case (Some q)
    obtain p u where q: "q = (p, u)" by fastforce
    then have "alone io (andthen p f) (u, snd s) = (case alone io p (u, snd s) of None \<Rightarrow> None | Some (a, t) \<Rightarrow> alone io (f a) t)"
      using Step.IH [of "g (fst s)" q p] Some by (simp add: rangeI Basic_BNFs.fsts.simps) (metis rangeI)
    then show ?thesis by (simp add: Some q)
  qed simp
qed (auto split: prod.split)

lemma alone_atoms [simp]:
  "alone io (atom f) s = Some (fst (f (fst s)), snd (f (fst s)), snd s)"
  "alone io (look g) s = Some (g (fst s), s)"
  "alone io (change h) s = Some ((), h (fst s), snd s)"
  "alone io (partial p) s = (case p (fst s) of None \<Rightarrow> None | Some (a, u) \<Rightarrow> Some (a, u, snd s))"
  by (auto simp: atom_def look_def change_def partial_def map_prod_def split: option.split prod.split)

lemma alone_unless_thrown:
  "alone io (unless_thrown p f) s = (case alone io p s of None \<Rightarrow> None
     | Some (Inl e, t) \<Rightarrow> Some (Inl e, t) | Some (Inr a, t) \<Rightarrow> alone io (f a) t)"
  by (auto simp: unless_thrown_def alone_andthen split: option.split sum.split prod.split)

section \<open>Sound programs\<close>

inductive sound ::
    "('s \<Rightarrow> 's \<Rightarrow> bool) \<Rightarrow> ('s \<Rightarrow> 's \<Rightarrow> bool) \<Rightarrow> ('s \<Rightarrow> bytes \<Rightarrow> bool) \<Rightarrow> (bytes \<Rightarrow> exn + bytes \<Rightarrow> bool) \<Rightarrow> ('a \<Rightarrow> 's \<Rightarrow> bool) \<Rightarrow> ('s, 'a) act \<Rightarrow> 's \<Rightarrow> bool"
  for rely guar good answers Q where
  sound_Done: "(\<And>t. rely s t \<Longrightarrow> Q a t) \<Longrightarrow> sound rely guar good answers Q (Done a) s"
| sound_Step: "(\<And>t p u. rely s t \<Longrightarrow> g t = Some (p, u) \<Longrightarrow> guar t u) \<Longrightarrow>
    (\<And>t p u. rely s t \<Longrightarrow> g t = Some (p, u) \<Longrightarrow> sound rely guar good answers Q p u) \<Longrightarrow> sound rely guar good answers Q (Step g) s"
| sound_Exchange: "(\<And>t. rely s t \<Longrightarrow> good t q) \<Longrightarrow>
    (\<And>t r. rely s t \<Longrightarrow> answers q r \<Longrightarrow> sound rely guar good answers Q (k r) t) \<Longrightarrow> sound rely guar good answers Q (Exchange q k) s"

inductive_cases sound_DoneE: "sound rely guar good answers Q (Done a) s"
inductive_cases sound_StepE: "sound rely guar good answers Q (Step g) s"
inductive_cases sound_ExchangeE: "sound rely guar good answers Q (Exchange q k) s"

lemma sound_mono:
  assumes "sound rely guar good answers R p s" and "\<And>a t. R a t \<Longrightarrow> Q a t"
  shows "sound rely guar good answers Q p s"
  using assms(1)
proof (induction rule: sound.induct)
  case (sound_Step s g)
  show ?case by (rule sound.sound_Step) (blast intro: sound_Step)+
qed (auto intro: sound.intros assms(2))

text \<open>An atomic step and what follows it. What was read may be out of date when the rest runs, but the
  rest is judged at the state of the reading, and soundness outlives the steps of others.\<close>

lemma sound_atom_andthen:
  fixes f :: "'a \<Rightarrow> ('s, 'b) act"
  assumes "\<And>t. rely s t \<Longrightarrow> guar t (snd (h t))" and "\<And>t. rely s t \<Longrightarrow> sound rely guar good answers Q (f (fst (h t))) (snd (h t))"
  shows "sound rely guar good answers Q (andthen (atom h) f) s"
  unfolding atom_def andthen.simps
proof (rule sound.sound_Step)
  fix t u and p :: "('s, 'b) act"
  assume t: "rely s t" "map_option (map_prod (\<lambda>p. andthen p f) id) (Some (map_prod Done id (h t))) = Some (p, u)"
  then have p: "p = f (fst (h t))" "u = snd (h t)" by (auto simp: map_prod_def split: prod.splits)
  show "guar t u" "sound rely guar good answers Q p u" using assms t(1) by (simp_all add: p)
qed

lemma sound_look_andthen:
  assumes "\<And>t. rely s t \<Longrightarrow> guar t t" and "\<And>t. rely s t \<Longrightarrow> sound rely guar good answers Q (f (g t)) t"
  shows "sound rely guar good answers Q (andthen (look g) f) s"
  unfolding look_def by (rule sound_atom_andthen) (simp_all add: assms)

lemma sound_change_andthen:
  assumes "\<And>t. rely s t \<Longrightarrow> guar t (h t)" and "\<And>t. rely s t \<Longrightarrow> sound rely guar good answers Q (f ()) (h t)"
  shows "sound rely guar good answers Q (andthen (change h) f) s"
  unfolding change_def by (rule sound_atom_andthen) (simp_all add: assms)

lemma sound_partial_andthen:
  assumes "\<And>t a u. rely s t \<Longrightarrow> h t = Some (a, u) \<Longrightarrow> guar t u"
    and "\<And>t a u. rely s t \<Longrightarrow> h t = Some (a, u) \<Longrightarrow> sound rely guar good answers Q (f a) u"
  shows "sound rely guar good answers Q (andthen (partial h) f) s"
  unfolding partial_def andthen.simps by (rule sound.sound_Step) (auto intro: assms)

section \<open>Tame programs\<close>

text \<open>A program all of whose steps, taken where \<open>I\<close> holds, stay in \<open>R\<close>, whose requests satisfy \<open>ask\<close>
  and whose value satisfies \<open>P\<close>, whatever state it runs in; with \<open>blocks\<close> a step may not return.\<close>

inductive tame ::
    "bool \<Rightarrow> ('s \<Rightarrow> bool) \<Rightarrow> ('s \<Rightarrow> 's \<Rightarrow> bool) \<Rightarrow> (bytes \<Rightarrow> bool) \<Rightarrow> (bytes \<Rightarrow> exn + bytes \<Rightarrow> bool) \<Rightarrow> ('a \<Rightarrow> bool) \<Rightarrow> ('s, 'a) act \<Rightarrow> bool"
  for blocks I R ask answers P where
  tame_Done: "P a \<Longrightarrow> tame blocks I R ask answers P (Done a)"
| tame_Step: "(\<And>s p u. I s \<Longrightarrow> g s = Some (p, u) \<Longrightarrow> R s u) \<Longrightarrow>
    (\<And>s p u. I s \<Longrightarrow> g s = Some (p, u) \<Longrightarrow> tame blocks I R ask answers P p) \<Longrightarrow>
    (\<And>s. I s \<Longrightarrow> g s = None \<Longrightarrow> blocks) \<Longrightarrow> tame blocks I R ask answers P (Step g)"
| tame_Exchange: "ask q \<Longrightarrow> (\<And>r. answers q r \<Longrightarrow> tame blocks I R ask answers P (k r)) \<Longrightarrow> tame blocks I R ask answers P (Exchange q k)"

lemma tame_andthen:
  assumes "tame blocks I R ask answers P p" and "\<And>a. P a \<Longrightarrow> tame blocks I R ask answers Q (f a)"
  shows "tame blocks I R ask answers Q (andthen p f)"
  using assms(1)
proof (induction rule: tame.induct)
  case (tame_Step g)
  show ?case unfolding andthen.simps by (rule tame.tame_Step; clarsimp) (blast intro: tame_Step)+
next
  case (tame_Exchange q k)
  then show ?case unfolding andthen.simps by (intro tame.tame_Exchange)
qed (simp add: assms(2))

lemma tame_mono:
  assumes "tame b I R ask answers P p" and "\<And>s t. I s \<Longrightarrow> R s t \<Longrightarrow> R' s t" and "\<And>a. P a \<Longrightarrow> P' a"
  shows "tame b I R' ask answers P' p"
  using assms(1)
proof (induction rule: tame.induct)
  case (tame_Step g)
  show ?case by (rule tame.tame_Step) (blast intro: tame_Step assms(2))+
qed (auto intro: tame.intros assms(3))

lemma tame_atom:
  fixes h :: "'s \<Rightarrow> 'a \<times> 's"
  assumes "\<And>s. I s \<Longrightarrow> R s (snd (h s))" and "\<And>s. I s \<Longrightarrow> P (fst (h s))"
  shows "tame b I R ask answers P (atom h)"
  unfolding atom_def
proof (rule tame_Step)
  fix s u and p :: "('s, 'a) act"
  assume s: "I s" "Some (map_prod Done id (h s)) = Some (p, u)"
  then have p: "p = Done (fst (h s))" "u = snd (h s)" by (cases "h s"; simp)+
  show "R s u" "tame b I R ask answers P p" using assms s(1) by (simp_all add: p tame_Done)
qed simp

lemma tame_look: "(\<And>s. I s \<Longrightarrow> R s s) \<Longrightarrow> (\<And>s. I s \<Longrightarrow> P (g s)) \<Longrightarrow> tame b I R ask answers P (look g)"
  unfolding look_def by (rule tame_atom) simp_all

lemma tame_change: "(\<And>s. I s \<Longrightarrow> R s (h s)) \<Longrightarrow> P () \<Longrightarrow> tame b I R ask answers P (change h)"
  unfolding change_def by (rule tame_atom) simp_all

lemma tame_partial:
  "(\<And>s a u. I s \<Longrightarrow> h s = Some (a, u) \<Longrightarrow> R s u) \<Longrightarrow> (\<And>s a u. I s \<Longrightarrow> h s = Some (a, u) \<Longrightarrow> P a) \<Longrightarrow> b \<Longrightarrow>
   tame b I R ask answers P (partial h)"
  unfolding partial_def by (auto intro!: tame.intros)

lemma tame_unless_thrown:
  assumes "tame b I R ask answers P p" and "\<And>e. P (Inl e) \<Longrightarrow> Q (Inl e)" and "\<And>a. P (Inr a) \<Longrightarrow> tame b I R ask answers Q (f a)"
  shows "tame b I R ask answers Q (unless_thrown p f)"
  unfolding unless_thrown_def by (rule tame_andthen [OF assms(1)]) (auto intro: tame_Done assms(2,3) split: sum.split)

lemma tame_atom_then:
  "(\<And>s. I s \<Longrightarrow> R s (snd (h s))) \<Longrightarrow> (\<And>s. I s \<Longrightarrow> tame b I R ask answers Q (f (fst (h s)))) \<Longrightarrow>
   tame b I R ask answers Q (andthen (atom h) f)"
  by (rule tame_andthen [where P = "\<lambda>a. \<exists>s. I s \<and> a = fst (h s)"]) (auto intro: tame_atom)

lemma tame_look_then:
  "(\<And>s. I s \<Longrightarrow> R s s) \<Longrightarrow> (\<And>s. I s \<Longrightarrow> tame b I R ask answers Q (f (g s))) \<Longrightarrow> tame b I R ask answers Q (andthen (look g) f)"
  unfolding look_def by (rule tame_atom_then) simp_all

lemma tame_change_then:
  "(\<And>s. I s \<Longrightarrow> R s (h s)) \<Longrightarrow> tame b I R ask answers Q (f ()) \<Longrightarrow> tame b I R ask answers Q (andthen (change h) f)"
  unfolding change_def by (rule tame_atom_then) simp_all

lemma tame_partial_then:
  "(\<And>s a u. I s \<Longrightarrow> h s = Some (a, u) \<Longrightarrow> R s u) \<Longrightarrow> (\<And>a. tame b I R ask answers Q (f a)) \<Longrightarrow> b \<Longrightarrow>
   tame b I R ask answers Q (andthen (partial h) f)"
  by (rule tame_andthen [where P = "\<lambda>a. True"]) (auto intro: tame_partial)

section \<open>Rules\<close>

locale rely_guarantee =
  fixes rely :: "'s \<Rightarrow> 's \<Rightarrow> bool"
    and guar :: "'s \<Rightarrow> 's \<Rightarrow> bool"
    and good :: "'s \<Rightarrow> bytes \<Rightarrow> bool"
    and answers :: "bytes \<Rightarrow> exn + bytes \<Rightarrow> bool"
  assumes rely_trans: "rely s t \<Longrightarrow> rely t u \<Longrightarrow> rely s u"
    and rely_now: "rely s t \<Longrightarrow> rely t t"
    and guar_now: "guar s t \<Longrightarrow> rely t t"
begin

text \<open>Other threads may run first.\<close>

lemma sound_later:
  assumes "sound rely guar good answers Q p s" and "rely s t"
  shows "sound rely guar good answers Q p t"
  using assms(1)
proof cases
  case (sound_Done a)
  show ?thesis unfolding sound_Done(1) by (rule sound.sound_Done) (blast intro: sound_Done(2) rely_trans [OF assms(2)])
next
  case (sound_Step g)
  show ?thesis
    unfolding sound_Step(1) by (rule sound.sound_Step) (blast intro: sound_Step(2,3) rely_trans [OF assms(2)])+
next
  case (sound_Exchange q k)
  show ?thesis
    unfolding sound_Exchange(1) by (rule sound.sound_Exchange) (blast intro: sound_Exchange(2,3) rely_trans [OF assms(2)])+
qed

text \<open>One program after another: what the second needs is what the first ends with.\<close>

lemma sound_consecutive:
  assumes "sound rely guar good answers R p s" and "rely s s" and "\<And>a t. R a t \<Longrightarrow> rely t t \<Longrightarrow> sound rely guar good answers Q (f a) t"
  shows "sound rely guar good answers Q (andthen p f) s"
  using assms(1,2)
proof (induction rule: sound.induct)
  case (sound_Step s g)
  show ?case
    unfolding andthen.simps
    by (rule sound.sound_Step; clarsimp) (blast intro: sound_Step.hyps(1) sound_Step.IH guar_now)+
next
  case (sound_Exchange s q k)
  show ?case
    unfolding andthen.simps
    by (rule sound.sound_Exchange) (blast intro: sound_Exchange.hyps(1) sound_Exchange.IH rely_now)+
qed (simp add: assms(3))

text \<open>A tame program is sound, when its steps keep what the threads promise.\<close>

lemma sound_tame:
  assumes "tame blocks I R ask answers P p"
    and "\<And>s t. rely s t \<Longrightarrow> I t" and "\<And>s t. I s \<Longrightarrow> R s t \<Longrightarrow> guar s t" and "\<And>t q. rely t t \<Longrightarrow> ask q \<Longrightarrow> good t q"
  shows "sound rely guar good answers (\<lambda>a t. P a) p s"
  using assms(1)
proof (induction arbitrary: s rule: tame.induct)
  case (tame_Step g)
  show ?case by (rule sound.sound_Step) (blast intro: assms(2,3) tame_Step)+
next
  case (tame_Exchange q k)
  show ?case by (rule sound.sound_Exchange) (blast intro: assms(4) rely_now tame_Exchange)+
qed (simp add: sound.sound_Done)

end

locale interference =
  fixes later :: "'s \<Rightarrow> 's \<Rightarrow> bool"
    and good :: "'s \<Rightarrow> bytes \<Rightarrow> bool"
    and answers :: "bytes \<Rightarrow> exn + bytes \<Rightarrow> bool"
  assumes later_trans: "later s t \<Longrightarrow> later t u \<Longrightarrow> later s u"
    and later_refl: "later s t \<Longrightarrow> later t t"

sublocale interference \<subseteq> rely_guarantee later later good answers
  by unfold_locales (blast intro: later_trans later_refl)+

context interference
begin

lemma sound_andthen:
  assumes "sound later later good answers R p s" and "later s s"
    and "\<And>a t. later s t \<Longrightarrow> R a t \<Longrightarrow> sound later later good answers Q (f a) t"
  shows "sound later later good answers Q (andthen p f) s"
  using assms
proof (induction rule: sound.induct)
  case (sound_Done s a)
  then show ?case by simp
next
  case (sound_Step s g)
  show ?case
    unfolding andthen.simps
  proof (rule sound.sound_Step; clarsimp)
    fix t p u assume t: "later s t" "g t = Some (p, u)"
    show u: "later t u" by (rule sound_Step.hyps(1) [OF t])
    show "sound later later good answers Q (andthen p f) u"
      by (rule sound_Step.IH [OF t later_refl [OF u]]) (blast intro: sound_Step.prems(2) later_trans [OF later_trans [OF t(1) u]])
  qed
next
  case (sound_Exchange s q k)
  show ?case
    unfolding andthen.simps
  proof (rule sound.sound_Exchange)
    fix t r assume t: "later s t" "answers q r"
    show "sound later later good answers Q (andthen (k r) f) t"
      by (rule sound_Exchange.IH [OF t later_refl [OF t(1)]]) (blast intro: sound_Exchange.prems(2) later_trans [OF t(1)])
  qed (rule sound_Exchange.hyps(1))
qed

lemma sound_then:
  assumes "sound later later good answers (\<lambda>a t. True) p s" and "later s s" and "\<And>a t. later s t \<Longrightarrow> sound later later good answers Q (f a) t"
  shows "sound later later good answers Q (andthen p f) s"
  using assms(1,2) by (rule sound_andthen) (rule assms(3))

lemma sound_weaken:
  assumes "sound later later good answers R p s" and "\<And>a t. later s t \<Longrightarrow> R a t \<Longrightarrow> Q a t"
  shows "sound later later good answers Q p s"
  using assms
proof (induction rule: sound.induct)
  case (sound_Step s g)
  show ?case
  proof (rule sound.sound_Step)
    fix t p u assume t: "later s t" "g t = Some (p, u)"
    show "later t u" by (rule sound_Step.hyps(1) [OF t])
    from later_trans [OF t(1) this] show "sound later later good answers Q p u"
      by (intro sound_Step.IH [OF t] sound_Step.prems(1)) (blast intro: later_trans)
  qed
next
  case (sound_Exchange s q k)
  show ?case
  proof (rule sound.sound_Exchange)
    fix t r assume t: "later s t" "answers q r"
    show "sound later later good answers Q (k r) t"
      by (intro sound_Exchange.IH [OF t] sound_Exchange.prems(1)) (blast intro: later_trans [OF t(1)])
  qed (rule sound_Exchange.hyps(1))
qed (auto intro: sound.intros)

lemma sound_atom:
  fixes f :: "'s \<Rightarrow> 'x \<times> 's"
  assumes "\<And>t. later s t \<Longrightarrow> later t (snd (f t))" and "\<And>t v. later s t \<Longrightarrow> later (snd (f t)) v \<Longrightarrow> Q (fst (f t)) v"
  shows "sound later later good answers Q (atom f) s"
  unfolding atom_def
proof (rule sound.sound_Step)
  fix t u and p :: "('s, 'x) act"
  assume t: "later s t" "Some (map_prod Done id (f t)) = Some (p, u)"
  then have p: "p = Done (fst (f t))" "u = snd (f t)" by (simp_all add: map_prod_def split: prod.splits)
  show "later t u" using assms(1) [OF t(1)] by (simp add: p)
  show "sound later later good answers Q p u" unfolding p by (rule sound.sound_Done) (rule assms(2) [OF t(1)])
qed

lemma sound_look: "(\<And>t v. later s t \<Longrightarrow> later t v \<Longrightarrow> Q (g t) v) \<Longrightarrow> sound later later good answers Q (look g) s"
  unfolding look_def by (rule sound_atom) (auto intro: later_refl)

lemma sound_change:
  "(\<And>t. later s t \<Longrightarrow> later t (h t)) \<Longrightarrow> (\<And>t. later s t \<Longrightarrow> Q () t) \<Longrightarrow> sound later later good answers Q (change h) s"
  unfolding change_def by (rule sound_atom) (simp_all, blast intro: later_trans)

lemma sound_partial:
  assumes "\<And>t a u. later s t \<Longrightarrow> g t = Some (a, u) \<Longrightarrow> later t u"
    and "\<And>t a u v. later s t \<Longrightarrow> g t = Some (a, u) \<Longrightarrow> later u v \<Longrightarrow> Q a v"
  shows "sound later later good answers Q (partial g) s"
  unfolding partial_def using assms by (auto intro!: sound.intros)

lemma sound_unless_thrown:
  assumes "sound later later good answers (\<lambda>r t. case r of Inl e \<Rightarrow> Q (Inl e) t | Inr a \<Rightarrow> R a t) p s" and "later s s"
    and "\<And>a t. later s t \<Longrightarrow> R a t \<Longrightarrow> sound later later good answers Q (f a) t"
    and "\<And>e t v. Q (Inl e) t \<Longrightarrow> later t v \<Longrightarrow> Q (Inl e) v"
  shows "sound later later good answers Q (unless_thrown p f) s"
  unfolding unless_thrown_def
  by (rule sound_andthen [OF assms(1,2)]) (auto split: sum.splits intro: assms(3) sound.sound_Done assms(4))

end

end
