(* ===== verification/Client_Atoms.thy ===== *)
theory Client_Atoms
  imports Client_Main Act_Logic
begin

text \<open>
  The client's two threads at the granularity at which they can be interleaved: a call of a method
  of the context (which holds the mutex of the cache, or reads or writes one field), one insertion
  into \<^verbatim>\<open>std::cout\<close>, a prompt, a draw of random bytes, the saving of \<^verbatim>\<open>my.info.txt\<close>, and an exchange
  on the connection (which holds its mutex). The programs are those of \<^verbatim>\<open>ClientActions.cpp\<close>,
  \<^verbatim>\<open>ResponseClient.cpp\<close>, \<^verbatim>\<open>Main.cpp\<close> and \<^verbatim>\<open>PullRequests.cpp\<close>, named after the functions; between two
  steps of one thread the other may run. \<open>Client_Alone\<close> shows that a program that is not interrupted is the
  function of \<open>Client_Actions\<close>, \<open>Client_Response\<close> or \<open>Client_Main\<close>.
\<close>

type_synonym 'a client_act = "(client_world, 'a) act"

section \<open>Console\<close>

text \<open>\<^verbatim>\<open>std::cout << a << b << c\<close>: each insertion is a step.\<close>

primrec Prints :: "bytes list \<Rightarrow> 'a \<Rightarrow> 'a client_act" where
  "Prints [] a = Done a"
| "Prints (b # bs) a = andthen (change (say b)) (\<lambda>_. Prints bs a)"

definition GetValidUsername :: "bytes \<Rightarrow> bytes client_act" where
  "GetValidUsername prompt = partial (getValidUsername prompt)"

section \<open>Actions\<close>

definition HandleSendText :: "('sk, 'pk) crypto \<Rightarrow> bytes \<Rightarrow> (exn + bytes) client_act" where
  "HandleSendText cr otherClientID =
     andthen (Prints [lit ''Enter your message (empty line to finish):'' @ nl] ()) (\<lambda>_.
     andthen (atom (\<lambda>w. case text_lines [] (cin w) of (msg, rest) \<Rightarrow> (msg, w\<lparr>cin := rest\<rparr>))) (\<lambda>msg.
     if msg = [] then Prints [lit ''Empty message. Cancelled.'' @ nl] (Inr [])
     else andthen (look (\<lambda>w. tryGetFriendCopy (ctx w) otherClientID)) (\<lambda>frOpt.
     case frOpt of
       None \<Rightarrow> Prints [lit ''User not found. Please request clients list (120) first.'' @ nl] (Inr [])
     | Some fr \<Rightarrow>
         (case symmetricKey fr of
            None \<Rightarrow> Prints [lit ''No symmetric key for this user. Please use 152 first.'' @ nl] (Inr [])
          | Some key16 \<Rightarrow>
              (case AESWrapper_key key16 AES_DEFAULT_KEYLENGTH of Inl e \<Rightarrow> Done (Inl e) | Inr aes \<Rightarrow>
               Done (Inr (aes_encrypt cr aes (take (unat (of_nat (length msg) :: u32)) msg))))))))"

definition HandleSendSymmetricKey :: "('sk, 'pk) crypto \<Rightarrow> bytes \<Rightarrow> (exn + bytes) client_act" where
  "HandleSendSymmetricKey cr otherClientID =
     andthen (look (\<lambda>w. tryGetFriendCopy (ctx w) otherClientID)) (\<lambda>frOpt.
     case Option.bind frOpt publicKey of
       None \<Rightarrow> Prints [lit ''No public key for this user. Use 130 first.'' @ nl] (Inr [])
     | Some pubKey \<Rightarrow>
         andthen (atom (\<lambda>w. (AESWrapper_random cr (rng w) (replicate 16 0), w\<lparr>rng := rng w + AES_DRAWS\<rparr>))) (\<lambda>symKey.
         andthen (change (upd_ctx (setFriendSymmetricKey otherClientID symKey))) (\<lambda>_.
         case RSAPublicWrapper_load cr pubKey RSA_KEYSIZE of Inl e \<Rightarrow> Done (Inl e) | Inr pub \<Rightarrow>
         atom (\<lambda>w. (RSAPublicWrapper_encrypt cr (rng w) pub symKey SYMMETRIC_KEY_SIZE, w\<lparr>rng := rng w + 1\<rparr>)))))"

definition HandleRegister :: "('sk, 'pk) crypto \<Rightarrow> (exn + bytes) client_act" where
  "HandleRegister cr =
     andthen (look (\<lambda>w. hasClientID (ctx w))) (\<lambda>registered.
     if registered then Prints [lit ''You are already logged in.'' @ nl] (Inr [])
     else andthen (GetValidUsername (lit ''Please enter your username: '')) (\<lambda>nm.
     andthen (change (upd_ctx (setName nm))) (\<lambda>_.
     let n = min (length nm) (NAME_SIZE - 1);
         nameField = take n nm @ drop n (replicate NAME_SIZE 0);
         nameField = nameField[length nm := 0]
     in andthen (atom (\<lambda>w. (RSAPrivateWrapper_generate cr (rng w), w\<lparr>rng := rng w + 1\<rparr>))) (\<lambda>rsaKeys.
     andthen (change (upd_ctx (setPrivateKey (RSAPrivateWrapper_getPrivateKey cr rsaKeys)))) (\<lambda>_.
     let pubKey = RSAPrivateWrapper_getPublicKey cr rsaKeys (replicate RSA_KEYSIZE 0) RSA_KEYSIZE
     in look (\<lambda>w. Inr (createBuffer (Message_payload (clientID (ctx w)) Code_REQUEST_REGISTER (nameField @ pubKey)))))))))"

definition HandleClientList :: "bytes client_act" where
  "HandleClientList = look (\<lambda>w. createBuffer (Message_no_payload (clientID (ctx w)) Code_REQUEST_CLIENTS_LIST))"

definition HandlePublicKey :: "(exn + bytes) client_act" where
  "HandlePublicKey =
     andthen (GetValidUsername target_prompt) (\<lambda>targetName.
     if targetName = lit ''0'' then Done (Inr [])
     else andthen (look (\<lambda>w. tryGetFriendIdByName (ctx w) targetName)) (\<lambda>idOpt.
     case idOpt of
       None \<Rightarrow> Prints [lit ''User not found in cache. Please request clients list (120) first.'' @ nl] (Inr [])
     | Some fid \<Rightarrow> look (\<lambda>w. Inr (createBuffer (Message_payload (clientID (ctx w)) Code_REQUEST_PUBLIC_KEY fid)))))"

definition HandleWaitingMessages :: "bytes client_act" where
  "HandleWaitingMessages = look (\<lambda>w. createBuffer (Message_no_payload (clientID (ctx w)) Code_REQUEST_WAITING_MESSAGES))"

text \<open>The content of a message, then the request around it; an empty content is not sent.\<close>

definition SendContent :: "bytes \<Rightarrow> byte \<Rightarrow> (exn + bytes) client_act \<Rightarrow> (exn + bytes) client_act" where
  "SendContent otherClientID msgType content =
     unless_thrown content (\<lambda>msgContent.
       if msgContent = [] then Done (Inr []) else look (\<lambda>w. Inr (message_request w otherClientID (Some msgType) msgContent)))"

definition HandleAllMessages :: "('sk, 'pk) crypto \<Rightarrow> u16 \<Rightarrow> (exn + bytes) client_act" where
  "HandleAllMessages cr code =
     andthen (GetValidUsername target_prompt) (\<lambda>targetName.
     if targetName = lit ''0'' then Done (Inr [])
     else andthen (look (\<lambda>w. tryGetFriendIdByName (ctx w) targetName)) (\<lambda>idOpt.
     case idOpt of
       None \<Rightarrow> Prints [lit ''User not found. Please request clients list (120) first.'' @ nl] (Inr [])
     | Some otherClientID \<Rightarrow>
         if code = Code_SEND_TEXT then SendContent otherClientID MsgType_SEND_TEXT (HandleSendText cr otherClientID)
         else if code = Code_REQUEST_SYMMETRIC_KEY
         then look (\<lambda>w. Inr (message_request w otherClientID (Some MsgType_REQUEST_SYMMETRIC_KEY) []))
         else if code = Code_SEND_SYMMETRIC_KEY
         then SendContent otherClientID MsgType_SEND_SYMMETRIC_KEY (HandleSendSymmetricKey cr otherClientID)
         else look (\<lambda>w. Inr (message_request w otherClientID None []))))"

definition HandleMenuChoice :: "('sk, 'pk) crypto \<Rightarrow> u16 \<Rightarrow> (exn + bytes) client_act" where
  "HandleMenuChoice cr code =
     (if code = Code_REGISTER then HandleRegister cr
      else if code = Code_CLIENTS_LIST then andthen HandleClientList (\<lambda>data. Done (Inr data))
      else if code = Code_PUBLIC_KEY then HandlePublicKey
      else if code = Code_WAITING_MESSAGES then andthen HandleWaitingMessages (\<lambda>data. Done (Inr data))
      else if code \<in> {Code_SEND_TEXT, Code_REQUEST_SYMMETRIC_KEY, Code_SEND_SYMMETRIC_KEY} then HandleAllMessages cr code
      else Done (Inr []))"

section \<open>Responses\<close>

definition ResponseRegister :: "('sk, 'pk) crypto \<Rightarrow> bytes \<Rightarrow> (exn + unit) client_act" where
  "ResponseRegister cr data =
     (case readClientID data HEADER_SIZE of Inl e \<Rightarrow> Done (Inl e) | Inr cid \<Rightarrow>
      andthen (change (upd_ctx (setClientID cid))) (\<lambda>_.
      unless_thrown (atom (saveMyInfo cr)) (\<lambda>_.
      andthen (Prints [lit ''----- Client Context -----'' @ nl, lit ''Name: ''] ()) (\<lambda>_.
      andthen (look (\<lambda>w. userName (ctx w))) (\<lambda>nm.
      andthen (Prints [nm, nl, lit ''Client ID: ''] ()) (\<lambda>_.
      andthen (look (\<lambda>w. clientID (ctx w))) (\<lambda>cid.
      Prints [show_hex_bytes cid, nl] (Inr ()))))))))"

function ClientList_loop :: "bytes \<Rightarrow> nat \<Rightarrow> (exn + unit) client_act" where
  "ClientList_loop data offset =
     (if offset < length data
      then case readClientID data offset of Inl e \<Rightarrow> Done (Inl e) | Inr cid \<Rightarrow>
           let nm = takeWhile (\<lambda>c. c \<noteq> 0) (bslice (offset + CLIENT_ID_SIZE) NAME_SIZE data)
           in andthen (Prints [nm, lit '' : '', bytesToHex cid, nl] ()) (\<lambda>_.
              andthen (change (upd_ctx (setFriendBase cid nm))) (\<lambda>_.
              ClientList_loop data (offset + CLIENT_ENTRY_SIZE)))
      else Done (Inr ()))"
  by pat_completeness auto
termination
  by (relation "measure (\<lambda>(data, offset). length data - offset)") auto

declare ClientList_loop.simps [simp del]

definition ResponseClientList :: "bytes \<Rightarrow> (exn + unit) client_act" where
  "ResponseClientList data =
     (let payloadSize = length data - HEADER_SIZE in
      if payloadSize mod (CLIENT_ID_SIZE + NAME_SIZE) \<noteq> 0
      then Done (Inl (Runtime_error ''responseClientList: invalid payload size for 2101''))
      else ClientList_loop data HEADER_SIZE)"

text \<open>\<^verbatim>\<open>if (!ctx.tryGetFriendCopy(id)) ctx.setFriendBase(id, "")\<close>: the check and the entry are two calls.\<close>

definition Known :: "bytes \<Rightarrow> unit client_act" where
  "Known cid =
     andthen (look (\<lambda>w. tryGetFriendCopy (ctx w) cid)) (\<lambda>frOpt.
     if frOpt = None then change (upd_ctx (setFriendBase cid [])) else Done ())"

definition ResponsePublicKey :: "('sk, 'pk) crypto \<Rightarrow> bytes \<Rightarrow> (exn + unit) client_act" where
  "ResponsePublicKey cr data =
     (if length data < HEADER_SIZE + CLIENT_ID_SIZE + PUBLIC_KEY_SIZE
      then Done (Inl (Runtime_error ''responsePublicKey: response too small''))
      else case readClientID data HEADER_SIZE of Inl e \<Rightarrow> Done (Inl e) | Inr cid \<Rightarrow>
        let pubKey = bslice (HEADER_SIZE + CLIENT_ID_SIZE) PUBLIC_KEY_SIZE data
        in andthen (Known cid) (\<lambda>_.
           andthen (change (upd_ctx (setFriendPublicKey cid pubKey))) (\<lambda>_.
           Prints [lit ''Received public key for '', bytesToHex cid, nl, lit ''Public Key (Base64):'' @ nl,
                   Base64Wrapper_encode cr pubKey, nl] (Inr ()))))"

definition ResponseMessageSent :: "bytes \<Rightarrow> (exn + unit) client_act" where
  "ResponseMessageSent data =
     (if length data < HEADER_SIZE + CLIENT_ID_SIZE + MSG_ID_SIZE
      then Done (Inl (Runtime_error ''responseMessageSent: response too small''))
      else case readClientID data HEADER_SIZE of Inl e \<Rightarrow> Done (Inl e) | Inr cid \<Rightarrow>
      andthen (look (\<lambda>w. tryGetFriendCopy (ctx w) cid)) (\<lambda>targetOpt.
      case targetOpt of
        None \<Rightarrow> Done (Inl (Logic_error ''responseMessageSent: friend not found in cache''))
      | Some target \<Rightarrow>
          (case readUint32LE data (HEADER_SIZE + CLIENT_ID_SIZE) of Inl e \<Rightarrow> Done (Inl e) | Inr msgID \<Rightarrow>
           Prints [lit ''Your message has been sent to '', friendName target, lit '' and assigned '',
                   show_dec (unat msgID), lit '' message ID.'' @ nl] (Inr ()))))"

definition HandleSymmetricKeyMessage ::
    "('sk, 'pk) crypto \<Rightarrow> 'sk \<Rightarrow> bytes \<Rightarrow> bytes \<Rightarrow> unit client_act" where
  "HandleSymmetricKeyMessage cr rsaPriv fromId enc =
     (case RSAPrivateWrapper_decrypt cr rsaPriv enc of
        Inl _ \<Rightarrow> Prints [cant_decrypt] ()
      | Inr symKeyBin \<Rightarrow>
          if length symKeyBin \<noteq> SYMMETRIC_KEY_SIZE then Prints [cant_decrypt] ()
          else andthen (Known fromId) (\<lambda>_.
               andthen (change (upd_ctx (setFriendSymmetricKey fromId symKeyBin))) (\<lambda>_.
               Prints [lit ''symmetric key received'' @ nl] ())))"

definition HandleTextMessage :: "('sk, 'pk) crypto \<Rightarrow> bytes \<Rightarrow> bytes \<Rightarrow> unit client_act" where
  "HandleTextMessage cr fromId enc =
     andthen (look (\<lambda>w. tryGetFriendCopy (ctx w) fromId)) (\<lambda>frOpt.
     case Option.bind frOpt symmetricKey of
       None \<Rightarrow> Prints [cant_decrypt] ()
     | Some keyArr \<Rightarrow>
         (case AESWrapper_key keyArr SYMMETRIC_KEY_SIZE of Inl _ \<Rightarrow> Prints [cant_decrypt] () | Inr aes \<Rightarrow>
          case aes_decrypt cr aes enc of Inl _ \<Rightarrow> Prints [cant_decrypt] () | Inr txt \<Rightarrow> Prints [txt, nl] ()))"

definition ShowRecord :: "('sk, 'pk) crypto \<Rightarrow> 'sk \<Rightarrow> bytes \<Rightarrow> byte \<Rightarrow> bytes \<Rightarrow> unit client_act" where
  "ShowRecord cr rsaPriv fromId msgType content =
     andthen (look (\<lambda>w. displayName (ctx w) fromId)) (\<lambda>fromName.
     andthen (Prints [lit ''From: '', fromName, nl, lit ''Content:'' @ nl] ()) (\<lambda>_.
     andthen (if msgType = MsgType_REQUEST_SYMMETRIC_KEY then Prints [lit ''Request for symmetric key'' @ nl] ()
              else if msgType = MsgType_SEND_SYMMETRIC_KEY then HandleSymmetricKeyMessage cr rsaPriv fromId content
              else if msgType = MsgType_SEND_TEXT then HandleTextMessage cr fromId content
              else Prints [lit ''[Unsupported message type: '', show_dec (unat msgType), lit '']'' @ nl] ()) (\<lambda>_.
     Prints [lit ''-----<EOM>-----'' @ nl @ nl] ())))"

function WaitingMessages_loop :: "('sk, 'pk) crypto \<Rightarrow> 'sk \<Rightarrow> bytes \<Rightarrow> nat \<Rightarrow> (exn + unit) client_act" where
  "WaitingMessages_loop cr rsaPriv data offset =
     (if offset < length data
      then if length data < offset + RECORD_MIN
           then Done (Inl (Runtime_error ''responseWaitingMessages: truncated record header''))
           else case readClientID data offset of Inl e \<Rightarrow> Done (Inl e) | Inr fromId \<Rightarrow>
             let offset1 = offset + CLIENT_ID_SIZE + MSG_ID_SIZE;
                 msgType = data ! offset1;
                 offset2 = offset1 + TYPE_SIZE
             in case readUint32LE data offset2 of Inl e \<Rightarrow> Done (Inl e) | Inr msgSize \<Rightarrow>
             let offset3 = offset2 + MSG_SIZE
             in if length data < offset3 + unat msgSize
                then Done (Inl (Runtime_error ''responseWaitingMessages: truncated message content''))
                else andthen (ShowRecord cr rsaPriv fromId msgType (bslice offset3 (unat msgSize) data)) (\<lambda>_.
                     WaitingMessages_loop cr rsaPriv data (offset3 + unat msgSize))
      else Done (Inr ()))"
  by pat_completeness auto
termination
  by (relation "measure (\<lambda>(cr, sk, data, offset). length data - offset)") auto

declare WaitingMessages_loop.simps [simp del]

definition ResponseWaitingMessages :: "('sk, 'pk) crypto \<Rightarrow> bytes \<Rightarrow> (exn + unit) client_act" where
  "ResponseWaitingMessages cr data =
     (if length data = HEADER_SIZE then Prints [lit ''No waiting messages.'' @ nl] (Inr ())
      else andthen (look (\<lambda>w. privateKey (ctx w))) (\<lambda>privKey.
           case RSAPrivateWrapper_load cr privKey of Inl e \<Rightarrow> Done (Inl e) | Inr rsaPriv \<Rightarrow>
           WaitingMessages_loop cr rsaPriv data HEADER_SIZE))"

definition ResponseClientMain :: "('sk, 'pk) crypto \<Rightarrow> bytes \<Rightarrow> (exn + unit) client_act" where
  "ResponseClientMain cr data =
     (if length data < HEADER_SIZE then Done (Inl (Runtime_error ''responseClientMain: response too small''))
      else let code = responseCode data in
        if code = Code_RESPONSE_REGISTER then ResponseRegister cr data
        else if code = Code_RESPONSE_CLIENT_LIST then ResponseClientList data
        else if code = Code_RESPONSE_PUBLIC_KEY then ResponsePublicKey cr data
        else if code = Code_RESPONSE_MESSAGE_SENT then ResponseMessageSent data
        else if code = Code_RESPONSE_WAITING_MESSAGES then ResponseWaitingMessages cr data
        else if code = Code_ERROR_GENERAL then Prints [lit ''server responded with an error'' @ nl] (Inr ())
        else Prints [lit ''Unknown response code: '', show_dec (unat code), nl] (Inr ()))"

section \<open>The threads\<close>

text \<open>A turn of the main thread ends in one of its stages.\<close>

datatype stage = Acting | Exchanging | Handling

definition Main_turn :: "('sk, 'pk) crypto \<Rightarrow> (stage \<times> turn) client_act" where
  "Main_turn cr =
     andthen (partial clientMenuMain) (\<lambda>input.
     if input = Code_EXIT then Prints [lit ''Exiting client...'' @ nl] (Acting, Exit)
     else andthen (HandleMenuChoice cr input) (\<lambda>r.
     case r of
       Inl e \<Rightarrow> Done (Acting, Throw e)
     | Inr data \<Rightarrow>
         if data = [] then Done (Acting, Again)
         else Exchange data (\<lambda>r. case r of
           Inl e \<Rightarrow> Done (Exchanging, Throw e)
         | Inr buffer \<Rightarrow>
             andthen (ResponseClientMain cr buffer) (\<lambda>r.
             Done (Handling, case r of Inl e \<Rightarrow> Throw e | Inr _ \<Rightarrow> Again)))))"

text \<open>A round of the pull thread; its value is the exception that \<^verbatim>\<open>catch (...)\<close> swallows.\<close>

definition Pull_round :: "('sk, 'pk) crypto \<Rightarrow> (stage \<times> (exn + unit)) client_act" where
  "Pull_round cr =
     andthen (look (\<lambda>w. hasClientID (ctx w))) (\<lambda>registered.
     if \<not> registered then Done (Acting, Inr ())
     else andthen (look (\<lambda>w. createBuffer (Message_no_payload (clientID (ctx w)) Code_REQUEST_WAITING_MESSAGES))) (\<lambda>data.
     Exchange data (\<lambda>r. case r of
       Inl e \<Rightarrow> Done (Exchanging, Inl e)
     | Inr buffer \<Rightarrow>
         andthen (Prints [lit ''Pulling waiting messages automatically:'' @ nl] ()) (\<lambda>_.
         andthen (ResponseClientMain cr buffer) (\<lambda>r. Done (Handling, r))))))"

end
