(* ===== verification/Client_Alone.thy ===== *)
theory Client_Alone
  imports Client_Atoms
begin

text \<open>
  A program of \<open>Client_Atoms\<close> that no other thread interrupts computes the function of the same
  name: from the console and the actions over the responses to a turn of the main thread and a
  round of the pull thread.
\<close>

named_theorems alone_simps

declare alone_andthen [alone_simps] and alone_unless_thrown [alone_simps]

lemma say_say [alone_simps]: "say b (say a w) = say (a @ b) w" "say [] w = w"
  by (simp_all add: say_def)

lemma alone_Prints [alone_simps]: "alone io (Prints bs a) s = Some (a, say (concat bs) (fst s), snd s)"
  by (induction bs arbitrary: s) (simp_all add: alone_simps)

lemma alone_GetValidUsername [alone_simps]:
  "alone io (GetValidUsername prompt) s = map_option (\<lambda>(nm, w). (nm, w, snd s)) (getValidUsername prompt (fst s))"
  by (simp add: GetValidUsername_def split: option.split)

section \<open>Actions\<close>

text \<open>The result of a function as that of a program on the world beside the network.\<close>

abbreviation (input) beside :: "'net \<Rightarrow> 'a \<times> client_world \<Rightarrow> 'a \<times> client_world \<times> 'net" where
  "beside net r \<equiv> (fst r, snd r, net)"

lemma alone_HandleSendText [alone_simps]:
  "alone io (HandleSendText cr cid) (w, net) = Some (beside net (handleSendText cr cid w))"
  by (auto simp: HandleSendText_def handleSendText_def alone_simps Let_def split: prod.splits option.splits sum.splits)

lemma alone_HandleSendSymmetricKey [alone_simps]:
  "alone io (HandleSendSymmetricKey cr cid) (w, net) = Some (beside net (handleSendSymmetricKey cr cid w))"
  by (auto simp: HandleSendSymmetricKey_def handleSendSymmetricKey_def alone_simps Let_def split: option.splits sum.splits)

lemma alone_HandleRegister [alone_simps]:
  "alone io (HandleRegister cr) (w, net) = map_option (beside net) (handleRegister cr w)"
  by (auto simp: HandleRegister_def handleRegister_def alone_simps Let_def split: option.splits)

lemma alone_HandlePublicKey [alone_simps]:
  "alone io HandlePublicKey (w, net) = map_option (beside net) (handlePublicKey w)"
  by (auto simp: HandlePublicKey_def handlePublicKey_def alone_simps split: option.splits)

lemma alone_HandleAllMessages [alone_simps]:
  "alone io (HandleAllMessages cr code) (w, net) = map_option (beside net) (handleAllMessages cr code w)"
  by (auto simp: HandleAllMessages_def handleAllMessages_def SendContent_def alone_simps split: option.splits prod.splits sum.splits)

lemma alone_HandleMenuChoice [alone_simps]:
  "alone io (HandleMenuChoice cr code) (w, net) = map_option (beside net) (handleMenuChoice cr code w)"
  by (auto simp: HandleMenuChoice_def handleMenuChoice_def HandleClientList_def HandleWaitingMessages_def handleClientList_def
      handleWaitingMessages_def alone_simps)

section \<open>Responses\<close>

lemma alone_ResponseRegister [alone_simps]:
  "alone io (ResponseRegister cr data) (w, net) = Some (beside net (responseRegister cr data w))"
  by (auto simp: ResponseRegister_def responseRegister_def alone_simps split: sum.splits prod.splits)

lemma alone_ClientList_loop [alone_simps]:
  "alone io (ClientList_loop data offset) (w, net) = Some (beside net (clientList_loop data offset w))"
proof (induction data offset arbitrary: w rule: ClientList_loop.induct)
  case (1 data offset)
  then show ?case
    by (auto simp: ClientList_loop.simps [of data offset] clientList_loop.simps [of data offset] alone_simps Let_def split: sum.splits)
qed

lemma alone_ResponseClientList [alone_simps]:
  "alone io (ResponseClientList data) (w, net) = Some (beside net (responseClientList data w))"
  by (simp add: ResponseClientList_def responseClientList_def alone_simps Let_def)

lemma alone_Known [alone_simps]:
  "alone io (Known cid) (w, net) = Some ((), if tryGetFriendCopy (ctx w) cid = None then upd_ctx (setFriendBase cid []) w else w, net)"
  by (simp add: Known_def alone_simps)

lemma alone_ResponsePublicKey [alone_simps]:
  "alone io (ResponsePublicKey cr data) (w, net) = Some (beside net (responsePublicKey cr data w))"
  by (auto simp: ResponsePublicKey_def responsePublicKey_def alone_simps Let_def split: sum.splits)

lemma alone_ResponseMessageSent [alone_simps]:
  "alone io (ResponseMessageSent data) (w, net) = Some (beside net (responseMessageSent data w))"
  by (auto simp: ResponseMessageSent_def responseMessageSent_def alone_simps split: sum.splits option.splits)

lemma alone_HandleSymmetricKeyMessage [alone_simps]:
  "alone io (HandleSymmetricKeyMessage cr sk cid enc) (w, net) = Some ((), handleSymmetricKeyMessage cr sk cid enc w, net)"
  by (auto simp: HandleSymmetricKeyMessage_def handleSymmetricKeyMessage_def alone_simps Let_def split: sum.splits)

lemma alone_HandleTextMessage [alone_simps]:
  "alone io (HandleTextMessage cr cid enc) (w, net) = Some ((), handleTextMessage cr cid enc w, net)"
  by (auto simp: HandleTextMessage_def handleTextMessage_def alone_simps split: option.splits sum.splits)

lemma alone_ShowRecord [alone_simps]:
  "alone io (ShowRecord cr sk cid ty content) (w, net) = Some ((), showRecord cr sk cid ty content w, net)"
  by (auto simp: ShowRecord_def showRecord_def alone_simps Let_def)

lemma alone_WaitingMessages_loop [alone_simps]:
  "alone io (WaitingMessages_loop cr sk data offset) (w, net) = Some (beside net (waitingMessages_loop cr sk data offset w))"
proof (induction cr sk data offset arbitrary: w rule: WaitingMessages_loop.induct)
  case (1 cr sk data offset)
  then show ?case
    by (auto simp: WaitingMessages_loop.simps [of cr sk data offset] waitingMessages_loop.simps [of cr sk data offset] alone_simps
        Let_def split: sum.splits)
qed

lemma alone_ResponseWaitingMessages [alone_simps]:
  "alone io (ResponseWaitingMessages cr data) (w, net) = Some (beside net (responseWaitingMessages cr data w))"
  by (auto simp: ResponseWaitingMessages_def responseWaitingMessages_def alone_simps split: sum.splits)

lemma alone_ResponseClientMain [alone_simps]:
  "alone io (ResponseClientMain cr data) (w, net) = Some (beside net (responseClientMain cr data w))"
  by (simp add: ResponseClientMain_def responseClientMain_def responseErrorGeneral_def alone_simps Let_def)

section \<open>The threads\<close>

text \<open>A turn of the main thread that is not interrupted, and a round of the pull thread, step by
  step over the calls of the context and the connection, do what the functions of \<open>Client_Main\<close> do.\<close>

lemma uninterrupted_turn:
  "map_option (map_prod snd id) (alone (\<lambda>net q. sendAndReceive io q net) (Main_turn cr) (w, net)) = main_turn cr io (w, net)
   \<and> map_option snd (alone (\<lambda>net q. sendAndReceive io q net) (Pull_round cr) (w, net)) = Some (pull_round cr io (w, net))"
proof
  show "map_option (map_prod snd id) (alone (\<lambda>net q. sendAndReceive io q net) (Main_turn cr) (w, net)) = main_turn cr io (w, net)"
    by (auto simp: Main_turn_def main_turn_def alone_simps split: option.splits sum.splits prod.splits)
  show "map_option snd (alone (\<lambda>net q. sendAndReceive io q net) (Pull_round cr) (w, net)) = Some (pull_round cr io (w, net))"
    by (auto simp: Pull_round_def pull_round_def alone_simps Let_def split: sum.splits prod.splits)
qed

end
