(* ===== verification/Client_Interleaving.thy ===== *)
theory Client_Interleaving
  imports Client_Alone System
begin

text \<open>
  All interleavings of the two threads of a client at the granularity of \<open>Client_Atoms\<close>, with each
  other and with the requests of all other clients. A thread moves by one atomic step of its
  program; a thread that has a request takes \<^verbatim>\<open>_connMutex\<close>, may hold it for any time, in which the other
  cannot exchange anything, and releases it with the response; a thread whose turn or round is over starts
  the next. What an exchange does on the socket is one step here and split in \<open>Whole_System\<close>.
\<close>

section \<open>The interleaving\<close>

datatype who = Main_thread | Pull_thread

text \<open>The request a program is about to exchange.\<close>

definition asked :: "'a client_act \<Rightarrow> bytes option" where
  "asked p = (case p of Exchange q k \<Rightarrow> Some q | _ \<Rightarrow> None)"

lemma asked_simps [simp]: "asked (Done a) = None" "asked (Step g) = None" "asked (Exchange q k) = Some q"
  by (simp_all add: asked_def)

text \<open>\<open>f_mutex\<close> is the owner of \<^verbatim>\<open>_connMutex\<close>.\<close>

record fine =
  f_world :: client_world
  f_net :: srv_net
  f_main :: "(stage \<times> turn) client_act"
  f_pull :: "(stage \<times> (exn + unit)) client_act"
  f_mutex :: "who option"

inductive move ::
    "(nat \<Rightarrow> srv_env) \<Rightarrow> 'a client_act \<Rightarrow> client_world \<times> srv_net \<Rightarrow> 'a client_act \<Rightarrow> client_world \<times> srv_net \<Rightarrow> bool"
  for envs where
  move_step: "g w = Some (p, v) \<Longrightarrow> move envs (Step g) (w, net) p (v, net)"
| move_exchange: "length q < 23 + 2 ^ 32 \<Longrightarrow> sendAndReceive (loopback envs) q net = (r, net') \<Longrightarrow>
    move envs (Exchange q k) (w, net) (k r) (w, net')"

text \<open>A thread that has a request moves only while it owns the mutex, and releases it.\<close>

definition may_move :: "who \<Rightarrow> 'a client_act \<Rightarrow> who option \<Rightarrow> bool" where
  "may_move x p m \<longleftrightarrow> (asked p \<noteq> None \<longrightarrow> m = Some x)"

definition released :: "'a client_act \<Rightarrow> who option \<Rightarrow> who option" where
  "released p m = (if asked p = None then m else None)"

inductive_cases move_DoneE: "move envs (Done a) s p t"
inductive_cases move_StepE: "move envs (Step g) s p t"
inductive_cases move_ExchangeE: "move envs (Exchange q k) s p t"

inductive fine_step :: "('sk, 'pk) crypto \<Rightarrow> (nat \<Rightarrow> srv_env) \<Rightarrow> fine \<Rightarrow> fine \<Rightarrow> bool" for cr envs where
  main_moves: "move envs (f_main t) (f_world t, f_net t) p (w, net) \<Longrightarrow> may_move Main_thread (f_main t) (f_mutex t) \<Longrightarrow>
    fine_step cr envs t (t\<lparr>f_world := w, f_net := net, f_main := p, f_mutex := released (f_main t) (f_mutex t)\<rparr>)"
| main_locks: "f_mutex t = None \<Longrightarrow> asked (f_main t) = Some q \<Longrightarrow> length q < 23 + 2 ^ 32 \<Longrightarrow>
    fine_step cr envs t (t\<lparr>f_mutex := Some Main_thread\<rparr>)"
| main_again: "f_main t = Done (st, Again) \<Longrightarrow> fine_step cr envs t (t\<lparr>f_main := Main_turn cr\<rparr>)"
| pull_moves: "move envs (f_pull t) (f_world t, f_net t) p (w, net) \<Longrightarrow> may_move Pull_thread (f_pull t) (f_mutex t) \<Longrightarrow>
    fine_step cr envs t (t\<lparr>f_world := w, f_net := net, f_pull := p, f_mutex := released (f_pull t) (f_mutex t)\<rparr>)"
| pull_locks: "f_mutex t = None \<Longrightarrow> asked (f_pull t) = Some q \<Longrightarrow> length q < 23 + 2 ^ 32 \<Longrightarrow>
    fine_step cr envs t (t\<lparr>f_mutex := Some Pull_thread\<rparr>)"
| pull_again: "f_pull t = Done r \<Longrightarrow> fine_step cr envs t (t\<lparr>f_pull := Pull_round cr\<rparr>)"
| others: "request_handler_main (envs (turns (f_net t))) q (sdb (f_net t)) = (r, d) \<Longrightarrow>
    fine_step cr envs t (t\<lparr>f_net := (f_net t)\<lparr>sdb := d, turns := Suc (turns (f_net t))\<rparr>\<rparr>)"

inductive_cases fine_stepE: "fine_step cr envs t u"

section \<open>What the threads promise each other\<close>

text \<open>\<open>b\<close> says whether the private key and the path of the executable are to be relied on.\<close>

definition holds :: "('sk, 'pk) crypto \<Rightarrow> bool \<Rightarrow> client_world \<Rightarrow> bool" where
  "holds cr b w \<longleftrightarrow> world_wf w
     \<and> (b \<longrightarrow> (\<exists>sk. RSAPrivateWrapper_load cr (privateKey (ctx w)) = Inr sk) \<and> getExecutableDirectory w = Inr ())"

definition later :: "('sk, 'pk) crypto \<Rightarrow> bool \<Rightarrow> client_world \<Rightarrow> client_world \<Rightarrow> bool" where
  "later cr b v w \<longleftrightarrow> holds cr b v \<and> holds cr b w \<and> keeps_friends (ctx v) (ctx w)"

text \<open>What an exchange may bring: with \<open>l\<close>, the connection may be lost.\<close>

definition answers :: "bool \<Rightarrow> bytes \<Rightarrow> exn + bytes \<Rightarrow> bool" where
  "answers l q r \<longleftrightarrow> length q < 23 + 2 ^ 32 \<and> (case r of Inl e \<Rightarrow> l | Inr buffer \<Rightarrow> response_shape q buffer)"

interpretation threads: interference "later cr b" good_request "answers l" for cr b l
  by unfold_locales (auto simp: later_def intro: keeps_friends_trans)

abbreviation sound_act ::
    "bool \<Rightarrow> ('sk, 'pk) crypto \<Rightarrow> bool \<Rightarrow> ('a \<Rightarrow> client_world \<Rightarrow> bool) \<Rightarrow> 'a client_act \<Rightarrow> client_world \<Rightarrow> bool" where
  "sound_act l cr b \<equiv> sound (later cr b) (later cr b) good_request (answers l)"

lemma later_refl [simp]: "later cr b w w \<longleftrightarrow> holds cr b w"
  by (simp add: later_def)

lemma laterD: "later cr b v w \<Longrightarrow> holds cr b v \<and> holds cr b w"
  by (simp add: later_def)

lemma later_holds: "later cr b v w \<Longrightarrow> holds cr b w"
  by (simp add: later_def)

lemma later_keeps: "later cr b v w \<Longrightarrow> keeps v w"
  by (simp add: later_def holds_def keeps_def)

lemma later_trans: "later cr b u v \<Longrightarrow> later cr b v w \<Longrightarrow> later cr b u w"
  by (rule threads.later_trans)

text \<open>Steps that leave key and path alone.\<close>

lemma later_step:
  assumes "holds cr b w" and "keeps w v" and "privateKey (ctx v) = privateKey (ctx w)" and "exe_path_len v = exe_path_len w"
  shows "later cr b w v"
  using assms by (auto simp: later_def holds_def keeps_def getExecutableDirectory_def)

lemma later_say [simp]: "holds cr b w \<Longrightarrow> later cr b w (say s w)"
  by (rule later_step) simp_all

lemma holds_say [simp]: "holds cr b (say s w) = holds cr b w"
  by (simp add: holds_def)

lemma good_request_later: "good_request v q \<Longrightarrow> later cr b v w \<Longrightarrow> good_request w q"
  using good_request_mono later_keeps by blast

section \<open>Programs keep the promises\<close>

lemma sound_done: "(\<And>t. later cr b s t \<Longrightarrow> Q a t) \<Longrightarrow> sound_act l cr b Q (Done a) s"
  by (rule sound_Done)

lemma sound_Prints:
  assumes "holds cr b s" and "\<And>t. later cr b s t \<Longrightarrow> Q a t"
  shows "sound_act l cr b Q (Prints bs a) s"
  using assms
proof (induction bs arbitrary: s)
  case (Cons x bs)
  show ?case
    unfolding Prints.simps
  proof (rule sound_change_andthen)
    fix t assume t: "later cr b s t"
    then have h: "holds cr b t" by (simp add: laterD)
    then show "later cr b t (say x t)" by simp
    show "sound_act l cr b Q (Prints bs a) (say x t)"
    proof (rule Cons.IH)
      show "holds cr b (say x t)" using h by simp
      show "Q a u" if "later cr b (say x t) u" for u
        using Cons.prems(2) later_trans [OF later_trans [OF t later_say [OF h]] that] .
    qed
  qed
qed (auto intro: sound_done)

text \<open>The writes of the programs.\<close>

lemma holds_wf: "holds cr b w \<Longrightarrow> world_wf w"
  by (simp add: holds_def)

lemma holds_id: "holds cr b w \<Longrightarrow> length (clientID (ctx w)) = 16"
  using world_wf_id by (simp add: holds_def)

lemma later_prompt:
  assumes "holds cr b w" and "getValidUsername prompt w = Some (nm, v)"
  shows "later cr b w v"
proof -
  have "same_but_console w v" using username.run_Some [OF assms(2)] by blast
  note same = same_but_console_fields [OF this]
  then show ?thesis by (intro later_step assms(1)) (simp_all add: keeps_same_ctx)
qed

lemma later_menu:
  assumes "holds cr b w" and "clientMenuMain w = Some (input, v)"
  shows "later cr b w v"
proof -
  have "same_but_console w v" using menu.run_Some [OF assms(2)] by blast
  note same = same_but_console_fields [OF this]
  then show ?thesis by (intro later_step assms(1)) (simp_all add: keeps_same_ctx)
qed

lemma later_cin [simp]: "holds cr b w \<Longrightarrow> later cr b w (w\<lparr>cin := ls\<rparr>)"
  and later_rng [simp]: "holds cr b w \<Longrightarrow> later cr b w (w\<lparr>rng := n\<rparr>)"
  by (rule later_step; simp add: keeps_same_ctx)+

lemma privateKey_ops [simp]:
  "privateKey (setFriendBase i n c) = privateKey c" "privateKey (setFriendPublicKey i p c) = privateKey c"
  "privateKey (setFriendSymmetricKey i k c) = privateKey c" "privateKey (setClientID i c) = privateKey c"
  "privateKey (setName n c) = privateKey c"
  by (simp_all add: ctx_simps)

lemma later_writes:
  assumes "holds cr b w"
  shows "length i = 16 \<Longrightarrow> later cr b w (upd_ctx (setFriendBase i n) w)"
    and "length k = 16 \<Longrightarrow> later cr b w (upd_ctx (setFriendSymmetricKey i k) w)"
    and "length p = 160 \<Longrightarrow> later cr b w (upd_ctx (setFriendPublicKey i p) w)"
    and "length i = 16 \<Longrightarrow> later cr b w (upd_ctx (setClientID i) w)"
    and "later cr b w (upd_ctx (setName n) w)"
    and "crypto_ok cr \<or> \<not> b \<Longrightarrow> later cr b w (upd_ctx (setPrivateKey (RSAPrivateWrapper_getPrivateKey cr (RSAPrivateWrapper_generate cr j))) w)"
proof -
  show "length i = 16 \<Longrightarrow> later cr b w (upd_ctx (setFriendBase i n) w)"
    by (intro later_step assms keeps_setFriendBase) simp_all
  show "length k = 16 \<Longrightarrow> later cr b w (upd_ctx (setFriendSymmetricKey i k) w)"
    by (intro later_step assms keeps_symmetric) simp_all
  show "length p = 160 \<Longrightarrow> later cr b w (upd_ctx (setFriendPublicKey i p) w)"
    by (intro later_step assms keeps_upd_ctx) (simp_all add: ctx_wf_setFriendPublicKey)
  show "length i = 16 \<Longrightarrow> later cr b w (upd_ctx (setClientID i) w)" "later cr b w (upd_ctx (setName n) w)"
    by (intro later_step assms keeps_upd_ctx; simp add: ctx_wf_simple)+
  have k: "keeps w (upd_ctx (setPrivateKey (RSAPrivateWrapper_getPrivateKey cr (RSAPrivateWrapper_generate cr j))) w)"
    by (intro keeps_upd_ctx) (simp_all add: ctx_wf_simple)
  show "later cr b w (upd_ctx (setPrivateKey (RSAPrivateWrapper_getPrivateKey cr (RSAPrivateWrapper_generate cr j))) w)" if "crypto_ok cr \<or> \<not> b"
    using k that assms crypto_okD(4) [of cr j]
    by (auto simp: later_def holds_def keeps_def ctx_simps RSAPrivateWrapper_load_def RSAPrivateWrapper_getPrivateKey_def
        RSAPrivateWrapper_generate_def)
qed

declare Prints.simps [simp del]

text \<open>The rules of \<open>Act_Logic\<close> for these programs: what follows a step may use that the promises hold.\<close>

lemma sound_Prints_then:
  assumes "holds cr b s" and "\<And>t. later cr b s t \<Longrightarrow> holds cr b t \<Longrightarrow> sound_act l cr b Q (f a) t"
  shows "sound_act l cr b Q (andthen (Prints bs a) f) s"
  by (rule threads.sound_andthen [where R = "\<lambda>x t. x = a"]) (use assms in \<open>auto intro: sound_Prints later_holds\<close>)

lemma sound_look_then:
  "(\<And>t. later cr b s t \<Longrightarrow> holds cr b t \<Longrightarrow> sound_act l cr b Q (f (g t)) t) \<Longrightarrow> sound_act l cr b Q (andthen (look g) f) s"
  by (rule sound_look_andthen) (auto simp: later_holds)

lemma sound_change_then:
  "(\<And>t. holds cr b t \<Longrightarrow> later cr b t (h t)) \<Longrightarrow>
   (\<And>t. later cr b s t \<Longrightarrow> holds cr b (h t) \<Longrightarrow> sound_act l cr b Q (f ()) (h t)) \<Longrightarrow> sound_act l cr b Q (andthen (change h) f) s"
  by (rule sound_change_andthen) (blast intro: later_holds)+

lemma sound_atom_then:
  "(\<And>t. holds cr b t \<Longrightarrow> later cr b t (snd (h t))) \<Longrightarrow>
   (\<And>t. later cr b s t \<Longrightarrow> holds cr b (snd (h t)) \<Longrightarrow> sound_act l cr b Q (f (fst (h t))) (snd (h t))) \<Longrightarrow>
   sound_act l cr b Q (andthen (atom h) f) s"
  by (rule sound_atom_andthen) (blast intro: later_holds)+

lemma sound_finish:
  "(\<And>t. later cr b s t \<Longrightarrow> holds cr b t \<Longrightarrow> Q a t) \<Longrightarrow> sound_act l cr b Q (Done a) s"
  "holds cr b s \<Longrightarrow> (\<And>t. later cr b s t \<Longrightarrow> holds cr b t \<Longrightarrow> Q a t) \<Longrightarrow> sound_act l cr b Q (Prints bs a) s"
  "(\<And>t v. later cr b s t \<Longrightarrow> holds cr b t \<Longrightarrow> later cr b t v \<Longrightarrow> Q (g t) v) \<Longrightarrow> sound_act l cr b Q (look g) s"
  "(\<And>t. holds cr b t \<Longrightarrow> later cr b t (snd (h t))) \<Longrightarrow> (\<And>t v. later cr b (snd (h t)) v \<Longrightarrow> Q (fst (h t)) v) \<Longrightarrow>
     sound_act l cr b Q (atom h) s"
  by (blast intro: sound_done sound_Prints threads.sound_look threads.sound_atom later_holds)+

lemma sound_prompt_then:
  assumes "\<And>t nm u. later cr b s t \<Longrightarrow> getValidUsername prompt t = Some (nm, u) \<Longrightarrow> holds cr b u \<Longrightarrow> sound_act l cr b Q (f nm) u"
  shows "sound_act l cr b Q (andthen (GetValidUsername prompt) f) s"
  unfolding GetValidUsername_def by (rule sound_partial_andthen) (blast intro: assms later_prompt later_holds)+

lemmas sound_rules = sound_Prints_then sound_look_then sound_change_then sound_atom_then sound_prompt_then sound_finish

section \<open>Actions\<close>

lemma sound_HandleSendText: "holds cr b s \<Longrightarrow> sound_act l cr b (\<lambda>_ _. True) (HandleSendText cr i) s"
  unfolding HandleSendText_def by (auto intro!: sound_rules split: option.split sum.split prod.split)

lemma sound_HandleSendSymmetricKey: "holds cr b s \<Longrightarrow> sound_act l cr b (\<lambda>_ _. True) (HandleSendSymmetricKey cr i) s"
  unfolding HandleSendSymmetricKey_def
  by (auto intro!: sound_rules later_writes simp: length_AESWrapper_random split: option.split sum.split)

definition sendable :: "exn + bytes \<Rightarrow> client_world \<Rightarrow> bool" where
  "sendable r w \<longleftrightarrow> (case r of Inl e \<Rightarrow> True | Inr q \<Rightarrow> q = [] \<or> good_request w q)"

lemma sound_HandleRegister:
  assumes "holds cr b s" and "crypto_ok cr \<or> \<not> b"
  shows "sound_act l cr b sendable (HandleRegister cr) s"
  unfolding HandleRegister_def Let_def
  by (auto intro!: sound_rules later_writes assms(2) simp: sendable_def good_requestI world_wf_id holds_wf
      split: option.split sum.split)

lemma sound_HandlePublicKey: "holds cr b s \<Longrightarrow> sound_act l cr b sendable HandlePublicKey s"
  unfolding HandlePublicKey_def
  by (auto intro!: sound_rules simp: sendable_def good_requestI world_wf_id holds_wf split: option.split)

lemma later_known: "later cr b v w \<Longrightarrow> tryGetFriendCopy (ctx v) i \<noteq> None \<Longrightarrow> tryGetFriendCopy (ctx w) i \<noteq> None"
  unfolding later_def using keeps_friends_known by blast

lemma later_unknown: "later cr b v w \<Longrightarrow> tryGetFriendCopy (ctx w) i = None \<Longrightarrow> tryGetFriendCopy (ctx v) i = None"
  using later_known by blast

text \<open>A message is requested for a client that was found in the cache, and that is still there.\<close>

lemma sound_message:
  assumes "length i = 16" and "tryGetFriendCopy (ctx s) i \<noteq> None"
  shows "sound_act l cr b sendable (look (\<lambda>w. Inr (message_request w i ty c))) s"
proof (rule sound_finish(3))
  fix t v assume t: "later cr b s t" "holds cr b t" "later cr b t v"
  have "good_request t (message_request t i ty c)"
    by (rule good_message_request [OF holds_wf [OF t(2)] assms(1) later_known [OF t(1) assms(2)]])
  from good_request_later [OF this t(3)] show "sendable (Inr (message_request t i ty c)) v" by (simp add: sendable_def)
qed

lemma sound_SendContent:
  assumes "length i = 16" and "tryGetFriendCopy (ctx s) i \<noteq> None" and "sound_act l cr b (\<lambda>_ _. True) p s" and "holds cr b s"
  shows "sound_act l cr b sendable (SendContent i ty p) s"
  unfolding SendContent_def unless_thrown_def
proof (rule threads.sound_then [OF assms(3)])
  fix r t assume t: "later cr b s t"
  note m = sound_message [OF assms(1) later_known [OF t assms(2)]]
  show "sound_act l cr b sendable (case r of Inl e \<Rightarrow> Done (Inl e)
      | Inr c \<Rightarrow> if c = [] then Done (Inr []) else look (\<lambda>w. Inr (message_request w i (Some ty) c))) t"
    using m by (auto intro!: sound_finish(1) simp: sendable_def split: sum.split)
qed (simp add: assms(4))

lemma sound_HandleAllMessages:
  assumes "holds cr b s"
  shows "sound_act l cr b sendable (HandleAllMessages cr code) s"
proof -
  have found: "length i = 16 \<and> tryGetFriendCopy (ctx t) i \<noteq> None" if "holds cr b t" "tryGetFriendIdByName (ctx t) nm = Some i" for t nm i
    using tryGetFriendIdByName_Some [of "ctx t" nm i] that by (auto simp: holds_def world_wf_def)
  have target: "sound_act l cr b sendable
      (case tryGetFriendIdByName (ctx t) nm of
         None \<Rightarrow> Prints [lit ''User not found. Please request clients list (120) first.'' @ nl] (Inr [])
       | Some i \<Rightarrow>
           if code = 150 then SendContent i 3 (HandleSendText cr i)
           else if code = 151 then look (\<lambda>w. Inr (message_request w i (Some 1) []))
           else if code = 152 then SendContent i 2 (HandleSendSymmetricKey cr i)
           else look (\<lambda>w. Inr (message_request w i None []))) t" if h: "holds cr b t" for t nm
  proof (cases "tryGetFriendIdByName (ctx t) nm")
    case None
    with h show ?thesis by (auto intro!: sound_finish(2) simp: sendable_def)
  next
    case (Some i)
    note i = found [OF h Some, THEN conjunct1] found [OF h Some, THEN conjunct2]
    show ?thesis
      using sound_SendContent [OF i sound_HandleSendText [OF h] h] sound_SendContent [OF i sound_HandleSendSymmetricKey [OF h] h]
        sound_message [OF i, of cr b] by (simp add: Some)
  qed
  show ?thesis
    unfolding HandleAllMessages_def
    by (rule sound_prompt_then) (auto intro!: sound_look_then sound_finish(1) target simp: sendable_def)
qed

lemma sound_HandleMenuChoice:
  assumes "holds cr b s" and "crypto_ok cr \<or> \<not> b"
  shows "sound_act l cr b sendable (HandleMenuChoice cr code) s"
proof -
  have req: "sound_act l cr b sendable (andthen (look (\<lambda>w. createBuffer (Message_no_payload (clientID (ctx w)) c))) (\<lambda>data. Done (Inr data))) s"
    if "c \<in> {701, 704}" for c
    using that by (auto intro!: sound_rules good_requestI(2) intro: holds_id simp: sendable_def)
  show ?thesis
    unfolding HandleMenuChoice_def HandleClientList_def HandleWaitingMessages_def
    using sound_HandleRegister [OF assms] sound_HandlePublicKey [OF assms(1)] sound_HandleAllMessages [OF assms(1)] req [of 701] req [of 704]
    by (auto intro!: sound_finish(1) simp: sendable_def)
qed

section \<open>Responses\<close>

text \<open>What a response handler ends with: with key and path, and a response for which \<open>c\<close> holds, no
  exception.\<close>

definition ends_well :: "bool \<Rightarrow> bool \<Rightarrow> exn + unit \<Rightarrow> client_world \<Rightarrow> bool" where
  "ends_well b c r w \<longleftrightarrow> b \<and> c \<longrightarrow> r = Inr ()"

lemma ends_well_ok [simp]: "ends_well b c (Inr ()) w"
  by (simp add: ends_well_def)

lemma later_saveMyInfo:
  assumes "holds cr b w"
  shows "later cr b w (snd (saveMyInfo cr w))"
proof -
  obtain r v where run: "saveMyInfo cr w = (r, v)" by fastforce
  then have "exe_path_len v = exe_path_len w"
    by (auto simp: saveMyInfo_def Let_def split: if_splits sum.splits option.splits)
  then show ?thesis
    unfolding run using keeps_saveMyInfo [OF run] by (intro later_step assms) (simp_all add: keeps_same_ctx)
qed

lemma sound_saved:
  assumes "holds cr b s" and "\<And>t. later cr b s t \<Longrightarrow> holds cr b t \<Longrightarrow> sound_act l cr b (ends_well b c) (f ()) t"
  shows "sound_act l cr b (ends_well b c) (unless_thrown (atom (saveMyInfo cr)) f) s"
  unfolding unless_thrown_def
proof (rule sound_atom_then)
  fix t assume t: "holds cr b t" then show "later cr b t (snd (saveMyInfo cr t))" by (rule later_saveMyInfo)
next
  fix t assume t: "later cr b s t" "holds cr b (snd (saveMyInfo cr t))"
  have l: "later cr b s (snd (saveMyInfo cr t))" using later_trans [OF t(1) later_saveMyInfo [OF later_holds [OF t(1)]]] .
  show "sound_act l cr b (ends_well b c) (case fst (saveMyInfo cr t) of Inl e \<Rightarrow> Done (Inl e) | Inr a \<Rightarrow> f a) (snd (saveMyInfo cr t))"
  proof (cases "fst (saveMyInfo cr t)")
    case (Inl e)
    then have "\<not> b" using saveMyInfo_returns [of t cr] later_holds [OF t(1)] by (auto simp: holds_def)
    with Inl show ?thesis by (auto intro!: sound_finish(1) simp: ends_well_def)
  next
    case (Inr u)
    with assms(2) [OF l t(2)] show ?thesis by simp
  qed
qed

lemma sound_ResponseRegister:
  "holds cr b s \<Longrightarrow> sound_act l cr b (ends_well b (23 \<le> length data)) (ResponseRegister cr data) s"
  unfolding ResponseRegister_def
  by (auto intro!: sound_rules sound_saved later_writes simp: readClientID_def wire_simps ends_well_def split: sum.split)

text \<open>Whether the loops over entries and records throw depends on the bytes alone: if the function does
  not at one world, the program does not at any.\<close>

lemma sound_ClientList_loop:
  "holds cr b s \<Longrightarrow> sound_act l cr b (ends_well b (\<exists>w. fst (clientList_loop data offset w) = Inr ())) (ClientList_loop data offset) s"
proof (induction data offset arbitrary: s rule: ClientList_loop.induct)
  case (1 data offset)
  note unfolded = ClientList_loop.simps [of data offset] clientList_loop.simps [of data offset]
  show ?case
  proof (cases "offset < length data")
    case True
    show ?thesis
    proof (cases "readClientID data offset")
      case (Inr cid)
      have rest: "sound_act l cr b (ends_well b (\<exists>w. fst (clientList_loop data offset w) = Inr ())) (ClientList_loop data (offset + 271)) t"
        if "holds cr b t" for t
        by (rule threads.sound_weaken [OF "1.IH" [OF True Inr refl that]]) (use True Inr in \<open>auto simp: ends_well_def unfolded Let_def\<close>)
      show ?thesis
        using True Inr readClientID_Inr [OF Inr]
        by (auto intro!: sound_rules later_writes rest simp: ClientList_loop.simps [of data offset] Let_def "1.prems")
    qed (use True in \<open>auto intro!: sound_finish(1) simp: unfolded ends_well_def\<close>)
  qed (auto intro!: sound_finish(1) simp: unfolded ends_well_def)
qed

lemma sound_ResponseClientList:
  "holds cr b s \<Longrightarrow> sound_act l cr b (ends_well b (\<exists>w. fst (responseClientList data w) = Inr ())) (ResponseClientList data) s"
  using sound_ClientList_loop [where offset = 7]
  by (auto intro!: sound_finish(1) simp: ResponseClientList_def responseClientList_def ends_well_def Let_def)

lemma sound_Known_then:
  assumes "length i = 16" and "holds cr b s" and "\<And>t. later cr b s t \<Longrightarrow> holds cr b t \<Longrightarrow> sound_act l cr b Q (f ()) t"
  shows "sound_act l cr b Q (andthen (Known i) f) s"
proof (rule threads.sound_then)
  show "sound_act l cr b (\<lambda>_ _. True) (Known i) s"
    unfolding Known_def by (auto intro!: sound_look_then sound_finish(1) threads.sound_change later_writes assms(1) intro: later_holds)
  show "later cr b s s" using assms(2) by simp
  show "sound_act l cr b Q (f a) t" if "later cr b s t" for a t
    using assms(3) [OF that later_holds [OF that]] by simp
qed

lemma sound_ResponsePublicKey:
  "holds cr b s \<Longrightarrow> sound_act l cr b (ends_well b (183 \<le> length data)) (ResponsePublicKey cr data) s"
  unfolding ResponsePublicKey_def
  by (auto intro!: sound_rules sound_Known_then later_writes simp: readClientID_def wire_simps ends_well_def Let_def split: sum.split)

lemma sound_ResponseMessageSent:
  assumes "holds cr b s" and "27 \<le> length data" and "tryGetFriendCopy (ctx s) (bslice 7 16 data) \<noteq> None"
  shows "sound_act l cr b (ends_well b True) (ResponseMessageSent data) s"
proof -
  have known: "\<exists>f. tryGetFriendCopy (ctx t) (bslice 7 16 data) = Some f" if "later cr b s t" for t
    using later_known [OF that assms(3)] by simp
  have "readClientID data 7 = Inr (bslice 7 16 data)" "\<exists>n. readUint32LE data 23 = Inr n"
    using assms(2) by (simp_all add: readClientID_def readUint32LE_def)
  with assms(2) show ?thesis
    unfolding ResponseMessageSent_def by (auto intro!: sound_look_then sound_finish(2) dest!: known)
qed

lemma sound_HandleSymmetricKeyMessage:
  "length i = 16 \<Longrightarrow> holds cr b s \<Longrightarrow> sound_act l cr b (\<lambda>_ _. True) (HandleSymmetricKeyMessage cr sk i c) s"
  unfolding HandleSymmetricKeyMessage_def
  by (auto intro!: sound_rules sound_Known_then later_writes split: sum.split)

lemma sound_HandleTextMessage: "holds cr b s \<Longrightarrow> sound_act l cr b (\<lambda>_ _. True) (HandleTextMessage cr i c) s"
  unfolding HandleTextMessage_def by (auto intro!: sound_rules split: sum.split option.split)

lemma sound_ShowRecord:
  assumes "length i = 16" and "holds cr b s"
  shows "sound_act l cr b (\<lambda>_ _. True) (ShowRecord cr sk i ty c) s"
  unfolding ShowRecord_def
proof (intro sound_look_then sound_Prints_then)
  fix t u assume u: "holds cr b u"
  show "sound_act l cr b (\<lambda>_ _. True)
      (andthen (if ty = 1 then Prints [lit ''Request for symmetric key'' @ nl] ()
                else if ty = 2 then HandleSymmetricKeyMessage cr sk i c
                else if ty = 3 then HandleTextMessage cr i c
                else Prints [lit ''[Unsupported message type: '', show_dec (unat ty), lit '']'' @ nl] ())
        (\<lambda>_. Prints [lit ''-----<EOM>-----'' @ nl @ nl] ())) u"
    by (rule threads.sound_then)
       (use u assms(1) in \<open>auto intro!: sound_rules sound_HandleSymmetricKeyMessage sound_HandleTextMessage intro: later_holds\<close>)
qed

lemma sound_WaitingMessages_loop:
  "holds cr b s \<Longrightarrow> sound_act l cr b (ends_well b (\<exists>w. fst (waitingMessages_loop cr sk data offset w) = Inr ()))
     (WaitingMessages_loop cr sk data offset) s"
proof (induction cr sk data offset arbitrary: s rule: WaitingMessages_loop.induct)
  case (1 cr sk data offset)
  note unfolded = WaitingMessages_loop.simps [of cr sk data offset] waitingMessages_loop.simps [of cr sk data offset]
  show ?case
  proof (cases "offset < length data \<and> offset + 25 \<le> length data")
    case True
    then obtain cid n where r: "readClientID data offset = Inr cid" "readUint32LE data (offset + 21) = Inr n"
      by (auto simp: readClientID_def readUint32LE_def)
    show ?thesis
    proof (cases "length data < offset + 25 + unat n")
      case False
      have rest: "sound_act l cr b (ends_well b (\<exists>w. fst (waitingMessages_loop cr sk data offset w) = Inr ()))
          (WaitingMessages_loop cr sk data (offset + 25 + unat n)) t" if "holds cr b t" for t
      proof (rule threads.sound_weaken)
        show "sound_act l cr b (ends_well b (\<exists>w. fst (waitingMessages_loop cr sk data (offset + 25 + unat n) w) = Inr ()))
            (WaitingMessages_loop cr sk data (offset + 25 + unat n)) t"
          using "1.IH" [OF _ _ r(1) refl refl refl _ refl, of n t] True False r(2) that by (simp add: ac_simps)
      qed (use True False r in \<open>auto simp: ends_well_def unfolded Let_def ac_simps\<close>)
      have o: "offset + 16 + 4 = offset + 20" "offset + 20 + 1 = offset + 21" "offset + 21 + 4 = offset + 25" by simp_all
      have unfold_loop: "WaitingMessages_loop cr sk data offset =
          andthen (ShowRecord cr sk cid (data ! (offset + 20)) (bslice (offset + 25) (unat n) data))
            (\<lambda>_. WaitingMessages_loop cr sk data (offset + 25 + unat n))"
        unfolding WaitingMessages_loop.simps [of cr sk data offset] Let_def o r sum.case
        using True False by simp
      show ?thesis
        unfolding unfold_loop
        by (rule threads.sound_then [OF sound_ShowRecord]) (use readClientID_Inr [OF r(1)] "1.prems" in \<open>auto intro: rest later_holds\<close>)
    qed (use True r in \<open>auto intro!: sound_finish(1) simp: unfolded ends_well_def Let_def ac_simps\<close>)
  qed (auto intro!: sound_finish(1) simp: unfolded ends_well_def)
qed

lemma sound_ResponseWaitingMessages:
  assumes "holds cr b s" and "\<And>sk. \<exists>w. fst (waitingMessages_loop cr sk data 7 w) = Inr ()"
  shows "sound_act l cr b (ends_well b True) (ResponseWaitingMessages cr data) s"
proof (cases "length data = 7")
  case False
  show ?thesis
    unfolding ResponseWaitingMessages_def if_not_P [OF False]
  proof (rule sound_look_then)
    fix t assume t: "holds cr b t"
    show "sound_act l cr b (ends_well b True) (case RSAPrivateWrapper_load cr (privateKey (ctx t)) of Inl e \<Rightarrow> Done (Inl e)
        | Inr sk \<Rightarrow> WaitingMessages_loop cr sk data 7) t"
      using sound_WaitingMessages_loop [OF t, where data = data and offset = 7] assms(2) t
      by (auto intro!: sound_finish(1) simp: ends_well_def holds_def split: sum.split)
  qed
qed (auto intro!: sound_finish(2) simp: ResponseWaitingMessages_def assms(1))

text \<open>The response of the server to a request of the program: neither thread throws on it.\<close>

lemma sound_answer:
  assumes "response_shape q r" and "holds cr b s"
    and "44 \<le> length q \<and> from_bytes (bslice 17 2 q) = 703 \<longrightarrow> tryGetFriendCopy (ctx s) (bslice 23 16 q) \<noteq> None"
  shows "sound_act l cr b (ends_well b True) (ResponseClientMain cr r) s"
  using assms(1) unfolding response_shape_def
proof (elim disjE exE conjE)
  assume "r = error_bytes"
  then show ?thesis
    using assms(2) by (auto intro!: sound_finish(2) simp: ResponseClientMain_def error_bytes_def responseCode_bytes length_response)
next
  fix cid assume "length cid = 16" and r: "r = response_bytes 2100 cid"
  with sound_ResponseRegister [OF assms(2), where data = r] show ?thesis
    by (simp add: r ResponseClientMain_def responseCode_bytes length_response)
next
  fix es assume es: "\<forall>x\<in>set es. entry_ok x" and r: "r = response_bytes 2101 (concat (map client_list_entry es))"
  have "\<exists>w. fst (responseClientList r w) = Inr ()"
    using client_learns_entries [OF es] by (auto simp: r responseClientMain_def responseCode_bytes length_response)
  with sound_ResponseClientList [OF assms(2), where data = r] show ?thesis
    by (simp add: r ResponseClientMain_def responseCode_bytes length_response)
next
  fix k assume q: "length q = 39" "length k = 160" and r: "r = response_bytes 2102 (bslice 23 16 q @ k)"
  have "length (bslice 23 16 q) = 16" using q(1) by (simp add: length_bslice)
  with q(2) sound_ResponsePublicKey [OF assms(2), where data = r] show ?thesis
    by (simp add: r ResponseClientMain_def responseCode_bytes length_response)
next
  fix i assume q: "44 \<le> length q" "from_bytes (bslice 17 2 q) = 703" "i < 2 ^ 32" and r: "r = response_bytes 2103 (bslice 23 16 q @ le_bytes 4 i)"
  have "length (bslice 23 16 q) = 16" using q(1) by (simp add: length_bslice)
  then have "bslice 7 16 r = bslice 23 16 q" "27 \<le> length r"
    by (simp_all add: r bslice_response bslice_append length_response length_le_bytes)
  with sound_ResponseMessageSent [OF assms(2), where data = r] assms(3) q show ?thesis
    by (simp add: r ResponseClientMain_def responseCode_bytes length_response)
next
  fix rows assume f: "fits rows" and r: "r = response_bytes 2104 (concat (map encode_row rows))"
  have ok: "\<forall>m\<in>set rows. row_ok m" using f by (simp add: fits_def)
  have dec: "decode_all (length r) dec_record (drop 7 r) = (map row_view rows, [])"
    unfolding r drop_response by (rule rows.decode_concat [OF ok]) (simp add: length_response)
  have "waitingMessages_loop cr sk r 7 w = (cut_result [], showAll cr sk (map row_view rows) w)" for sk and w :: client_world
    by (rule waitingMessages_loop_refines [OF _ _ dec]) (simp_all add: r length_response)
  then have "\<exists>w. fst (waitingMessages_loop cr sk r 7 w) = Inr ()" for sk
    by (simp add: cut_result_def)
  from sound_ResponseWaitingMessages [OF assms(2) this] show ?thesis
    by (simp add: r ResponseClientMain_def responseCode_bytes length_response)
qed

section \<open>The threads\<close>

text \<open>What a request is answered with finds its client still in the cache.\<close>

lemma sound_request:
  assumes "good_request s q"
    and "\<And>t. later cr b s t \<Longrightarrow> holds cr b t \<Longrightarrow> (\<And>r. sound_act l cr b (ends_well b True) (ResponseClientMain cr r) t \<Longrightarrow>
      answers l q (Inr r) \<Longrightarrow> sound_act l cr b Q (k (Inr r)) t)"
    and "\<And>t e. later cr b s t \<Longrightarrow> l \<Longrightarrow> sound_act l cr b Q (k (Inl e)) t"
  shows "sound_act l cr b Q (Exchange q k) s"
proof (rule sound_Exchange)
  fix t assume t: "later cr b s t"
  note good = good_request_later [OF assms(1) t]
  then show "good_request t q" .
  fix r assume a: "answers l q r"
  show "sound_act l cr b Q (k r) t"
  proof (cases r)
    case (Inl e)
    with a show ?thesis using assms(3) [OF t] by (simp add: answers_def)
  next
    case (Inr buffer)
    with a have r: "response_shape q buffer" "length q < 23 + 2 ^ 32" by (simp_all add: answers_def)
    from sound_answer [OF r(1) later_holds [OF t] good_request_whole(2) [OF good r(2)]] a
    show ?thesis using assms(2) [OF t later_holds [OF t]] by (simp add: Inr)
  qed
qed

definition turn_ends :: "bool \<Rightarrow> bool \<Rightarrow> stage \<times> turn \<Rightarrow> client_world \<Rightarrow> bool" where
  "turn_ends l b x w \<longleftrightarrow> (fst x = Exchanging \<longrightarrow> l) \<and> (b \<and> fst x = Handling \<longrightarrow> snd x = Again)"

definition round_ends :: "bool \<Rightarrow> bool \<Rightarrow> stage \<times> (exn + unit) \<Rightarrow> client_world \<Rightarrow> bool" where
  "round_ends l b x w \<longleftrightarrow> (fst x = Exchanging \<longrightarrow> l) \<and> (b \<and> fst x \<noteq> Exchanging \<longrightarrow> snd x = Inr ())"

lemma sound_handled:
  assumes "sound_act l cr b (ends_well b True) (ResponseClientMain cr r) s" and "holds cr b s"
    and "\<And>x t. later cr b s t \<Longrightarrow> (b \<Longrightarrow> x = Inr ()) \<Longrightarrow> Q (g x) t"
  shows "sound_act l cr b Q (andthen (ResponseClientMain cr r) (\<lambda>x. Done (g x))) s"
proof (rule threads.sound_andthen [OF assms(1)])
  show "later cr b s s" using assms(2) by simp
  fix x t assume t: "later cr b s t" "ends_well b True x t"
  show "sound_act l cr b Q (Done (g x)) t"
    by (rule sound_done) (rule assms(3) [OF later_trans [OF t(1)]], use t(2) in \<open>simp_all add: ends_well_def\<close>)
qed

lemma sound_Main_turn:
  assumes "holds cr b s" and "crypto_ok cr \<or> \<not> b"
  shows "sound_act l cr b (turn_ends l b) (Main_turn cr) s"
  unfolding Main_turn_def
proof (rule sound_partial_andthen)
  fix t input u assume t: "later cr b s t" "clientMenuMain t = Some (input, u)"
  then show "later cr b t u" by (blast intro: later_menu later_holds)
  then have h: "holds cr b u" by (rule later_holds)
  let ?rest = "\<lambda>r. case r of Inl e \<Rightarrow> Done (Acting, Throw e)
      | Inr data \<Rightarrow> if data = [] then Done (Acting, Again)
          else Exchange data (\<lambda>r. case r of Inl e \<Rightarrow> Done (Exchanging, Throw e)
            | Inr buffer \<Rightarrow> andthen (ResponseClientMain cr buffer) (\<lambda>r. Done (Handling, case r of Inl e \<Rightarrow> Throw e | Inr _ \<Rightarrow> Again)))"
  have rest: "sound_act l cr b (turn_ends l b) (?rest r) v" if v: "later cr b u v" "sendable r v" for r v
  proof -
    have "sound_act l cr b (turn_ends l b) (Exchange data (\<lambda>r. case r of Inl e \<Rightarrow> Done (Exchanging, Throw e)
        | Inr buffer \<Rightarrow> andthen (ResponseClientMain cr buffer) (\<lambda>r. Done (Handling, case r of Inl e \<Rightarrow> Throw e | Inr _ \<Rightarrow> Again)))) v"
      if "r = Inr data" "data \<noteq> []" for data
      by (rule sound_request) (use v that in \<open>auto intro!: sound_handled intro: sound_done simp: sendable_def turn_ends_def\<close>)
    then show ?thesis by (cases r) (auto intro!: sound_finish(1) simp: turn_ends_def)
  qed
  have "sound_act l cr b (turn_ends l b) (andthen (HandleMenuChoice cr input) ?rest) u"
    by (rule threads.sound_andthen [OF sound_HandleMenuChoice [OF h assms(2)]]) (use h rest in auto)
  then show "sound_act l cr b (turn_ends l b) (if input = Code_EXIT then Prints [lit ''Exiting client...'' @ nl] (Acting, Exit)
      else andthen (HandleMenuChoice cr input) ?rest) u"
    using h by (auto intro!: sound_finish(2) simp: turn_ends_def)
qed

lemma sound_Pull_round:
  assumes "holds cr b s"
  shows "sound_act l cr b (round_ends l b) (Pull_round cr) s"
proof -
  let ?k = "\<lambda>r. case r of Inl e \<Rightarrow> Done (Exchanging, Inl e)
      | Inr buffer \<Rightarrow> andthen (Prints [lit ''Pulling waiting messages automatically:'' @ nl] ())
          (\<lambda>_. andthen (ResponseClientMain cr buffer) (\<lambda>r. Done (Handling, r)))"
  have "sound_act l cr b (round_ends l b) (Exchange q ?k) v" if "good_request v q" for q v
    using that
    by (rule sound_request)
       (auto intro!: sound_Prints_then sound_handled intro: threads.sound_later sound_done simp: round_ends_def)
  then have "sound_act l cr b (round_ends l b) (Exchange (createBuffer (Message_no_payload (clientID (ctx v)) 704)) ?k) v"
    if "holds cr b v" for v
    using that by (simp add: good_requestI(2) holds_id)
  then show ?thesis
    unfolding Pull_round_def
    by (auto intro!: sound_look_then sound_finish(1) simp: round_ends_def)
qed

section \<open>The promises are an invariant of the interleaving\<close>

lemma exchange_answered:
  assumes "sound_act l cr b Q (Exchange q k) w" and "holds cr b w" and "length q < 23 + 2 ^ 32"
    and "sendAndReceive (loopback envs) q net = (r, net')" and "db_ok (sdb net)" and "inbox net = []" and "env_ok (envs (turns net))"
  shows "answers l q r" and "sound_act l cr b Q (k r) w" and "db_ok (sdb net')" and "inbox net' = []"
proof -
  have now: "later cr b w w" using assms(2) by simp
  have good: "good_request w q" using assms(1) by (rule sound_ExchangeE) (use now in blast)
  obtain x where x: "r = Inr x" "response_shape q x" "db_ok (sdb net')" "inbox net' = []"
    using server_answers [OF assms(5-7) good_request_whole(1) [OF good assms(3)] assms(4)] by blast
  then show a: "answers l q r" and "db_ok (sdb net')" "inbox net' = []" using assms(3) by (simp_all add: answers_def)
  show "sound_act l cr b Q (k r) w" using assms(1) by (rule sound_ExchangeE) (use now a in blast)
qed

lemma sound_move:
  assumes "move envs p (w, net) q (v, net')" and "sound_act l cr b Q p w" and "holds cr b w"
    and "db_ok (sdb net)" and "inbox net = []" and "env_ok (envs (turns net))"
  shows "later cr b w v \<and> sound_act l cr b Q q v \<and> db_ok (sdb net') \<and> inbox net' = []"
  using assms(1)
proof cases
  case (move_step g)
  have "later cr b w w" using assms(3) by simp
  moreover from assms(2) have "later cr b w w \<Longrightarrow> later cr b w v \<and> sound_act l cr b Q q v"
    unfolding move_step(1) by (rule sound_StepE) (use move_step(3) in blast)
  ultimately show ?thesis using assms(4,5) by (simp add: move_step(2))
next
  case (move_exchange d r k)
  from exchange_answered [OF assms(2) [unfolded move_exchange(1)] assms(3) move_exchange(4,5) assms(4-6)] assms(3)
  show ?thesis by (simp add: move_exchange(2,3))
qed

definition fine_inv :: "('sk, 'pk) crypto \<Rightarrow> bool \<Rightarrow> fine \<Rightarrow> bool" where
  "fine_inv cr b t \<longleftrightarrow> (crypto_ok cr \<or> \<not> b) \<and> holds cr b (f_world t) \<and> db_ok (sdb (f_net t)) \<and> inbox (f_net t) = []
     \<and> sound_act False cr b (turn_ends False b) (f_main t) (f_world t) \<and> sound_act False cr b (round_ends False b) (f_pull t) (f_world t)"

text \<open>A program that is done has the value it promised.\<close>

lemma fine_inv_done:
  "fine_inv cr b t \<Longrightarrow> f_main t = Done x \<Longrightarrow> turn_ends False b x (f_world t)"
  "fine_inv cr b t \<Longrightarrow> f_pull t = Done y \<Longrightarrow> round_ends False b y (f_world t)"
  by (auto simp: fine_inv_def elim!: sound_DoneE)

lemma fine_inv_step:
  assumes "fine_step cr envs t u" and "fine_inv cr b t" and "\<forall>n. env_ok (envs n)"
  shows "fine_inv cr b u \<and> later cr b (f_world t) (f_world u)"
  using assms(1)
proof cases
  case (main_moves p w net)
  with sound_move [OF main_moves(2), of cr b False "turn_ends False b"] assms(2,3) show ?thesis
    by (auto simp: fine_inv_def later_holds intro: threads.sound_later)
next
  case (pull_moves p w net)
  with sound_move [OF pull_moves(2), of cr b False "round_ends False b"] assms(2,3) show ?thesis
    by (auto simp: fine_inv_def later_holds intro: threads.sound_later)
next
  case (others q r d)
  have "db_ok d" by (rule db_ok_request [OF _ _ others(2)]) (use assms(2,3) in \<open>simp_all add: fine_inv_def\<close>)
  with others assms(2) show ?thesis by (simp add: fine_inv_def)
qed (use assms(2) in \<open>simp_all add: fine_inv_def sound_Main_turn sound_Pull_round\<close>)

interpretation fine: machine "fine_step cr (good_envs envs)" "fine_inv cr b" "\<lambda>t u. keeps (f_world t) (f_world u)" for cr envs b
  by unfold_locales (auto dest: fine_inv_step simp: good_envs_ok intro: later_keeps keeps_trans)

text \<open>Both threads at the start of a turn and of a round, nothing on the wire.\<close>

definition fine_start :: "fine \<Rightarrow> bool" where
  "fine_start t \<longleftrightarrow> f_main t = Done (Acting, Again) \<and> f_pull t = Done (Acting, Inr ()) \<and> f_mutex t = None \<and> world_wf (f_world t)
     \<and> db_ok (sdb (f_net t)) \<and> inbox (f_net t) = []"

definition key_and_path :: "('sk, 'pk) crypto \<Rightarrow> client_world \<Rightarrow> bool" where
  "key_and_path cr w \<longleftrightarrow> (\<exists>sk. RSAPrivateWrapper_load cr (privateKey (ctx w)) = Inr sk) \<and> getExecutableDirectory w = Inr ()"

lemma fine_start_inv:
  "fine_start t \<Longrightarrow> (b \<Longrightarrow> crypto_ok cr \<and> key_and_path cr (f_world t)) \<Longrightarrow> fine_inv cr b t"
  by (auto simp: fine_start_def fine_inv_def holds_def key_and_path_def turn_ends_def round_ends_def intro: sound_done)

lemma fine_reach:
  assumes "(fine_step cr envs)\<^sup>*\<^sup>* t u" and "\<forall>n. env_ok (envs n)" and "fine_start t"
    and "b \<Longrightarrow> crypto_ok cr \<and> key_and_path cr (f_world t)"
  shows "fine_inv cr b u" and "keeps (f_world t) (f_world u)"
proof -
  have r: "(fine_step cr (good_envs envs))\<^sup>*\<^sup>* t u" using assms(1) good_envs_id [OF assms(2)] by simp
  note i = fine_start_inv [OF assms(3,4)]
  show "fine_inv cr b u" by (rule fine.reach_inv [OF r i])
  show "keeps (f_world t) (f_world u)" by (rule fine.reach_grows [OF r i])
qed

end
