(* ===== verification/Coarse_Runs.thy ===== *)
theory Coarse_Runs
  imports Client_Interleaving
begin

text \<open>
  The runs of \<open>System\<close>, whose steps are whole actions, exchanges and whole responses, are runs of
  \<open>Client_Interleaving\<close>: a simulation, in which what a thread has in its hands between two steps is
  the program it is left with.
\<close>

section \<open>Runs of one thread that no other interrupts\<close>

text \<open>Exchanges are counted to tell that a program makes none.\<close>

definition counting :: "nat \<Rightarrow> bytes \<Rightarrow> (exn + bytes) \<times> nat" where
  "counting n q = (Inr [], Suc n)"

lemma counting_grows: "alone counting p (w, n) = Some (a, v, m) \<Longrightarrow> n \<le> m"
proof (induction p arbitrary: w n)
  case (Step g)
  show ?case
  proof (cases "g w")
    case (Some x)
    obtain p u where x: "x = (p, u)" by fastforce
    with Step.prems Some have "alone counting p (u, n) = Some (a, v, m)" by simp
    with Step.IH [of "g w" x p u n] rangeI [of g w] Some x show ?thesis by (simp add: Basic_BNFs.fsts.simps)
  qed (use Step.prems in simp)
next
  case (Exchange q k)
  then have "alone counting (k (Inr [])) (w, Suc n) = Some (a, v, m)" by (simp add: counting_def [of n q])
  with Exchange.IH [OF rangeI, of "Inr []" w "Suc n"] show ?case by simp
qed simp

abbreviation moves :: "(nat \<Rightarrow> srv_env) \<Rightarrow> 'a client_act \<times> client_world \<times> srv_net \<Rightarrow> 'a client_act \<times> client_world \<times> srv_net \<Rightarrow> bool" where
  "moves envs \<equiv> (\<lambda>x y. move envs (fst x) (snd x) (fst y) (snd y))\<^sup>*\<^sup>*"

text \<open>The steps of a program on its world, without exchanges.\<close>

inductive own_step :: "'a client_act \<times> client_world \<Rightarrow> 'a client_act \<times> client_world \<Rightarrow> bool" where
  "g w = Some (p, v) \<Longrightarrow> own_step (Step g, w) (p, v)"

lemma steps_alone:
  "alone counting p (w, n) = Some (a, v, n) \<Longrightarrow> own_step\<^sup>*\<^sup>* (andthen p f, w) (f a, v)"
proof (induction p arbitrary: w)
  case (Step g)
  show ?case
  proof (cases "g w")
    case (Some x)
    obtain p u where x: "x = (p, u)" by fastforce
    with Step.prems Some have run: "alone counting p (u, n) = Some (a, v, n)" by simp
    have "own_step (andthen (Step g) f, w) (andthen p f, u)"
      using Some x by (auto intro!: own_step.intros)
    moreover have "own_step\<^sup>*\<^sup>* (andthen p f, u) (f a, v)"
      using Step.IH [of "g w" x p u] rangeI [of g w] Some x run by (simp add: Basic_BNFs.fsts.simps)
    ultimately show ?thesis by (rule converse_rtranclp_into_rtranclp)
  qed (use Step.prems in simp)
next
  case (Exchange q k)
  then have "alone counting (k (Inr [])) (w, Suc n) = Some (a, v, n)" by (simp add: counting_def [of n q])
  from counting_grows [OF this] show ?case by simp
qed simp

lemma steps_moves: "own_step\<^sup>*\<^sup>* (p, w) (q, v) \<Longrightarrow> moves envs (p, w, net) (q, v, net)"
proof (induction "(q, v)" arbitrary: q v rule: rtranclp_induct)
  case (step y)
  obtain r u where y: "y = (r, u)" by fastforce
  have "move envs r (u, net) q (v, net)"
    using step.hyps(2) unfolding y by (cases rule: own_step.cases) (auto intro: move_step)
  with step.hyps(3) [OF y] show ?case by (simp add: rtranclp.rtrancl_into_rtrancl)
qed simp

lemma moves_alone:
  "alone counting p (w, n) = Some (a, v, n) \<Longrightarrow> moves envs (andthen p f, w, net) (f a, v, net)"
  by (rule steps_moves [OF steps_alone])

text \<open>Moves of one thread as steps of the system.\<close>

abbreviation at :: "client_world \<Rightarrow> srv_net \<Rightarrow> (stage \<times> turn) client_act \<Rightarrow> (stage \<times> (exn + unit)) client_act \<Rightarrow> fine" where
  "at w net p q \<equiv> \<lparr>f_world = w, f_net = net, f_main = p, f_pull = q, f_mutex = None\<rparr>"

text \<open>A move of a thread while the mutex is free, which it takes first if it has a request.\<close>

lemma main_move_runs:
  assumes "move envs p (w, net) p' (w', net')"
  shows "(fine_step cr envs)\<^sup>*\<^sup>* (at w net p q) (at w' net' p' q)"
proof (cases "asked p")
  case None
  with main_moves [of envs "at w net p q" p' w' net' cr] assms show ?thesis by (auto simp: may_move_def released_def)
next
  case (Some d)
  with assms have "length d < 23 + 2 ^ 32" by (auto elim: move.cases)
  with Some main_locks [of "at w net p q" d cr envs] have "fine_step cr envs (at w net p q) (at w net p q\<lparr>f_mutex := Some Main_thread\<rparr>)"
    by simp
  moreover have "fine_step cr envs (at w net p q\<lparr>f_mutex := Some Main_thread\<rparr>) (at w' net' p' q)"
    using main_moves [of envs "at w net p q\<lparr>f_mutex := Some Main_thread\<rparr>" p' w' net' cr] assms Some
    by (simp add: may_move_def released_def)
  ultimately show ?thesis by (meson r_into_rtranclp rtranclp.rtrancl_into_rtrancl)
qed

lemma pull_move_runs:
  assumes "move envs q (w, net) q' (w', net')"
  shows "(fine_step cr envs)\<^sup>*\<^sup>* (at w net p q) (at w' net' p q')"
proof (cases "asked q")
  case None
  with pull_moves [of envs "at w net p q" q' w' net' cr] assms show ?thesis by (auto simp: may_move_def released_def)
next
  case (Some d)
  with assms have "length d < 23 + 2 ^ 32" by (auto elim: move.cases)
  with Some pull_locks [of "at w net p q" d cr envs] have "fine_step cr envs (at w net p q) (at w net p q\<lparr>f_mutex := Some Pull_thread\<rparr>)"
    by simp
  moreover have "fine_step cr envs (at w net p q\<lparr>f_mutex := Some Pull_thread\<rparr>) (at w' net' p q')"
    using pull_moves [of envs "at w net p q\<lparr>f_mutex := Some Pull_thread\<rparr>" q' w' net' cr] assms Some
    by (simp add: may_move_def released_def)
  ultimately show ?thesis by (meson r_into_rtranclp rtranclp.rtrancl_into_rtrancl)
qed

lemma main_runs: "moves envs (p, w, net) (p', w', net') \<Longrightarrow> (fine_step cr envs)\<^sup>*\<^sup>* (at w net p q) (at w' net' p' q)"
proof (induction "(p', w', net')" arbitrary: p' w' net' rule: rtranclp_induct)
  case (step y)
  obtain r u n where y: "y = (r, u, n)" by (cases y)
  with step.hyps(2) have "(fine_step cr envs)\<^sup>*\<^sup>* (at u n r q) (at w' net' p' q)" by (simp add: main_move_runs)
  with step.hyps(3) [OF y] show ?case by (rule rtranclp_trans)
qed simp

lemma pull_runs: "moves envs (q, w, net) (q', w', net') \<Longrightarrow> (fine_step cr envs)\<^sup>*\<^sup>* (at w net p q) (at w' net' p q')"
proof (induction "(q', w', net')" arbitrary: q' w' net' rule: rtranclp_induct)
  case (step y)
  obtain r u n where y: "y = (r, u, n)" by (cases y)
  with step.hyps(2) have "(fine_step cr envs)\<^sup>*\<^sup>* (at u n p r) (at w' net' p q')" by (simp add: pull_move_runs)
  with step.hyps(3) [OF y] show ?case by (rule rtranclp_trans)
qed simp

section \<open>The runs with whole actions and responses are among them\<close>

text \<open>What is left of a turn and of a round once the exchange is over.\<close>

definition Main_rest :: "('sk, 'pk) crypto \<Rightarrow> exn + bytes \<Rightarrow> (stage \<times> turn) client_act" where
  "Main_rest cr r = (case r of Inl e \<Rightarrow> Done (Exchanging, Throw e)
     | Inr buffer \<Rightarrow> andthen (ResponseClientMain cr buffer) (\<lambda>r. Done (Handling, case r of Inl e \<Rightarrow> Throw e | Inr _ \<Rightarrow> Again)))"

definition Act_rest :: "('sk, 'pk) crypto \<Rightarrow> exn + bytes \<Rightarrow> (stage \<times> turn) client_act" where
  "Act_rest cr r = (case r of Inl e \<Rightarrow> Done (Acting, Throw e)
     | Inr data \<Rightarrow> if data = [] then Done (Acting, Again) else Exchange data (Main_rest cr))"

definition Pull_rest :: "('sk, 'pk) crypto \<Rightarrow> exn + bytes \<Rightarrow> (stage \<times> (exn + unit)) client_act" where
  "Pull_rest cr r = (case r of Inl e \<Rightarrow> Done (Exchanging, Inl e)
     | Inr buffer \<Rightarrow> andthen (Prints [lit ''Pulling waiting messages automatically:'' @ nl] ())
         (\<lambda>_. andthen (ResponseClientMain cr buffer) (\<lambda>r. Done (Handling, r))))"

text \<open>The program that a thread is left with when it has \<open>pending\<close> in its hands.\<close>

definition main_stands :: "('sk, 'pk) crypto \<Rightarrow> pending \<Rightarrow> (stage \<times> turn) client_act \<Rightarrow> bool" where
  "main_stands cr x p \<longleftrightarrow> (case x of
       Idle \<Rightarrow> (\<exists>st. p = Done (st, Again))
     | Request q \<Rightarrow> length q < 23 + 2 ^ 32 \<and> p = Exchange q (Main_rest cr)
     | Response r \<Rightarrow> p = Main_rest cr (Inr r)
     | Finished x \<Rightarrow> (\<exists>st. p = Done (st, x)))"

definition pull_stands :: "('sk, 'pk) crypto \<Rightarrow> pending \<Rightarrow> (stage \<times> (exn + unit)) client_act \<Rightarrow> bool" where
  "pull_stands cr x p \<longleftrightarrow> (case x of
       Idle \<Rightarrow> (\<exists>r. p = Done r)
     | Response r \<Rightarrow> p = Pull_rest cr (Inr r)
     | _ \<Rightarrow> False)"

definition stands :: "('sk, 'pk) crypto \<Rightarrow> srv_net threads \<Rightarrow> fine \<Rightarrow> bool" where
  "stands cr t u \<longleftrightarrow> f_world u = world t \<and> f_net u = network t \<and> f_mutex u = None
     \<and> main_stands cr (main_pending t) (f_main u) \<and> pull_stands cr (pull_pending t) (f_pull u)"

lemma Main_turn_runs:
  assumes "clientMenuMain w = Some (input, v)"
  shows "moves envs (Main_turn cr, w, net)
    (if input = Code_EXIT then Prints [lit ''Exiting client...'' @ nl] (Acting, Exit)
     else andthen (HandleMenuChoice cr input) (Act_rest cr), v, net)"
proof -
  let ?f = "\<lambda>input. if input = Code_EXIT then Prints [lit ''Exiting client...'' @ nl] (Acting, Exit)
     else andthen (HandleMenuChoice cr input) (Act_rest cr)"
  have turn: "Main_turn cr = andthen (partial clientMenuMain) ?f"
    unfolding Main_turn_def Act_rest_def [abs_def] Main_rest_def [abs_def] ..
  have "alone counting (partial clientMenuMain) (w, 0) = Some (input, v, 0)" using assms by simp
  from moves_alone [OF this, of envs ?f net] show ?thesis unfolding turn .
qed

lemma exits_runs: "moves envs (Prints bs a, w, net) (Done a, say (concat bs) w, net)"
  using moves_alone [of "Prints bs a" w 0 a "say (concat bs) w" envs Done net] by (simp add: alone_simps)

lemma action_runs:
  assumes "handleMenuChoice cr input v = Some (r, w)"
  shows "moves envs (andthen (HandleMenuChoice cr input) f, v, net) (f r, w, net)"
  by (rule moves_alone [where n = 0]) (simp add: alone_simps assms)

lemma response_runs:
  assumes "responseClientMain cr buffer v = (r, w)"
  shows "moves envs (andthen (ResponseClientMain cr buffer) f, v, net) (f r, w, net)"
  by (rule moves_alone [where n = 0]) (simp add: alone_simps assms)

text \<open>A round of a registered client up to its exchange.\<close>

lemma Pull_round_asks:
  assumes "hasClientID (ctx w)"
  shows "own_step\<^sup>*\<^sup>* (Pull_round cr, w)
    (Exchange (createBuffer (Message_no_payload (clientID (ctx w)) Code_REQUEST_WAITING_MESSAGES)) (Pull_rest cr), w)"
proof -
  have round: "Pull_round cr = andthen (look (\<lambda>w. hasClientID (ctx w))) (\<lambda>registered. if \<not> registered then Done (Acting, Inr ())
      else andthen (look (\<lambda>w. createBuffer (Message_no_payload (clientID (ctx w)) Code_REQUEST_WAITING_MESSAGES)))
        (\<lambda>data. Exchange data (Pull_rest cr)))"
    unfolding Pull_round_def Pull_rest_def [abs_def] ..
  show ?thesis
    unfolding round
    by (rule rtranclp_trans [OF steps_alone [where n = 0 and a = True and v = w]])
       (use assms in \<open>auto intro: steps_alone [where n = 0]\<close>)
qed

text \<open>One step of the coarse system is a run of the interleaving.\<close>

lemma stands_thread_step:
  assumes "thread_step cr (loopback envs) t v" and "below_4G v" and "world_wf (world t)" and "stands cr t u"
  shows "\<exists>u'. (fine_step cr envs)\<^sup>*\<^sup>* u u' \<and> stands cr v u'"
proof -
  obtain p q where u: "u = at (world t) (network t) p q" and p: "main_stands cr (main_pending t) p" and q: "pull_stands cr (pull_pending t) q"
    using assms(4) by (cases u) (simp add: stands_def)
  have again: "fine_step cr envs u (at (world t) (network t) (Main_turn cr) q)" if "main_pending t = Idle"
    using that p main_again [of u _ cr envs] by (auto simp: u main_stands_def)
  have by_main: ?thesis
    if "moves envs (x, world t, network t) (p', world v, network v)" "x = p \<or> main_pending t = Idle \<and> x = Main_turn cr"
      "main_stands cr (main_pending v) p'" "pull_pending v = pull_pending t" for x p'
  proof (intro exI conjI)
    have "(fine_step cr envs)\<^sup>*\<^sup>* u (at (world t) (network t) x q)" using that(2) again by (auto simp: u)
    from rtranclp_trans [OF this main_runs [OF that(1)]]
    show "(fine_step cr envs)\<^sup>*\<^sup>* u (at (world v) (network v) p' q)" .
    show "stands cr v (at (world v) (network v) p' q)" using that(3,4) q by (simp add: stands_def)
  qed
  have by_pull: ?thesis
    if "(fine_step cr envs)\<^sup>*\<^sup>* (at (world t) (network t) p q) (at (world t) (network t) p x)"
      "moves envs (x, world t, network t) (q', world v, network v)" "pull_stands cr (pull_pending v) q'"
      "main_pending v = main_pending t" for x q'
  proof (intro exI conjI)
    show "(fine_step cr envs)\<^sup>*\<^sup>* u (at (world v) (network v) p q')"
      using rtranclp_trans [OF that(1) pull_runs [OF that(2)]] by (simp add: u)
    show "stands cr v (at (world v) (network v) p q')" using that(3,4) p by (simp add: stands_def)
  qed
  note run = rtranclp_trans [OF Main_turn_runs [where cr = cr and net = "network t" and envs = envs]]
  from assms(1) show ?thesis
  proof cases
    case (main_act input v' data w)
    show ?thesis
    proof (rule by_main [OF run [OF main_act(3)]])
      show "moves envs (if input = Code_EXIT then Prints [lit ''Exiting client...'' @ nl] (Acting, Exit)
          else andthen (HandleMenuChoice cr input) (Act_rest cr), v', network t) (Act_rest cr (Inr data), world v, network v)"
        using action_runs [OF main_act(5), of envs "Act_rest cr"] main_act(4) by (simp add: main_act(1))
    qed (use assms(2) in \<open>auto simp: main_act(1,2) main_stands_def below_4G_def Act_rest_def\<close>)
  next
    case (main_throw input v' e w)
    show ?thesis
    proof (rule by_main [OF run [OF main_throw(3)]])
      show "moves envs (if input = Code_EXIT then Prints [lit ''Exiting client...'' @ nl] (Acting, Exit)
          else andthen (HandleMenuChoice cr input) (Act_rest cr), v', network t) (Act_rest cr (Inl e), world v, network v)"
        using action_runs [OF main_throw(5), of envs "Act_rest cr"] main_throw(4) by (simp add: main_throw(1))
    qed (simp_all add: main_throw(1,2) main_stands_def Act_rest_def)
  next
    case (main_exit v')
    show ?thesis
    proof (rule by_main [OF run [OF main_exit(3)]])
      show "moves envs (if Code_EXIT = Code_EXIT then Prints [lit ''Exiting client...'' @ nl] (Acting, Exit)
          else andthen (HandleMenuChoice cr Code_EXIT) (Act_rest cr), v', network t) (Done (Acting, Exit), world v, network v)"
        using exits_runs [of envs "[lit ''Exiting client...'' @ nl]"] by (simp add: main_exit(1))
    qed (simp_all add: main_exit(1,2) main_stands_def)
  next
    case (main_exchange data r net)
    have "move envs p (world t, network t) (Main_rest cr r) (world t, net)"
      using p main_exchange by (auto simp: main_stands_def intro: move_exchange)
    then show ?thesis
      by (intro by_main [of p "Main_rest cr r"] r_into_rtranclp)
         (auto simp: main_exchange(1) main_stands_def Main_rest_def split: sum.split)
  next
    case (main_handle buffer r w)
    let ?fin = "\<lambda>r. Done (Handling, case r of Inl e \<Rightarrow> Throw e | Inr _ \<Rightarrow> Again) :: (stage \<times> turn) client_act"
    have p: "p = andthen (ResponseClientMain cr buffer) ?fin"
      using p main_handle(2) by (simp add: main_stands_def Main_rest_def)
    show ?thesis
    proof (rule by_main)
      show "moves envs (p, world t, network t) (?fin r, world v, network v)"
        using response_runs [OF main_handle(3), of envs ?fin] by (simp add: p main_handle(1))
    qed (auto simp: main_handle(1) main_stands_def split: sum.split)
  next
    case (pull_exchange r net)
    let ?q = "createBuffer (Message_no_payload (clientID (ctx (world t))) Code_REQUEST_WAITING_MESSAGES)"
    have idle: "\<exists>x. q = Done x" using q pull_exchange(2) by (simp add: pull_stands_def)
    have "moves envs (Pull_round cr, world t, network t) (Exchange ?q (Pull_rest cr), world t, network t)"
      by (rule steps_moves [OF Pull_round_asks [OF pull_exchange(3)]])
    moreover have "move envs (Exchange ?q (Pull_rest cr)) (world t, network t) (Pull_rest cr r) (world t, net)"
      using pull_exchange(4) world_wf_id [OF assms(3)]
      by (intro move_exchange) (simp_all add: length_createBuffer Message_no_payload_def)
    ultimately have "moves envs (Pull_round cr, world t, network t) (Pull_rest cr r, world t, net)"
      by (simp add: rtranclp.rtrancl_into_rtrancl)
    moreover have "fine_step cr envs (at (world t) (network t) p q) (at (world t) (network t) p (Pull_round cr))"
      using idle pull_again [of "at (world t) (network t) p q" _ cr envs] by auto
    ultimately show ?thesis
      by (intro by_pull [OF r_into_rtranclp, of "Pull_round cr" "Pull_rest cr r"])
         (auto simp: pull_exchange(1) pull_stands_def Pull_rest_def split: sum.split)
  next
    case (pull_handle buffer r w)
    have "q = Pull_rest cr (Inr buffer)" using q pull_handle(2) by (simp add: pull_stands_def)
    moreover have "moves envs (Pull_rest cr (Inr buffer), world t, network t) (Done (Handling, r), world v, network v)"
      unfolding Pull_rest_def sum.case
      by (rule rtranclp_trans [OF moves_alone [where n = 0 and a = "()" and v = "say (lit ''Pulling waiting messages automatically:'' @ nl) (world t)"]])
         (use response_runs [OF pull_handle(3)] in \<open>simp_all add: alone_simps pull_handle(1)\<close>)
    ultimately show ?thesis
      by (intro by_pull [of q "Done (Handling, r)"]) (auto simp: pull_handle(1) pull_stands_def)
  qed
qed

lemma stands_sys_step:
  assumes "sys_step cr envs t v" and "world_wf (world t)" and "stands cr t u"
  shows "\<exists>u'. (fine_step cr envs)\<^sup>*\<^sup>* u u' \<and> stands cr v u'"
  using assms(1)
proof cases
  case client
  with assms(2,3) show ?thesis by (simp add: stands_thread_step)
next
  case (other q r d)
  have "fine_step cr envs u (u\<lparr>f_net := (f_net u)\<lparr>sdb := d, turns := Suc (turns (f_net u))\<rparr>\<rparr>)"
    by (rule fine_step.others) (use assms(3) other(2) in \<open>simp add: stands_def\<close>)
  moreover have "stands cr v (u\<lparr>f_net := (f_net u)\<lparr>sdb := d, turns := Suc (turns (f_net u))\<rparr>\<rparr>)"
    using assms(3) by (simp add: stands_def other(1))
  ultimately show ?thesis by blast
qed

lemma stands_runs:
  assumes "(sys_step cr envs)\<^sup>*\<^sup>* t v" and "world_wf (world t)" and "stands cr t u"
  shows "\<exists>u'. (fine_step cr envs)\<^sup>*\<^sup>* u u' \<and> stands cr v u' \<and> world_wf (world v)"
  using assms
proof (induction rule: rtranclp_induct)
  case (step v x)
  then obtain u' where u': "(fine_step cr envs)\<^sup>*\<^sup>* u u'" "stands cr v u'" "world_wf (world v)" by blast
  from stands_sys_step [OF step.hyps(2) u'(3,2)] rtranclp_trans [OF u'(1)] show ?case
    using sys_step_keeps [OF step.hyps(2)] u'(3) by (auto simp: keeps_def)
qed blast

definition fine_of :: "srv_net threads \<Rightarrow> fine" where
  "fine_of t = at (world t) (network t) (Done (Acting, Again)) (Done (Acting, Inr ()))"

lemma stands_fine_of: "sys_start t \<Longrightarrow> stands cr t (fine_of t)"
  by (simp add: sys_start_def stands_def fine_of_def main_stands_def pull_stands_def)

end
