(* ===== verification/Name_Race.thy ===== *)
theory Name_Race
  imports Coarse_Runs Crossed_Keys
begin

text \<open>
  A race of the two threads on the cache. Where a client that is not in the cache is entered with an
  empty name, the check and the entry are two calls; between them the other thread can enter it with
  the name of the clients list, which the entry then erases.
\<close>

section \<open>The pull thread at the check\<close>

lemma moves_Prints:
  "moves envs (f a, say (concat bs) w, net) x \<Longrightarrow> moves envs (andthen (Prints bs a) f, w, net) x"
  by (rule rtranclp_trans [OF moves_alone [where n = 0]]) (simp_all add: alone_simps)

lemma moves_look: "moves envs (f (g w), w, net) x \<Longrightarrow> moves envs (andthen (look g) f, w, net) x"
  by (rule rtranclp_trans [OF moves_alone [where n = 0]]) (simp_all add: alone_simps)

lemma moves_change: "moves envs (f (), h w, net) x \<Longrightarrow> moves envs (andthen (change h) f, w, net) x"
  by (rule rtranclp_trans [OF moves_alone [where n = 0]]) (simp_all add: alone_simps)

lemmas moves_then = moves_Prints moves_look moves_change

text \<open>What the pull thread still has to do once it found the sender of a key missing from the cache.\<close>

definition Enter_and_store :: "bytes \<Rightarrow> bytes \<Rightarrow> (stage \<times> (exn + unit)) client_act" where
  "Enter_and_store i k =
     andthen (change (upd_ctx (setFriendBase i []))) (\<lambda>_.
     andthen (change (upd_ctx (setFriendSymmetricKey i k))) (\<lambda>_.
     andthen (Prints [lit ''symmetric key received'' @ nl] ()) (\<lambda>_.
     andthen (Prints [lit ''-----<EOM>-----'' @ nl @ nl] ()) (\<lambda>_. Done (Handling, Inr ())))))"

lemma key_row_response:
  assumes "row_ok (n, i, 2, c)"
  shows "ResponseClientMain cr (response_bytes 2104 (encode_row (n, i, 2, c))) =
    andthen (look (\<lambda>w. privateKey (ctx w))) (\<lambda>privKey.
      case RSAPrivateWrapper_load cr privKey of Inl e \<Rightarrow> Done (Inl e) | Inr sk \<Rightarrow>
      andthen (ShowRecord cr sk i 2 c) (\<lambda>_. Done (Inr ())))"
proof -
  let ?r = "response_bytes 2104 (encode_row (n, i, 2, c))"
  have row: "length i = 16" "n < 2 ^ 32" "length c < 2 ^ 32" using assms by (simp_all add: row_ok_def)
  have enc: "encode_row (n, i, 2, c) = i @ le_bytes 4 n @ [2] @ le_bytes 4 (length c) @ c"
    by (simp add: encode_row_def le_bytes_1)
  have len: "length ?r = 32 + length c" using row by (simp add: length_response length_encode_row)
  have cid: "readClientID ?r 7 = Inr i" using row len by (simp add: readClientID_def bslice_response enc bslice_append)
  have d7: "drop 7 ?r = encode_row (n, i, 2, c)" by (rule drop_response)
  have "?r ! 27 = (drop 7 ?r) ! 20" by (simp add: len)
  also have "\<dots> = encode_row (n, i, 2, c) ! 20" by (simp only: d7)
  also have "\<dots> = 2" unfolding enc using row by (simp add: nth_append length_le_bytes)
  finally have ty: "?r ! 27 = 2" .
  have "drop 28 ?r = drop 21 (drop 7 ?r)" by simp
  also have "\<dots> = drop 21 (encode_row (n, i, 2, c))" by (simp only: d7)
  also have "\<dots> = le_bytes 4 (length c) @ c" unfolding enc using row by (simp add: length_le_bytes)
  finally have d28: "drop 28 ?r = le_bytes 4 (length c) @ c" .
  have "le_bytes 4 (length c) = appendUint32LE [] (of_nat (length c))" by (rule le_bytes_of_nat_u32 [OF row(3)])
  with d28 have n: "readUint32LE ?r 28 = Inr (of_nat (length c))"
    using readUint32LE_le32 [of 28 ?r] le32_append [of "of_nat (length c)" c] len by simp
  have "drop 32 ?r = drop 4 (drop 28 ?r)" by simp
  then have content: "bslice 32 (length c) ?r = c" unfolding bslice_def d28 by (simp add: length_le_bytes)
  have last: "WaitingMessages_loop cr sk ?r (32 + length c) = Done (Inr ())" for sk
    by (simp add: WaitingMessages_loop.simps [of cr sk ?r "32 + length c"] len)
  have "WaitingMessages_loop cr sk ?r 7 = andthen (ShowRecord cr sk i 2 c) (\<lambda>_. Done (Inr ()))" for sk
    using row(3) last [of sk]
    by (simp add: WaitingMessages_loop.simps [of cr sk ?r 7] len cid ty n content Let_def unat_of_nat)
  then show ?thesis
    by (simp add: ResponseClientMain_def responseCode_bytes len ResponseWaitingMessages_def cong: sum.case_cong)
qed

lemma key_record:
  assumes "RSAPrivateWrapper_decrypt cr sk c = Inr k" and "length k = 16"
  shows "ShowRecord cr sk i 2 c =
    andthen (look (\<lambda>w. displayName (ctx w) i)) (\<lambda>nm.
    andthen (Prints [lit ''From: '', nm, nl, lit ''Content:'' @ nl] ()) (\<lambda>_.
    andthen (look (\<lambda>w. tryGetFriendCopy (ctx w) i)) (\<lambda>frOpt.
    andthen (if frOpt = None then change (upd_ctx (setFriendBase i [])) else Done ()) (\<lambda>_.
    andthen (change (upd_ctx (setFriendSymmetricKey i k))) (\<lambda>_.
    andthen (Prints [lit ''symmetric key received'' @ nl] ()) (\<lambda>_.
    Prints [lit ''-----<EOM>-----'' @ nl @ nl] ()))))))"
  by (simp add: ShowRecord_def HandleSymmetricKeyMessage_def Known_def assms andthen_andthen)

lemma pull_up_to_check:
  assumes "row_ok (n, i, 2, c)" and "RSAPrivateWrapper_load cr (privateKey (ctx w)) = Inr sk"
    and "RSAPrivateWrapper_decrypt cr sk c = Inr k" and "length k = 16" and "tryGetFriendCopy (ctx w) i = None"
  obtains v where "moves envs (Pull_rest cr (Inr (response_bytes 2104 (encode_row (n, i, 2, c)))), w, net)
      (Enter_and_store i k, v, net)" and "ctx v = ctx w"
proof
  let ?u = "say (concat [lit ''Pulling waiting messages automatically:'' @ nl]) w"
  let ?v = "say (concat [lit ''From: '', displayName (ctx ?u) i, nl, lit ''Content:'' @ nl]) ?u"
  let ?r = "response_bytes 2104 (encode_row (n, i, 2, c))"
  show "ctx ?v = ctx w" by simp
  have shown: "moves envs (andthen (ShowRecord cr sk i 2 c) (\<lambda>_. Done (Handling, Inr ())), ?u, net) (Enter_and_store i k, ?v, net)"
    unfolding key_record [OF assms(3,4)] andthen_andthen
    by (intro moves_then) (simp add: assms(5) Enter_and_store_def)
  show "moves envs (Pull_rest cr (Inr ?r), w, net) (Enter_and_store i k, ?v, net)"
    unfolding Pull_rest_def sum.case key_row_response [OF assms(1)] andthen_andthen
  proof (intro moves_then)
    show "moves envs (andthen (case RSAPrivateWrapper_load cr (privateKey (ctx ?u)) of Inl e \<Rightarrow> Done (Inl e)
        | Inr sk \<Rightarrow> andthen (ShowRecord cr sk i 2 c) (\<lambda>_. Done (Inr ()))) (\<lambda>r. Done (Handling, r)), ?u, net) (Enter_and_store i k, ?v, net)"
      using shown assms(2) by (simp add: andthen_andthen)
  qed
qed

lemma enter_and_store_runs:
  obtains v' where "moves envs (Enter_and_store i k, v, net) (Done (Handling, Inr ()), v', net)"
    and "ctx v' = setFriendSymmetricKey i k (setFriendBase i [] (ctx v))"
proof
  let ?v = "say (concat [lit ''-----<EOM>-----'' @ nl @ nl]) (say (concat [lit ''symmetric key received'' @ nl])
    (upd_ctx (setFriendSymmetricKey i k) (upd_ctx (setFriendBase i []) v)))"
  show "moves envs (Enter_and_store i k, v, net) (Done (Handling, Inr ()), ?v, net)"
    unfolding Enter_and_store_def by (intro moves_then rtranclp.rtrancl_refl)
  show "ctx ?v = setFriendSymmetricKey i k (setFriendBase i [] (ctx v))" by simp
qed

section \<open>The main thread at the same time\<close>

text \<open>Both responses have arrived: the clients list at the main thread and the key at the pull thread.
  The list can be handled between the check and the entry, or before them.\<close>

lemma privateKey_fold: "privateKey (fold (\<lambda>e. setFriendBase (fst e) (snd e)) es c) = privateKey c"
  by (induction es arbitrary: c) simp_all

lemma both_orders:
  assumes "fits [(n, i, 2, c)]" and "RSAPrivateWrapper_load cr (privateKey (ctx w)) = Inr sk"
    and "RSAPrivateWrapper_decrypt cr sk c = Inr k" and "length k = 16" and "tryGetFriendCopy (ctx w) i = None"
    and "\<forall>x\<in>set es. entry_ok x" and "distinct (map fst es)" and "(i, nm) \<in> set es"
    and "main = Main_rest cr (Inr (response_bytes 2101 (concat (map client_list_entry es))))"
    and "pull = Pull_rest cr (Inr (response_bytes 2104 (encode_row (n, i, 2, c))))"
  shows "\<exists>v f. (fine_step cr envs)\<^sup>*\<^sup>* (at w net main pull) (at v net (Done (Handling, Again)) (Done (Handling, Inr ())))
      \<and> tryGetFriendCopy (ctx v) i = Some f \<and> friendName f = [] \<and> symmetricKey f = Some k"
    and "\<exists>v f. (fine_step cr envs)\<^sup>*\<^sup>* (at w net main pull) (at v net (Done (Handling, Again)) (Done (Handling, Inr ())))
      \<and> tryGetFriendCopy (ctx v) i = Some f \<and> friendName f = take 254 nm \<and> symmetricKey f = Some k"
proof -
  let ?v = "map entry_view es"
  have row: "row_ok (n, i, 2, c)" using assms(1) by (simp add: fits_def)
  have d: "distinct (map fst ?v)" using assms(7) by (simp add: entry_view_def comp_def)
  have inv: "(i, take 254 nm) \<in> set ?v" using assms(8) by (force simp: entry_view_def)
  have list: "moves envs (main, x, net) (Done (Handling, Again), fold learn ?v x, net)" for x
    using response_runs [OF client_learns_entries [OF assms(6), of cr x], of envs
        "\<lambda>r. Done (Handling, case r of Inl e \<Rightarrow> Throw e | Inr _ \<Rightarrow> Again)" net]
    by (simp add: assms(9) Main_rest_def)
  have learnt: "\<exists>f. tryGetFriendCopy (ctx (fold learn ?v x)) i = Some f \<and> friendName f = take 254 nm" for x
    using fold_setFriendBase_in [OF d inv, of "ctx x"] by (auto simp: fold_learn_ctx)
  show "\<exists>v f. (fine_step cr envs)\<^sup>*\<^sup>* (at w net main pull) (at v net (Done (Handling, Again)) (Done (Handling, Inr ())))
      \<and> tryGetFriendCopy (ctx v) i = Some f \<and> friendName f = [] \<and> symmetricKey f = Some k"
  proof -
    obtain w1 where w1: "moves envs (pull, w, net) (Enter_and_store i k, w1, net)"
      unfolding assms(10) by (rule pull_up_to_check [OF row assms(2-5)])
    let ?w2 = "fold learn ?v w1"
    obtain v where v: "moves envs (Enter_and_store i k, ?w2, net) (Done (Handling, Inr ()), v, net)"
      "ctx v = setFriendSymmetricKey i k (setFriendBase i [] (ctx ?w2))" by (rule enter_and_store_runs)
    have "(fine_step cr envs)\<^sup>*\<^sup>* (at w net main pull) (at v net (Done (Handling, Again)) (Done (Handling, Inr ())))"
      by (rule rtranclp_trans [OF pull_runs [OF w1] rtranclp_trans [OF main_runs [OF list] pull_runs [OF v(1)]]])
    then show ?thesis using v(2) by (auto simp: ctx_simps)
  qed
  show "\<exists>v f. (fine_step cr envs)\<^sup>*\<^sup>* (at w net main pull) (at v net (Done (Handling, Again)) (Done (Handling, Inr ())))
      \<and> tryGetFriendCopy (ctx v) i = Some f \<and> friendName f = take 254 nm \<and> symmetricKey f = Some k"
  proof -
    let ?w1 = "fold learn ?v w" and ?m = "lit ''Pulling waiting messages automatically:'' @ nl"
    obtain f where f: "tryGetFriendCopy (ctx ?w1) i = Some f" "friendName f = take 254 nm" using learnt by blast
    have "privateKey (ctx ?w1) = privateKey (ctx w)" unfolding fold_learn_ctx by (rule privateKey_fold)
    then have load: "RSAPrivateWrapper_load cr (privateKey (ctx (say ?m ?w1))) = Inr sk" using assms(2) by simp
    let ?u = "showRecord cr sk i 2 c (say ?m ?w1)"
    have "responseClientMain cr (response_bytes 2104 (encode_row (n, i, 2, c))) (say ?m ?w1) = (Inr (), ?u)"
      using client_shows_rows [OF assms(1) _ load] by (simp add: showAll_def row_view_def)
    then have "moves envs (pull, ?w1, net) (Done (Handling, Inr ()), ?u, net)"
      unfolding assms(10) Pull_rest_def sum.case
      by (intro moves_Prints) (use response_runs [of cr _ "say ?m ?w1"] in simp)
    from rtranclp_trans [OF main_runs [OF list] pull_runs [OF this]]
    have "(fine_step cr envs)\<^sup>*\<^sup>* (at w net main pull) (at ?u net (Done (Handling, Again)) (Done (Handling, Inr ())))" .
    moreover have "ctx ?u = setFriendSymmetricKey i k (ctx ?w1)"
      using show_key [of cr sk c k i "say ?m ?w1"] f(1) assms(3,4) by (simp add: RSAPrivateWrapper_decrypt_def)
    ultimately show ?thesis using f by (auto simp: ctx_simps)
  qed
qed

section \<open>From the start\<close>

text \<open>The main thread asks for the clients list, the pull thread for the waiting messages, and both are
  answered before either response is handled.\<close>

lemma both_asked:
  assumes "world_wf w" and "clientID (ctx w) = a" and "hasClientID (ctx w)" and "cin w = lit ''120'' # rest"
    and "db_ok d" and "a \<in> c_id ` set (clients d)" and "271 * length (other_clients a d) < 2 ^ 32"
    and "fetch_rows d a = rows" and "fits rows"
    and "\<And>m. db_ready (envs m)" and "length rows \<le> max_vars (envs (Suc 0))"
  obtains v net where
    "(fine_step cr envs)\<^sup>*\<^sup>* (at w \<lparr>sdb = d, inbox = [], turns = 0\<rparr> (Done (Acting, Again)) (Done (Acting, Inr ())))
       (at v net (Main_rest cr (Inr (response_bytes 2101 (concat (map client_list_entry (other_clients a d))))))
         (Pull_rest cr (Inr (response_bytes 2104 (concat (map encode_row rows))))))" and "same_but_console w v"
proof -
  let ?r1 = "response_bytes 2101 (concat (map client_list_entry (other_clients a d)))"
    and ?r2 = "response_bytes 2104 (concat (map encode_row rows))"
    and ?n0 = "\<lparr>sdb = d, inbox = [], turns = 0\<rparr>" and ?q1 = "request_bytes a 701 []" and ?q2 = "request_bytes a 704 []"
  have a: "length a = 16" using world_wf_id [OF assms(1)] assms(2) by simp
  obtain v where v: "clientMenuMain w = Some (120, v)" "same_but_console w v"
    using menu.run_accept [of w "lit ''120''" rest] option_120 assms(4) by auto
  note ctx = same_but_console_fields(1) [OF v(2)]
  have act: "handleMenuChoice cr 120 v = Some (Inr ?q1, v)"
    using a assms(2) by (simp add: handleMenuChoice_def handleClientList_def empty_request ctx)
  let ?t0 = "\<lparr>world = w, network = ?n0, main_pending = Idle, pull_pending = Idle\<rparr>"
  let ?t1 = "\<lparr>world = v, network = ?n0, main_pending = Request ?q1, pull_pending = Idle\<rparr>"
  have ne: "?q1 \<noteq> []" by (simp add: request_bytes_def)
  have "sys_step cr envs ?t0 (?t0\<lparr>world := v, main_pending := (if ?q1 = [] then Idle else Request ?q1)\<rparr>)"
    by (rule sys_step.client, rule main_act [OF _ _ _ act]) (use v(1) a in \<open>simp_all add: below_4G_def request_bytes_fields\<close>)
  then have s1: "sys_step cr envs ?t0 ?t1" using ne by simp
  let ?d1 = "touched (now (envs 0)) a d" and ?n1 = "\<lparr>sdb = touched (now (envs 0)) a d, inbox = [], turns = Suc 0\<rparr>"
  note srv1 = clients_list_run [OF a assms(10) assms(6,7,5), of 0]
  have ok1: "response_ok ?r1" by (rule response_ok_request [of "envs 0" ?q1 d]) (use srv1 in simp)
  have ex1: "sendAndReceive (loopback envs) ?q1 (network ?t1) = (Inr ?r1, ?n1)"
    using exchange [of ?q1 ?n0 envs ?r1 ?d1] srv1 ok1 a by (simp add: whole_request_bytes)
  let ?t2 = "\<lparr>world = v, network = ?n1, main_pending = Response ?r1, pull_pending = Idle\<rparr>"
  have s2: "sys_step cr envs ?t1 ?t2"
    using sys_step.client [OF main_exchange [OF _ ex1, of cr]] by (simp add: below_4G_def)
  have "a \<in> c_id ` set (clients ?d1)" using assms(6) touched_keeps by simp
  then have srv2: "\<exists>d2. request_handler_main (envs (Suc 0)) ?q2 ?d1 = (Inr ?r2, d2)"
    using waiting_run [OF a assms(10), of ?d1 "Suc 0"] assms(8,9,11) by (simp add: fetch_rows_touched)
  then obtain d2 where d2: "request_handler_main (envs (Suc 0)) ?q2 ?d1 = (Inr ?r2, d2)" by blast
  then have ok2: "response_ok ?r2" using response_ok_request [of "envs (Suc 0)" ?q2 ?d1 "response_ok ?r2"] by simp
  from d2 have ex2: "sendAndReceive (loopback envs) ?q2 ?n1 = (Inr ?r2, ?n1\<lparr>sdb := d2, turns := Suc (Suc 0)\<rparr>)"
    using exchange [of ?q2 ?n1 envs ?r2 d2] ok2 a by (simp add: whole_request_bytes)
  let ?t3 = "\<lparr>world = v, network = ?n1\<lparr>sdb := d2, turns := Suc (Suc 0)\<rparr>, main_pending = Response ?r1, pull_pending = Response ?r2\<rparr>"
  have s3: "sys_step cr envs ?t2 ?t3"
    using sys_step.client [OF pull_exchange [where t = ?t2 and cr = cr and io = "loopback envs" and r = "Inr ?r2"]] ex2 a assms(2,3)
    by (simp add: below_4G_def ctx empty_request)
  have "(sys_step cr envs)\<^sup>*\<^sup>* ?t0 ?t3" using s1 s2 s3 by (meson r_into_rtranclp rtranclp.rtrancl_into_rtrancl)
  moreover have "sys_start ?t0" using assms(1,5) by (simp add: sys_start_def)
  ultimately obtain u where u: "(fine_step cr envs)\<^sup>*\<^sup>* (fine_of ?t0) u" "stands cr ?t3 u"
    using stands_runs [OF _ _ stands_fine_of, of cr envs ?t0 ?t3] assms(1) by auto
  show thesis
    by (rule that [OF _ v(2)], use u in \<open>cases u\<close>) (simp add: fine_of_def stands_def main_stands_def pull_stands_def)
qed

text \<open>Both threads done, and what the cache has for \<open>i\<close>.\<close>

definition ends_knowing :: "bytes \<Rightarrow> bytes \<Rightarrow> bytes \<Rightarrow> fine \<Rightarrow> bool" where
  "ends_knowing i nm k u \<longleftrightarrow> f_main u = Done (Handling, Again) \<and> f_pull u = Done (Handling, Inr ())
     \<and> (\<exists>f. tryGetFriendCopy (ctx (f_world u)) i = Some f \<and> friendName f = nm \<and> symmetricKey f = Some k)"

text \<open>C12: the name a client was just listed under can be lost. Alice asks for the clients list while a key
  that Bob sent her waits at the server; Bob is registered but not yet in her cache. If the pull thread
  has checked that Bob is unknown when the main thread handles the list, it then enters him with an empty
  name, over the listed one: both threads end without an error, and Bob cannot be found by his name.
  If the list is handled before the key, his name stays.\<close>

lemma listed_name_lost:
  assumes "world_wf w" and "clientID (ctx w) = a" and "hasClientID (ctx w)" and "cin w = lit ''120'' # rest"
    and "db_ok d" and "a \<in> c_id ` set (clients d)" and "271 * length (other_clients a d) < 2 ^ 32"
    and "row \<in> set (clients d)" and "c_id row = b" and "b \<noteq> a" and "tryGetFriendCopy (ctx w) b = None"
    and "fetch_rows d a = [(n, b, 2, c)]" and "fits [(n, b, 2, c)]"
    and "RSAPrivateWrapper_load cr (privateKey (ctx w)) = Inr sk" and "RSAPrivateWrapper_decrypt cr sk c = Inr k" and "length k = 16"
    and "\<And>m. srv_ready (envs m)"
    and "t = at w \<lparr>sdb = d, inbox = [], turns = 0\<rparr> (Done (Acting, Again)) (Done (Acting, Inr ()))"
  shows "(\<exists>u. (fine_step cr envs)\<^sup>*\<^sup>* t u \<and> ends_knowing b [] k u
        \<and> tryGetFriendIdByName (ctx (f_world u)) (take 254 (c_name row)) \<noteq> Some b)
    \<and> (\<exists>u. (fine_step cr envs)\<^sup>*\<^sup>* t u \<and> ends_knowing b (take 254 (c_name row)) k u)"
proof -
  let ?es = "other_clients a d" and ?nm = "take 254 (c_name row)"
  have ready: "db_ready (envs m)" "env_ok (envs m)" "1 \<le> max_vars (envs m)" for m
    using assms(17) [of m] by (simp_all add: srv_ready_def)
  obtain v net where v: "(fine_step cr envs)\<^sup>*\<^sup>* t (at v net (Main_rest cr (Inr (response_bytes 2101 (concat (map client_list_entry ?es)))))
         (Pull_rest cr (Inr (response_bytes 2104 (encode_row (n, b, 2, c))))))" "same_but_console w v"
    using both_asked [OF assms(1-7,12,13), of envs cr thesis] ready assms(18) by simp
  have "ctx v = ctx w" by (rule same_but_console_fields(1) [OF v(2)])
  then have here: "RSAPrivateWrapper_load cr (privateKey (ctx v)) = Inr sk" "tryGetFriendCopy (ctx v) b = None"
    using assms(11,14) by simp_all
  have es: "\<forall>x\<in>set ?es. entry_ok x" using entry_ok_other [OF assms(5)] by blast
  have "map fst ?es = filter (\<lambda>i. i \<noteq> a) (map c_id (clients d))" by (simp add: other_clients_def filter_map comp_def)
  then have dist: "distinct (map fst ?es)" using db_okD(1) [OF assms(5)] by simp
  have inb: "(b, c_name row) \<in> set ?es" using assms(8-10) by (force simp: other_clients_def)
  note orders = both_orders [OF assms(13) here(1) assms(15,16) here(2) es dist inb refl refl, of envs net]
  have nm: "?nm \<noteq> []" using db_okD(3) [OF assms(5,8)] by (simp add: client_row_ok_def)
  have start: "fine_start t" using assms(1,5,18) by (simp add: fine_start_def)
  show ?thesis
  proof
    obtain x f where x: "(fine_step cr envs)\<^sup>*\<^sup>* t (at x net (Done (Handling, Again)) (Done (Handling, Inr ())))"
      "tryGetFriendCopy (ctx x) b = Some f" "friendName f = []" "symmetricKey f = Some k"
      using orders(1) rtranclp_trans [OF v(1)] by blast
    have "world_wf x" using fine_reach(1) [OF x(1) _ start, of False] ready by (simp add: fine_inv_def holds_def)
    then have "tryGetFriendIdByName (ctx x) ?nm \<noteq> Some b"
      using tryGetFriendIdByName_Some [of "ctx x" ?nm b] x(2,3) nm by (auto simp: world_wf_def)
    moreover have "ends_knowing b [] k (at x net (Done (Handling, Again)) (Done (Handling, Inr ())))"
      using x by (simp add: ends_knowing_def)
    ultimately show "\<exists>u. (fine_step cr envs)\<^sup>*\<^sup>* t u \<and> ends_knowing b [] k u \<and> tryGetFriendIdByName (ctx (f_world u)) ?nm \<noteq> Some b"
      using x(1) by (intro exI [of _ "at x net (Done (Handling, Again)) (Done (Handling, Inr ()))"]) simp
    obtain x f where x: "(fine_step cr envs)\<^sup>*\<^sup>* t (at x net (Done (Handling, Again)) (Done (Handling, Inr ())))"
      "tryGetFriendCopy (ctx x) b = Some f" "friendName f = ?nm" "symmetricKey f = Some k"
      using orders(2) rtranclp_trans [OF v(1)] by blast
    then have "ends_knowing b ?nm k (at x net (Done (Handling, Again)) (Done (Handling, Inr ())))"
      by (simp add: ends_knowing_def)
    with x(1) show "\<exists>u. (fine_step cr envs)\<^sup>*\<^sup>* t u \<and> ends_knowing b ?nm k u" by blast
  qed
qed

text \<open>Alice with an empty cache, and Bob's key for her.\<close>

definition lonely_world :: client_world where
  "lonely_world = (alice_world [lit ''120''])\<lparr>ctx := alice_ctx\<lparr>friends := []\<rparr>\<rparr>"

definition key_db :: db where
  "key_db = sample_db\<lparr>messages := [\<lparr>m_id = 7, m_to = alice, m_from = bob, m_type = 2, m_content = 65 # shared_key\<rparr>], seq := 7\<rparr>"

lemma listed_name_lost_witness:
  "\<exists>u. (fine_step toy (\<lambda>m. sample_env))\<^sup>*\<^sup>*
      (at lonely_world \<lparr>sdb = key_db, inbox = [], turns = 0\<rparr> (Done (Acting, Again)) (Done (Acting, Inr ()))) u
    \<and> ends_knowing bob [] shared_key u"
proof -
  have w: "world_wf lonely_world" "clientID (ctx lonely_world) = alice" "hasClientID (ctx lonely_world)"
    "cin lonely_world = lit ''120'' # []" "tryGetFriendCopy (ctx lonely_world) bob = None" "privateKey (ctx lonely_world) = [65]"
    using sample_registered(1) ctx_wf_sample(1)
    by (simp_all add: lonely_world_def world_wf_def sample_worlds sample_friends ctx_wf_def hasClientID_def map_ok_def
        tryGetFriendCopy_def)
  have d: "db_ok key_db" "alice \<in> c_id ` set (clients key_db)"
    "\<lparr>c_id = bob, c_name = bob_name, c_pubkey = bob_pub, c_last_seen = ''''\<rparr> \<in> set (clients key_db)"
    "fetch_rows key_db alice = [(7, bob, 2, 65 # shared_key)]"
    using db_ok_sample
    by (simp_all add: key_db_def db_ok_def message_row_ok_def sample_clients fetch_rows_def)
  have "271 * length (other_clients alice key_db) < 2 ^ 32" by (simp add: other_clients_def key_db_def sample_clients)
  moreover have "fits [(7, bob, 2, 65 # shared_key)]" by (simp add: fits_def row_ok_def length_encode_row)
  moreover have "RSAPrivateWrapper_load toy [65] = Inr 65" "RSAPrivateWrapper_decrypt toy 65 (65 # shared_key) = Inr shared_key"
    by (simp add: RSAPrivateWrapper_load_def toy_facts) (simp add: RSAPrivateWrapper_decrypt_def toy_def toy_oaep_decrypt_def)
  moreover have "srv_ready sample_env" by (simp add: srv_ready_def sample_env_facts)
  ultimately show ?thesis
    using listed_name_lost [OF w(1-4) d(1,2) _ d(3) _ _ w(5) d(4), of toy 65 shared_key "\<lambda>m. sample_env"] w(6) by auto
qed

end
