(* ===== verification/Client_Identity.thy ===== *)
theory Client_Identity
  imports Client_Interleaving
begin

text \<open>
  Who writes the identity of the client (id, name, private key), which the code reads and writes
  without the mutex of the context: only the main thread, only in a registration, and only while there
  is no id. The pull thread never does. Requests are told apart by their code field, and the server
  answers with a new id only to a registration.
\<close>

section \<open>The identity\<close>

definition ident :: "client_world \<Rightarrow> bytes \<times> bytes \<times> bytes" where
  "ident w = (clientID (ctx w), userName (ctx w), privateKey (ctx w))"

definition same_ident :: "client_world \<Rightarrow> client_world \<Rightarrow> bool" where
  "same_ident v w \<longleftrightarrow> ident w = ident v"

definition id16 :: "client_world \<Rightarrow> bool" where
  "id16 w \<longleftrightarrow> length (clientID (ctx w)) = 16"

definition registering :: "bytes \<Rightarrow> bool" where
  "registering q \<longleftrightarrow> from_bytes (bslice 17 2 q) = 700"

lemma same_ctx_ident: "ctx w = ctx v \<Longrightarrow> same_ident v w"
  by (simp add: same_ident_def ident_def)

lemma same_ident_simps [simp]:
  "same_ident w w" "same_ident w (say s w)" "same_ident w (w\<lparr>cin := ls\<rparr>)" "same_ident w (w\<lparr>rng := n\<rparr>)"
  "same_ident w (upd_ctx (setFriendBase i nm) w)" "same_ident w (upd_ctx (setFriendPublicKey i p) w)"
  "same_ident w (upd_ctx (setFriendSymmetricKey i k) w)"
  by (simp_all add: same_ident_def ident_def ctx_simps)

lemma same_ident_prompt: "getValidUsername prompt w = Some (nm, v) \<Longrightarrow> same_ident w v"
  using username.run_Some same_but_console_fields(1) same_ctx_ident by metis

lemma same_ident_menu: "clientMenuMain w = Some (c, v) \<Longrightarrow> same_ident w v"
  using menu.run_Some same_but_console_fields(1) same_ctx_ident by metis

lemma same_ident_save: "same_ident w (snd (saveMyInfo cr w))"
  using keeps_saveMyInfo [of cr w] by (cases "saveMyInfo cr w") (auto intro: same_ctx_ident)

lemma id16_same: "same_ident v w \<Longrightarrow> id16 v \<Longrightarrow> id16 w"
  by (simp add: same_ident_def ident_def id16_def)

lemma registering_createBuffer: "length (m_clientID m) = 16 \<Longrightarrow> registering (createBuffer m) \<longleftrightarrow> m_code m = 700"
  by (simp add: registering_def createBuffer_fields(3) from_bytes_appendUint16LE word_unat_eq_iff)

lemma registering_requests:
  "id16 w \<Longrightarrow> registering (createBuffer (Message_no_payload (clientID (ctx w)) code)) \<longleftrightarrow> code = 700"
  "id16 w \<Longrightarrow> registering (createBuffer (Message_payload (clientID (ctx w)) code p)) \<longleftrightarrow> code = 700"
  "id16 w \<Longrightarrow> \<not> registering (message_request w i ty c)"
  by (simp_all add: id16_def registering_createBuffer Message_no_payload_def Message_payload_def message_request_def)

section \<open>Programs that leave the identity alone\<close>

abbreviation mild :: "bool \<Rightarrow> (bytes \<Rightarrow> bool) \<Rightarrow> (bytes \<Rightarrow> exn + bytes \<Rightarrow> bool) \<Rightarrow> ('a \<Rightarrow> bool) \<Rightarrow> 'a client_act \<Rightarrow> bool" where
  "mild b ask ans \<equiv> tame b id16 same_ident ask ans"

lemma mild_Prints: "P a \<Longrightarrow> mild b ask ans P (Prints bs a)"
  by (induction bs) (auto intro: tame_Done tame_change_then simp: Prints.simps)

lemma mild_Prints_then: "mild b ask ans Q (f a) \<Longrightarrow> mild b ask ans Q (andthen (Prints bs a) f)"
  by (rule tame_andthen [OF mild_Prints [where P = "\<lambda>x. x = a"]]) simp_all

lemma mild_prompt_then: "(\<And>nm. mild True ask ans Q (f nm)) \<Longrightarrow> mild True ask ans Q (andthen (GetValidUsername prompt) f)"
  unfolding GetValidUsername_def by (rule tame_partial_then) (auto intro: same_ident_prompt)

lemmas mild_rules = mild_Prints_then mild_prompt_then tame_look_then tame_change_then tame_atom_then mild_Prints tame_Done tame_look tame_atom

lemma mild_HandleSendText: "mild b ask ans (\<lambda>_. True) (HandleSendText cr i)"
  unfolding HandleSendText_def by (auto intro!: mild_rules split: option.split sum.split prod.split)

lemma mild_HandleSendSymmetricKey: "mild b ask ans (\<lambda>_. True) (HandleSendSymmetricKey cr i)"
  unfolding HandleSendSymmetricKey_def by (auto intro!: mild_rules split: option.split sum.split)

text \<open>A request that is no registration.\<close>

definition harmless :: "exn + bytes \<Rightarrow> bool" where
  "harmless r \<longleftrightarrow> (case r of Inl e \<Rightarrow> True | Inr q \<Rightarrow> q = [] \<or> \<not> registering q)"

lemma mild_SendContent:
  assumes "mild b ask ans (\<lambda>_. True) p"
  shows "mild b ask ans harmless (SendContent i ty p)"
  unfolding SendContent_def
  by (rule tame_unless_thrown [OF assms]) (auto intro!: mild_rules simp: harmless_def registering_requests)

lemma mild_HandleAllMessages: "mild True ask ans harmless (HandleAllMessages cr code)"
  unfolding HandleAllMessages_def
  by (auto intro!: mild_rules mild_SendContent mild_HandleSendText mild_HandleSendSymmetricKey
      simp: harmless_def registering_requests split: option.split)

lemma mild_HandlePublicKey: "mild True ask ans harmless HandlePublicKey"
  unfolding HandlePublicKey_def
  by (auto intro!: mild_rules simp: harmless_def registering_requests split: option.split)

lemma mild_HandleMenuChoice: "code \<noteq> Code_REGISTER \<Longrightarrow> mild True ask ans harmless (HandleMenuChoice cr code)"
  unfolding HandleMenuChoice_def HandleClientList_def HandleWaitingMessages_def
  by (auto intro!: mild_rules mild_HandleAllMessages mild_HandlePublicKey simp: harmless_def registering_requests)

lemma mild_ClientList_loop: "mild b ask ans (\<lambda>_. True) (ClientList_loop data offset)"
proof (induction data offset rule: ClientList_loop.induct)
  case (1 data offset)
  then show ?case
    by (auto intro!: mild_rules simp: ClientList_loop.simps [of data offset] Let_def split: sum.split)
qed

lemma mild_Known: "mild b ask ans (\<lambda>_. True) (Known i)"
  unfolding Known_def by (auto intro!: mild_rules tame_change)

lemma mild_HandleSymmetricKeyMessage: "mild b ask ans (\<lambda>_. True) (HandleSymmetricKeyMessage cr sk i c)"
  unfolding HandleSymmetricKeyMessage_def
  by (auto intro!: mild_rules tame_andthen [OF mild_Known] split: sum.split)

lemma mild_HandleTextMessage: "mild b ask ans (\<lambda>_. True) (HandleTextMessage cr i c)"
  unfolding HandleTextMessage_def by (auto intro!: mild_rules split: option.split sum.split)

lemma mild_ShowRecord: "mild b ask ans (\<lambda>_. True) (ShowRecord cr sk i ty c)"
  unfolding ShowRecord_def
  by (intro tame_look_then mild_Prints_then tame_andthen [where P = "\<lambda>_. True"])
     (auto intro!: mild_rules mild_HandleSymmetricKeyMessage mild_HandleTextMessage)

lemma mild_WaitingMessages_loop: "mild b ask ans (\<lambda>_. True) (WaitingMessages_loop cr sk data offset)"
proof (induction cr sk data offset rule: WaitingMessages_loop.induct)
  case (1 cr sk data offset)
  then show ?case
    by (auto intro!: tame_Done tame_andthen [OF mild_ShowRecord] simp: WaitingMessages_loop.simps [of cr sk data offset] Let_def
        split: sum.split)
qed

text \<open>Every response but the one to a registration.\<close>

lemma mild_ResponseClientMain:
  assumes "responseCode data \<noteq> Code_RESPONSE_REGISTER"
  shows "mild b ask ans (\<lambda>_. True) (ResponseClientMain cr data)"
proof -
  have "mild b ask ans (\<lambda>_. True) (ResponseClientList data)"
    unfolding ResponseClientList_def by (auto intro!: tame_Done mild_ClientList_loop simp: Let_def)
  moreover have "mild b ask ans (\<lambda>_. True) (ResponsePublicKey cr data)"
    unfolding ResponsePublicKey_def by (auto intro!: mild_rules tame_andthen [OF mild_Known] simp: Let_def split: sum.split)
  moreover have "mild b ask ans (\<lambda>_. True) (ResponseMessageSent data)"
    unfolding ResponseMessageSent_def by (auto intro!: mild_rules split: sum.split option.split)
  moreover have "mild b ask ans (\<lambda>_. True) (ResponseWaitingMessages cr data)"
    unfolding ResponseWaitingMessages_def by (auto intro!: mild_rules mild_WaitingMessages_loop split: sum.split)
  ultimately show ?thesis
    using assms unfolding ResponseClientMain_def Let_def by (auto intro!: mild_rules)
qed

section \<open>What each thread keeps of the identity\<close>

text \<open>Between two steps of the main thread the identity stays; the main thread itself may change it while
  there is no id. The pull thread may meet any identity, and changes none.\<close>

definition id_kept :: "client_world \<Rightarrow> client_world \<Rightarrow> bool" where
  "id_kept v w \<longleftrightarrow> id16 w \<and> same_ident v w"

definition id_set_once :: "client_world \<Rightarrow> client_world \<Rightarrow> bool" where
  "id_set_once v w \<longleftrightarrow> id16 w \<and> (hasClientID (ctx v) \<longrightarrow> same_ident v w)"

definition register_unregistered :: "client_world \<Rightarrow> bytes \<Rightarrow> bool" where
  "register_unregistered w q \<longleftrightarrow> (registering q \<longrightarrow> \<not> hasClientID (ctx w))"

abbreviation main_sound :: "bool \<Rightarrow> ('a \<Rightarrow> client_world \<Rightarrow> bool) \<Rightarrow> 'a client_act \<Rightarrow> client_world \<Rightarrow> bool" where
  "main_sound l \<equiv> sound id_kept id_set_once register_unregistered (answers l)"

abbreviation pull_sound :: "bool \<Rightarrow> ('a \<Rightarrow> client_world \<Rightarrow> bool) \<Rightarrow> 'a client_act \<Rightarrow> client_world \<Rightarrow> bool" where
  "pull_sound l \<equiv> sound (\<lambda>v w. id16 w) id_kept (\<lambda>w q. \<not> registering q) (answers l)"

interpretation main_id: rely_guarantee id_kept id_set_once register_unregistered "answers l" for l
  by unfold_locales (auto simp: id_kept_def id_set_once_def same_ident_def)

interpretation pull_id: rely_guarantee "\<lambda>v w. id16 w" id_kept "\<lambda>w q. \<not> registering q" "answers l" for l
  by unfold_locales (auto simp: id_kept_def)

lemma id_keptD: "id_kept v w \<Longrightarrow> id16 w \<and> hasClientID (ctx w) = hasClientID (ctx v)"
  by (simp add: id_kept_def same_ident_def ident_def hasClientID_def)

lemma id_kept_refl [simp]: "id_kept w w \<longleftrightarrow> id16 w" and id_set_once_refl [simp]: "id_set_once w w \<longleftrightarrow> id16 w"
  by (simp_all add: id_kept_def id_set_once_def)

lemma id_set_onceI: "id16 v \<Longrightarrow> same_ident v w \<Longrightarrow> id_set_once v w"
  using id16_same by (simp add: id_set_once_def)

lemma main_mild:
  assumes "mild b (\<lambda>q. \<not> registering q) (answers l) P p" and "id16 w"
  shows "main_sound l (\<lambda>a t. P a) p w"
  by (rule main_id.sound_tame [OF assms(1)])
     (auto intro: id_set_onceI simp: register_unregistered_def dest: id_keptD)

text \<open>Only a registration is answered with an id.\<close>

lemma answer_code:
  assumes "answers l q (Inr r)" and "\<not> registering q"
  shows "responseCode r \<noteq> Code_RESPONSE_REGISTER"
  using assms unfolding answers_def response_shape_def registering_def
  by (auto simp: responseCode_bytes error_bytes_def)

text \<open>While there is no id, the main thread may write the identity.\<close>

definition unregistered :: "client_world \<Rightarrow> bool" where
  "unregistered w \<longleftrightarrow> id16 w \<and> \<not> hasClientID (ctx w)"

lemma unregistered_kept: "id_kept v w \<Longrightarrow> unregistered v \<Longrightarrow> unregistered w"
  by (simp add: unregistered_def id_keptD)

lemma unregistered_same: "same_ident v w \<Longrightarrow> unregistered v \<Longrightarrow> unregistered w"
  using unregistered_kept id16_same by (auto simp: id_kept_def unregistered_def)

lemma unregistered_set_once: "unregistered v \<Longrightarrow> id_set_once v w \<longleftrightarrow> id16 w"
  by (simp add: unregistered_def id_set_once_def)

lemma unregistered_ops:
  "unregistered (upd_ctx (setName n) w) = unregistered w" "unregistered (upd_ctx (setPrivateKey k) w) = unregistered w"
  "unregistered (w\<lparr>rng := r\<rparr>) = unregistered w"
  by (simp_all add: unregistered_def id16_def hasClientID_def ctx_simps)

lemma main_write_then:
  assumes "unregistered s" and "\<And>t. unregistered t \<Longrightarrow> unregistered (h t)" and "\<And>t. unregistered t \<Longrightarrow> main_sound l Q (f ()) t"
  shows "main_sound l Q (andthen (change h) f) s"
  by (rule sound_change_andthen)
     (use assms in \<open>auto dest!: unregistered_kept simp: unregistered_set_once unregistered_def [THEN iffD1]\<close>)

lemma main_draw_then:
  assumes "unregistered s" and "\<And>t. unregistered t \<Longrightarrow> unregistered (snd (h t))" and "\<And>a t. unregistered t \<Longrightarrow> main_sound l Q (f a) t"
  shows "main_sound l Q (andthen (atom h) f) s"
  by (rule sound_atom_andthen)
     (use assms in \<open>auto dest!: unregistered_kept simp: unregistered_set_once unregistered_def [THEN iffD1]\<close>)

text \<open>What an action of the main thread ends with: a registration only while there is no id.\<close>

definition registers_once :: "exn + bytes \<Rightarrow> client_world \<Rightarrow> bool" where
  "registers_once r w \<longleftrightarrow> harmless r \<or> unregistered w"

lemma main_final: "unregistered s \<Longrightarrow> main_sound l registers_once (look g) s"
  unfolding look_def atom_def
  by (rule sound_Step) (auto intro!: sound_Done dest: unregistered_kept id_keptD simp: registers_once_def)

lemma main_HandleRegister:
  assumes "id16 w"
  shows "main_sound l registers_once (HandleRegister cr) w"
  unfolding HandleRegister_def
proof (rule sound_look_andthen)
  fix t assume "id_kept w t"
  then have t: "id16 t" by (simp add: id_kept_def)
  then show "id_set_once t t" by simp
  have register: "main_sound l registers_once (andthen (GetValidUsername (lit ''Please enter your username: '')) f) t"
    if "unregistered t" and f: "\<And>nm u. unregistered u \<Longrightarrow> main_sound l registers_once (f nm) u" for f
    unfolding GetValidUsername_def
  proof (rule sound_partial_andthen)
    fix u nm v assume u: "id_kept t u" "getValidUsername (lit ''Please enter your username: '') u = Some (nm, v)"
    have un: "unregistered u" by (rule unregistered_kept [OF u(1) that(1)])
    have v: "unregistered v" by (rule unregistered_same [OF same_ident_prompt [OF u(2)] un])
    then show "id_set_once u v" using un by (simp add: unregistered_set_once) (simp add: unregistered_def)
    show "main_sound l registers_once (f nm) v" by (rule f [OF v])
  qed
  have refuse: "main_sound l registers_once (Prints bs (Inr [])) t" for bs
    by (rule sound_mono [OF main_mild [OF mild_Prints t, of harmless]]) (simp_all add: harmless_def registers_once_def)
  show "main_sound l registers_once
      (if hasClientID (ctx t) then Prints [lit ''You are already logged in.'' @ nl] (Inr [])
       else andthen (GetValidUsername (lit ''Please enter your username: '')) (\<lambda>nm.
         andthen (change (upd_ctx (setName nm))) (\<lambda>_.
         let n = min (length nm) (NAME_SIZE - 1);
             nameField = take n nm @ drop n (replicate NAME_SIZE 0);
             nameField = nameField[length nm := 0]
         in andthen (atom (\<lambda>w. (RSAPrivateWrapper_generate cr (rng w), w\<lparr>rng := rng w + 1\<rparr>))) (\<lambda>rsaKeys.
         andthen (change (upd_ctx (setPrivateKey (RSAPrivateWrapper_getPrivateKey cr rsaKeys)))) (\<lambda>_.
         let pubKey = RSAPrivateWrapper_getPublicKey cr rsaKeys (replicate RSA_KEYSIZE 0) RSA_KEYSIZE
         in look (\<lambda>w. Inr (createBuffer (Message_payload (clientID (ctx w)) Code_REQUEST_REGISTER (nameField @ pubKey))))))))) t"
    using t unfolding Let_def
    by (auto intro!: refuse register main_write_then main_draw_then main_final simp: unregistered_ops)
       (simp_all add: unregistered_def)
qed

lemma main_HandleMenuChoice:
  assumes "id16 w"
  shows "main_sound l registers_once (HandleMenuChoice cr code) w"
proof (cases "code = Code_REGISTER")
  case True
  then show ?thesis using main_HandleRegister [OF assms] by (simp add: HandleMenuChoice_def)
next
  case False
  show ?thesis
    by (rule sound_mono [OF main_mild [OF mild_HandleMenuChoice [OF False] assms]]) (simp add: registers_once_def)
qed

lemma main_ResponseRegister:
  assumes "unregistered w"
  shows "main_sound l (\<lambda>_ _. True) (ResponseRegister cr data) w"
proof (cases "readClientID data 7")
  case (Inl e)
  then show ?thesis by (simp add: ResponseRegister_def sound_Done)
next
  case (Inr cid)
  then have cid: "length cid = 16" using readClientID_Inr by blast
  have save: "mild False ask ans (\<lambda>_. True) (unless_thrown (atom (saveMyInfo cr)) f)"
    if "\<And>a. mild False ask ans (\<lambda>_. True) (f a)" for f :: "unit \<Rightarrow> (exn + unit) client_act" and ask ans
    by (rule tame_unless_thrown [where P = "\<lambda>_. True"]) (auto intro: tame_atom same_ident_save that)
  show ?thesis
    unfolding ResponseRegister_def Inr sum.case
  proof (rule sound_change_andthen)
    fix t assume "id_kept w t"
    then have "unregistered t" using assms by (rule unregistered_kept)
    then show "id_set_once t (upd_ctx (setClientID cid) t)" using cid by (simp add: unregistered_set_once id16_def ctx_simps)
    have "id16 (upd_ctx (setClientID cid) t)" using cid by (simp add: id16_def ctx_simps)
    then show "main_sound l (\<lambda>_ _. True) (unless_thrown (atom (saveMyInfo cr)) (\<lambda>_.
      andthen (Prints [lit ''----- Client Context -----'' @ nl, lit ''Name: ''] ()) (\<lambda>_.
      andthen (look (\<lambda>w. userName (ctx w))) (\<lambda>nm.
      andthen (Prints [nm, nl, lit ''Client ID: ''] ()) (\<lambda>_.
      andthen (look (\<lambda>w. clientID (ctx w))) (\<lambda>cid.
      Prints [show_hex_bytes cid, nl] (Inr ()))))))) (upd_ctx (setClientID cid) t)"
      by (rule main_mild [where b = False and P = "\<lambda>_. True", rotated]) (rule save, auto intro!: mild_rules)
  qed
qed

text \<open>A turn and a round.\<close>

lemma main_Response:
  assumes "answers l q (Inr r)" and "id16 w" and "registering q \<Longrightarrow> unregistered w"
  shows "main_sound l (\<lambda>_ _. True) (ResponseClientMain cr r) w"
proof (cases "responseCode r = Code_RESPONSE_REGISTER")
  case True
  with answer_code [OF assms(1)] have "registering q" by blast
  from main_ResponseRegister [OF assms(3) [OF this], where cr = cr and l = l and data = r] True show ?thesis by (simp add: ResponseClientMain_def sound_Done)
next
  case False
  show ?thesis by (rule main_mild [OF mild_ResponseClientMain [OF False] assms(2)])
qed

lemma main_Main_turn:
  assumes "id16 w"
  shows "main_sound l (\<lambda>_ _. True) (Main_turn cr) w"
  unfolding Main_turn_def
proof (rule sound_partial_andthen)
  fix t input u assume t: "id_kept w t" "clientMenuMain t = Some (input, u)"
  then have id: "id16 t" "id16 u" using id16_same [OF same_ident_menu [OF t(2)]] by (simp_all add: id_kept_def)
  show "id_set_once t u" by (rule id_set_onceI [OF id(1) same_ident_menu [OF t(2)]])
  have exit: "main_sound l (\<lambda>_ _. True) (Prints bs (Acting, Exit)) u" for bs
    by (rule main_mild [where b = False and P = "\<lambda>_. True", OF _ id(2)]) (rule mild_Prints, simp)
  have exchange: "main_sound l (\<lambda>_ _. True) (Exchange data (\<lambda>r. case r of Inl e \<Rightarrow> Done (Exchanging, Throw e)
      | Inr buffer \<Rightarrow> andthen (ResponseClientMain cr buffer) (\<lambda>r. Done (Handling, case r of Inl e \<Rightarrow> Throw e | Inr _ \<Rightarrow> Again)))) v"
    if "registers_once (Inr data) v" "data \<noteq> []" for data v
  proof (rule sound_Exchange)
    fix x assume x: "id_kept v x"
    have once: "unregistered x" if "registering data"
      using \<open>registers_once (Inr data) v\<close> \<open>data \<noteq> []\<close> that unregistered_kept [OF x] by (simp add: registers_once_def harmless_def)
    then show "register_unregistered x data" by (auto simp: register_unregistered_def unregistered_def)
    fix r assume r: "answers l data r"
    have "main_sound l (\<lambda>_ _. True) (ResponseClientMain cr buffer) x" if "r = Inr buffer" for buffer
      by (rule main_Response [where q = data]) (use that r once x in \<open>simp_all add: id_kept_def\<close>)
    then show "main_sound l (\<lambda>_ _. True) (case r of Inl e \<Rightarrow> Done (Exchanging, Throw e)
      | Inr buffer \<Rightarrow> andthen (ResponseClientMain cr buffer) (\<lambda>r. Done (Handling, case r of Inl e \<Rightarrow> Throw e | Inr _ \<Rightarrow> Again))) x"
      using x by (cases r) (auto intro!: main_id.sound_consecutive [where R = "\<lambda>_ _. True"] sound_Done simp: id_kept_def)
  qed
  have "main_sound l (\<lambda>_ _. True) (andthen (HandleMenuChoice cr input) (\<lambda>r. case r of Inl e \<Rightarrow> Done (Acting, Throw e)
     | Inr data \<Rightarrow> if data = [] then Done (Acting, Again) else Exchange data (\<lambda>r. case r of Inl e \<Rightarrow> Done (Exchanging, Throw e)
         | Inr buffer \<Rightarrow> andthen (ResponseClientMain cr buffer) (\<lambda>r. Done (Handling, case r of Inl e \<Rightarrow> Throw e | Inr _ \<Rightarrow> Again))))) u"
    by (rule main_id.sound_consecutive [OF main_HandleMenuChoice [OF id(2)]])
       (use id in \<open>auto intro!: sound_Done exchange split: sum.split\<close>)
  then show "main_sound l (\<lambda>_ _. True) (if input = Code_EXIT then Prints [lit ''Exiting client...'' @ nl] (Acting, Exit)
     else andthen (HandleMenuChoice cr input) (\<lambda>r. case r of Inl e \<Rightarrow> Done (Acting, Throw e)
     | Inr data \<Rightarrow> if data = [] then Done (Acting, Again) else Exchange data (\<lambda>r. case r of Inl e \<Rightarrow> Done (Exchanging, Throw e)
         | Inr buffer \<Rightarrow> andthen (ResponseClientMain cr buffer) (\<lambda>r. Done (Handling, case r of Inl e \<Rightarrow> Throw e | Inr _ \<Rightarrow> Again))))) u"
    using exit by simp
qed

lemma mild_Pull_round: "mild False (\<lambda>q. \<not> registering q) (answers l) (\<lambda>_. True) (Pull_round cr)"
proof -
  let ?k = "\<lambda>r. case r of Inl e \<Rightarrow> Done (Exchanging, Inl e)
     | Inr buffer \<Rightarrow> andthen (Prints [lit ''Pulling waiting messages automatically:'' @ nl] ())
         (\<lambda>_. andthen (ResponseClientMain cr buffer) (\<lambda>r. Done (Handling, r)))"
  have "mild False (\<lambda>q. \<not> registering q) (answers l) (\<lambda>_. True) (Exchange q ?k)" if q: "\<not> registering q" for q
  proof (rule tame_Exchange)
    show "\<not> registering q" by (rule q)
    fix r assume r: "answers l q r"
    have "responseCode buffer \<noteq> Code_RESPONSE_REGISTER" if "r = Inr buffer" for buffer
      using answer_code r q that by blast
    then show "mild False (\<lambda>q. \<not> registering q) (answers l) (\<lambda>_. True) (?k r)"
      by (auto intro!: tame_Done mild_Prints_then tame_andthen [OF mild_ResponseClientMain] split: sum.split)
  qed
  then show ?thesis
    unfolding Pull_round_def by (auto intro!: tame_look_then tame_Done simp: registering_requests)
qed

lemma pull_Pull_round: "pull_sound l (\<lambda>_ _. True) (Pull_round cr) w"
  by (rule pull_id.sound_tame [OF mild_Pull_round]) (auto simp: id_kept_def intro: id16_same)

section \<open>The identity in the interleaving\<close>

lemma sound_id_move:
  assumes "move envs p (w, net) q (v, net')" and "sound_act l cr False R p w" and "holds cr False w"
    and "db_ok (sdb net)" and "inbox net = []" and "env_ok (envs (turns net))"
    and "sound rely guar good (answers l) Q p w" and "rely w w" and "guar w w"
  shows "guar w v \<and> sound rely guar good (answers l) Q q v"
  using assms(1)
proof cases
  case (move_step g)
  from assms(7) show ?thesis
    unfolding move_step(1) by (rule sound_StepE) (use move_step(3) assms(8) in blast)
next
  case (move_exchange d r k)
  have "answers l d r"
    by (rule exchange_answered(1) [OF assms(2) [unfolded move_exchange(1)] assms(3) move_exchange(4,5) assms(4-6)])
  with assms(7) have "rely w w \<Longrightarrow> sound rely guar good (answers l) Q (k r) w"
    unfolding move_exchange(1) by (rule_tac sound_ExchangeE) blast+
  with assms(8,9) show ?thesis by (simp add: move_exchange(2,3))
qed

definition id_inv :: "('sk, 'pk) crypto \<Rightarrow> fine \<Rightarrow> bool" where
  "id_inv cr t \<longleftrightarrow> fine_inv cr False t \<and> main_sound False (\<lambda>_ _. True) (f_main t) (f_world t) \<and> pull_sound False (\<lambda>_ _. True) (f_pull t) (f_world t)"

lemma fine_inv_id16: "fine_inv cr b t \<Longrightarrow> id16 (f_world t)"
  using world_wf_id by (simp add: fine_inv_def holds_def id16_def)

lemma id_inv_step:
  assumes "fine_step cr envs t u" and "id_inv cr t" and "\<forall>n. env_ok (envs n)"
  shows "id_inv cr u \<and> id_set_once (f_world t) (f_world u)"
proof -
  have inv: "fine_inv cr False t" and main: "main_sound False (\<lambda>_ _. True) (f_main t) (f_world t)"
    and pull: "pull_sound False (\<lambda>_ _. True) (f_pull t) (f_world t)"
    using assms(2) by (simp_all add: id_inv_def)
  have inv': "fine_inv cr False u" using fine_inv_step [OF assms(1) inv assms(3)] by blast
  note id = fine_inv_id16 [OF inv] fine_inv_id16 [OF inv']
  have facts: "sound_act False cr False (turn_ends False False) (f_main t) (f_world t)" "sound_act False cr False (round_ends False False) (f_pull t) (f_world t)"
    "holds cr False (f_world t)" "db_ok (sdb (f_net t))" "inbox (f_net t) = []" "env_ok (envs (turns (f_net t)))"
    using inv assms(3) by (simp_all add: fine_inv_def)
  from assms(1) show ?thesis
  proof cases
    case (main_moves p w net)
    have "id_set_once (f_world t) w \<and> main_sound False (\<lambda>_ _. True) p w"
      by (rule sound_id_move [OF main_moves(2) facts(1,3-6) main]) (simp_all add: id)
    moreover have "pull_sound False (\<lambda>_ _. True) (f_pull t) w"
      by (rule pull_id.sound_later [OF pull]) (use id(2) main_moves(1) in simp)
    ultimately show ?thesis using inv' by (simp add: id_inv_def main_moves(1))
  next
    case (pull_moves p w net)
    have "id_kept (f_world t) w \<and> pull_sound False (\<lambda>_ _. True) p w"
      by (rule sound_id_move [OF pull_moves(2) facts(2,3-6) pull]) (simp_all add: id)
    then show ?thesis
      using inv' main_id.sound_later [OF main, of w] by (simp add: id_inv_def pull_moves(1) id_kept_def id_set_once_def)
  qed (use inv' main pull id main_Main_turn pull_Pull_round in \<open>simp_all add: id_inv_def\<close>)
qed

interpretation identity: machine "fine_step cr (good_envs envs)" "id_inv cr"
  "\<lambda>t u. hasClientID (ctx (f_world t)) \<longrightarrow> same_ident (f_world t) (f_world u)" for cr envs
proof unfold_locales
  show "id_inv cr s \<Longrightarrow> fine_step cr (good_envs envs) s t \<Longrightarrow> id_inv cr t" for s t
    using id_inv_step by (blast intro: good_envs_ok)
  show "hasClientID (ctx (f_world s)) \<longrightarrow> same_ident (f_world s) (f_world t)" if "id_inv cr s" "fine_step cr (good_envs envs) s t" for s t
    using id_inv_step [OF that(2,1)] good_envs_ok by (simp add: id_set_once_def)
  show "hasClientID (ctx (f_world s)) \<longrightarrow> same_ident (f_world s) (f_world u)"
    if "hasClientID (ctx (f_world s)) \<longrightarrow> same_ident (f_world s) (f_world t)" "hasClientID (ctx (f_world t)) \<longrightarrow> same_ident (f_world t) (f_world u)"
    for s t u using that by (auto simp: same_ident_def ident_def hasClientID_def)
qed simp

lemma id_start: "fine_start t \<Longrightarrow> id_inv cr t"
  using fine_start_inv [of t False cr] by (auto simp: id_inv_def fine_start_def intro: sound_Done)

lemma identity_fixed:
  assumes "(fine_step cr envs)\<^sup>*\<^sup>* t u" and "(fine_step cr envs)\<^sup>*\<^sup>* u v" and "\<forall>n. env_ok (envs n)" and "fine_start t"
    and "hasClientID (ctx (f_world u))"
  shows "same_ident (f_world u) (f_world v)"
proof -
  have r: "(fine_step cr (good_envs envs))\<^sup>*\<^sup>* t u" "(fine_step cr (good_envs envs))\<^sup>*\<^sup>* u v"
    using assms(1,2) good_envs_id [OF assms(3)] by simp_all
  from identity.reach_grows [OF r(2) identity.reach_inv [OF r(1) id_start [OF assms(4)]]] assms(5) show ?thesis by blast
qed

end
