(* ===== verification/Whole_System.thy ===== *)
theory Whole_System
  imports Client_Identity Server_Starve
begin

text \<open>
  A client and the server together, at the finest grain of both: the client's two threads call by
  call as in \<open>Client_Interleaving\<close>, the server's threads statement by statement as in
  \<open>Server_Threads\<close>, and between them the socket calls of \<^verbatim>\<open>ClientConnection.cpp\<close>,
  \<^verbatim>\<open>connection.py\<close> and \<^verbatim>\<open>main.py\<close> on a connection that may be lost at any moment. The client is
  served by thread \<open>j\<close>; the other threads of the server serve any other peers.
\<close>

section \<open>The connection\<close>

text \<open>\<^verbatim>\<open>_connMutex\<close>, and where its owner stands in \<^verbatim>\<open>sendAndReceive\<close>: before the write of its request, before
  the read of the header, or with a header in hand before the read of as many payload bytes.\<close>

datatype mutex = Free | To_write who | To_read_header who | To_read_payload who bytes nat

text \<open>\<open>to_server\<close> and \<open>to_client\<close> are the bytes that were written and not yet read; \<open>linked\<close> holds until the
  connection is lost.\<close>

record whole =
  cl_world :: client_world
  cl_main :: "(stage \<times> turn) client_act"
  cl_pull :: "(stage \<times> (exn + unit)) client_act"
  srv :: server
  conn_mutex :: mutex
  linked :: bool
  to_server :: bytes
  to_client :: bytes

text \<open>A program with what its exchange brought.\<close>

definition resumed :: "exn + bytes \<Rightarrow> 'a client_act \<Rightarrow> 'a client_act" where
  "resumed r p = (case p of Exchange q k \<Rightarrow> k r | _ \<Rightarrow> p)"

definition asking :: "who \<Rightarrow> whole \<Rightarrow> bytes option" where
  "asking x t = (case x of Main_thread \<Rightarrow> asked (cl_main t) | Pull_thread \<Rightarrow> asked (cl_pull t))"

text \<open>The end of \<^verbatim>\<open>sendAndReceive\<close>: the lock guard releases the mutex.\<close>

definition resume :: "who \<Rightarrow> exn + bytes \<Rightarrow> whole \<Rightarrow> whole" where
  "resume x r t = (case x of
       Main_thread \<Rightarrow> t\<lparr>cl_main := resumed r (cl_main t), conn_mutex := Free\<rparr>
     | Pull_thread \<Rightarrow> t\<lparr>cl_pull := resumed r (cl_pull t), conn_mutex := Free\<rparr>)"

definition owner :: "mutex \<Rightarrow> who option" where
  "owner m = (case m of Free \<Rightarrow> None | To_write x \<Rightarrow> Some x | To_read_header x \<Rightarrow> Some x | To_read_payload x h n \<Rightarrow> Some x)"

section \<open>Steps\<close>

text \<open>
  The client's threads make their own steps, and take the mutex when they have a request; its owner
  writes the request, reads seven bytes, reads the payload they announce, and goes on with the
  response. After the loss of the connection any of these calls may throw, which discards what was
  received; a write may also seem to succeed. Thread \<open>j\<close> of the server reads a whole request once its
  bytes are there, runs the statements of its handler, and sends the response; after the loss it may
  end between two requests, or when it sends. When the connection is lost, any suffix of what was
  under way is lost with it.
\<close>

inductive whole_step :: "('sk, 'pk) crypto \<Rightarrow> nat \<Rightarrow> nat \<Rightarrow> whole \<Rightarrow> whole \<Rightarrow> bool" for cr mv j where
  main_moves: "cl_main t = Step g \<Longrightarrow> g (cl_world t) = Some (p, w) \<Longrightarrow>
    whole_step cr mv j t (t\<lparr>cl_world := w, cl_main := p\<rparr>)"
| main_again: "cl_main t = Done (st, Again) \<Longrightarrow> whole_step cr mv j t (t\<lparr>cl_main := Main_turn cr\<rparr>)"
| pull_moves: "cl_pull t = Step g \<Longrightarrow> g (cl_world t) = Some (p, w) \<Longrightarrow>
    whole_step cr mv j t (t\<lparr>cl_world := w, cl_pull := p\<rparr>)"
| pull_again: "cl_pull t = Done r \<Longrightarrow> whole_step cr mv j t (t\<lparr>cl_pull := Pull_round cr\<rparr>)"
| takes_mutex: "conn_mutex t = Free \<Longrightarrow> asking x t = Some q \<Longrightarrow> length q < 23 + 2 ^ 32 \<Longrightarrow>
    whole_step cr mv j t (t\<lparr>conn_mutex := To_write x\<rparr>)"
| writes: "conn_mutex t = To_write x \<Longrightarrow> asking x t = Some q \<Longrightarrow>
    whole_step cr mv j t (t\<lparr>to_server := to_server t @ (if linked t then q else []), conn_mutex := To_read_header x\<rparr>)"
| reads_header: "conn_mutex t = To_read_header x \<Longrightarrow> HEADER_SIZE \<le> length (to_client t) \<Longrightarrow>
    getPayloadSize (take HEADER_SIZE (to_client t)) = Inr n \<Longrightarrow>
    whole_step cr mv j t (t\<lparr>to_client := drop HEADER_SIZE (to_client t),
      conn_mutex := To_read_payload x (take HEADER_SIZE (to_client t)) n\<rparr>)"
| reads_payload: "conn_mutex t = To_read_payload x h n \<Longrightarrow> n \<le> length (to_client t) \<Longrightarrow>
    whole_step cr mv j t (resume x (Inr (h @ take n (to_client t))) (t\<lparr>to_client := drop n (to_client t)\<rparr>))"
| throws: "owner (conn_mutex t) = Some x \<Longrightarrow> \<not> linked t \<Longrightarrow>
    whole_step cr mv j t (resume x (Inl (System_error msg)) (t\<lparr>to_client := []\<rparr>))"
| is_lost: "linked t \<Longrightarrow>
    whole_step cr mv j t (t\<lparr>linked := False, to_server := take a (to_server t), to_client := take b (to_client t)\<rparr>)"
| others: "server_step mv i (srv t) s \<Longrightarrow> i \<noteq> j \<Longrightarrow> whole_step cr mv j t (t\<lparr>srv := s\<rparr>)"
| server_reads: "j < length (threads (srv t)) \<Longrightarrow> threads (srv t) ! j = (Awaiting, c) \<Longrightarrow>
    SRV_HEADER_SIZE \<le> length (to_server t) \<Longrightarrow> n = SRV_HEADER_SIZE + get_payload_size (take SRV_HEADER_SIZE (to_server t)) \<Longrightarrow>
    n \<le> length (to_server t) \<Longrightarrow> env_ok e \<Longrightarrow> max_vars e = mv \<Longrightarrow>
    whole_step cr mv j t (t\<lparr>to_server := drop n (to_server t), srv := (srv t)\<lparr>threads := (threads (srv t))
      [j := (Serving (take n (to_server t)) (Request_handler_main e (take n (to_server t))), c)]\<rparr>\<rparr>)"
| server_runs: "j < length (threads (srv t)) \<Longrightarrow> threads (srv t) ! j = (Serving q p, c) \<Longrightarrow>
    prog_step (busy (srv t) j) p (dbfile (srv t)) c = Some (p', st, c') \<Longrightarrow>
    whole_step cr mv j t (t\<lparr>srv := (srv t)\<lparr>dbfile := st, threads := (threads (srv t))[j := (Serving q p', c')]\<rparr>\<rparr>)"
| server_sends: "j < length (threads (srv t)) \<Longrightarrow> threads (srv t) ! j = (Serving q (Return (Inr r)), c) \<Longrightarrow>
    whole_step cr mv j t (t\<lparr>to_client := to_client t @ (if linked t then r else []),
      srv := (srv t)\<lparr>threads := (threads (srv t))[j := (Awaiting, c)]\<rparr>\<rparr>)"
| server_ends: "j < length (threads (srv t)) \<Longrightarrow> threads (srv t) ! j = (ph, c) \<Longrightarrow> \<not> linked t \<Longrightarrow>
    ph = Awaiting \<or> (\<exists>q r. ph = Serving q (Return r)) \<Longrightarrow>
    whole_step cr mv j t (t\<lparr>srv := (srv t)\<lparr>threads := (threads (srv t))[j := (Ended, Auto)]\<rparr>\<rparr>)"

inductive_cases whole_stepE: "whole_step cr mv j t u"

text \<open>What thread \<open>j\<close> does is a step of the server.\<close>

lemma whole_step_server:
  assumes "whole_step cr mv j t u"
  shows "srv u = srv t \<or> (\<exists>i. server_step mv i (srv t) (srv u))"
  using assms
proof cases
  case (server_reads c n e)
  show ?thesis unfolding server_reads(1) using receive [OF server_reads(2,3,7,8)] by auto
next
  case (server_runs q p c p' st c')
  show ?thesis unfolding server_runs(1) using statement [OF server_runs(2-4)] by auto
next
  case (server_sends q r c)
  show ?thesis unfolding server_sends(1) using reply [OF server_sends(2,3)] by auto
next
  case (server_ends ph c)
  show ?thesis unfolding server_ends(1) using close [OF server_ends(2,3,5)] by auto
qed (auto simp: resume_def split: who.split)

end
