(* ===== verification/Whole_Invariant.thy ===== *)
theory Whole_Invariant
  imports Whole_System "HOL-Library.Sublist"
begin

text \<open>
  What holds in every state of \<open>Whole_System\<close>: the promises of the client's threads, the
  invariant of the server, and what the bytes on the connection are.
\<close>

section \<open>The client's threads\<close>

text \<open>The promises of \<open>Client_Interleaving\<close> and \<open>Client_Identity\<close>. As long as the connection stands the
  programs are also sound for exchanges that do not fail.\<close>

definition client_inv ::
    "('sk, 'pk) crypto \<Rightarrow> bool \<Rightarrow> bool \<Rightarrow> client_world \<Rightarrow> (stage \<times> turn) client_act \<Rightarrow> (stage \<times> (exn + unit)) client_act \<Rightarrow> bool" where
  "client_inv cr b up w p q \<longleftrightarrow> (crypto_ok cr \<or> \<not> b) \<and> holds cr b w
     \<and> (\<forall>l. l \<or> up \<longrightarrow> sound_act l cr b (turn_ends l b) p w \<and> sound_act l cr b (round_ends l b) q w)
     \<and> main_sound True (\<lambda>_ _. True) p w \<and> pull_sound True (\<lambda>_ _. True) q w"

definition client_grows :: "client_world \<Rightarrow> client_world \<Rightarrow> bool" where
  "client_grows v w \<longleftrightarrow> keeps v w \<and> (hasClientID (ctx v) \<longrightarrow> same_ident v w)"

lemma client_grows_refl: "client_grows w w"
  by (simp add: client_grows_def)

lemma client_grows_trans: "client_grows u v \<Longrightarrow> client_grows v w \<Longrightarrow> client_grows u w"
  using keeps_trans by (auto simp: client_grows_def same_ident_def ident_def hasClientID_def)

lemma client_inv_down: "client_inv cr b up w p q \<Longrightarrow> client_inv cr b False w p q"
  by (simp add: client_inv_def)

lemma holds_id16: "holds cr b w \<Longrightarrow> id16 w"
  by (simp add: id16_def holds_id)

lemma client_inv_id16: "client_inv cr b up w p q \<Longrightarrow> id16 w"
  unfolding client_inv_def using holds_id16 by blast

lemma sound_step:
  assumes "sound_act l cr b Q (Step g) w" and "holds cr b w" and "g w = Some (p, v)"
  shows "later cr b w v \<and> sound_act l cr b Q p v"
proof -
  have "later cr b w w" using assms(2) by simp
  with assms(1,3) show ?thesis by (blast elim: sound_StepE)
qed

lemma sound_resumes:
  assumes "sound rely guar good (answers l) Q (Exchange d k) w" and "rely w w" and "answers l d r"
  shows "sound rely guar good (answers l) Q (k r) w"
  using assms(1) by (rule sound_ExchangeE) (use assms(2,3) in blast)

lemma client_main_moves:
  assumes "client_inv cr b up w (Step g) q" and "g w = Some (p, v)"
  shows "client_inv cr b up v p q \<and> client_grows w v"
proof -
  have h: "holds cr b w" and s: "\<And>l. l \<or> up \<Longrightarrow> sound_act l cr b (turn_ends l b) (Step g) w"
    and q: "\<And>l. l \<or> up \<Longrightarrow> sound_act l cr b (round_ends l b) q w"
    using assms(1) unfolding client_inv_def by blast+
  have n: "later cr b w v" by (rule sound_step [OF s [of True] h assms(2), THEN conjunct1]) simp
  have n2: "holds cr b v" by (rule later_holds [OF n])
  have i: "id16 w" "id16 v" using holds_id16 h n2 by blast+
  have "main_sound True (\<lambda>_ _. True) (Step g) w" using assms(1) by (simp add: client_inv_def)
  then have "id_set_once w v \<and> main_sound True (\<lambda>_ _. True) p v"
    using assms(2) id_kept_refl i(1) by (blast elim: sound_StepE)
  moreover have "pull_sound True (\<lambda>_ _. True) q v"
    by (rule pull_id.sound_later [where s = w]) (use assms(1) i(2) in \<open>simp_all add: client_inv_def\<close>)
  moreover have "sound_act l cr b (turn_ends l b) p v \<and> sound_act l cr b (round_ends l b) q v" if "l \<or> up" for l
    using sound_step [OF s [OF that] h assms(2)] threads.sound_later [OF q [OF that] n] by blast
  ultimately show ?thesis
    using assms(1) n2 later_keeps [OF n] unfolding client_inv_def client_grows_def id_set_once_def by blast
qed

lemma client_pull_moves:
  assumes "client_inv cr b up w p (Step g)" and "g w = Some (q, v)"
  shows "client_inv cr b up v p q \<and> client_grows w v"
proof -
  have h: "holds cr b w" and s: "\<And>l. l \<or> up \<Longrightarrow> sound_act l cr b (round_ends l b) (Step g) w"
    and p: "\<And>l. l \<or> up \<Longrightarrow> sound_act l cr b (turn_ends l b) p w"
    using assms(1) unfolding client_inv_def by blast+
  have n: "later cr b w v" by (rule sound_step [OF s [of True] h assms(2), THEN conjunct1]) simp
  have n2: "holds cr b v" by (rule later_holds [OF n])
  have i: "id16 w" "id16 v" using holds_id16 h n2 by blast+
  have "pull_sound True (\<lambda>_ _. True) (Step g) w" using assms(1) by (simp add: client_inv_def)
  then have k: "id_kept w v \<and> pull_sound True (\<lambda>_ _. True) q v"
    using assms(2) i(1) by (blast elim: sound_StepE)
  moreover have "main_sound True (\<lambda>_ _. True) p v"
    by (rule main_id.sound_later [where s = w]) (use assms(1) k in \<open>simp_all add: client_inv_def\<close>)
  moreover have "sound_act l cr b (round_ends l b) q v \<and> sound_act l cr b (turn_ends l b) p v" if "l \<or> up" for l
    using sound_step [OF s [OF that] h assms(2)] threads.sound_later [OF p [OF that] n] by blast
  ultimately show ?thesis
    using assms(1) n2 later_keeps [OF n] unfolding client_inv_def client_grows_def id_kept_def by blast
qed

lemma client_again:
  "client_inv cr b up w (Done x) q \<Longrightarrow> client_inv cr b up w (Main_turn cr) q"
  "client_inv cr b up w p (Done y) \<Longrightarrow> client_inv cr b up w p (Pull_round cr)"
  using client_inv_id16 [of cr b up w]
  by (auto simp: client_inv_def sound_Main_turn sound_Pull_round main_Main_turn pull_Pull_round)

text \<open>An exchange that brought an answer, or failed on a connection that is lost.\<close>

lemma client_main_resumed:
  assumes "client_inv cr b up w p q" and "asked p = Some d" and "\<And>l. l \<or> up \<Longrightarrow> answers l d r"
  shows "client_inv cr b up w (resumed r p) q"
proof -
  obtain k where p: "p = Exchange d k" using assms(2) by (cases p) (auto simp: asked_def)
  have h: "later cr b w w" "id_kept w w" using assms(1) client_inv_id16 [OF assms(1)] by (simp_all add: client_inv_def)
  show ?thesis
    using assms(1) h sound_resumes [OF _ _ assms(3), where k = k]
    unfolding client_inv_def p resumed_def by simp
qed

lemma client_pull_resumed:
  assumes "client_inv cr b up w p q" and "asked q = Some d" and "\<And>l. l \<or> up \<Longrightarrow> answers l d r"
  shows "client_inv cr b up w p (resumed r q)"
proof -
  obtain k where q: "q = Exchange d k" using assms(2) by (cases q) (auto simp: asked_def)
  have h: "later cr b w w" "id16 w" using assms(1) client_inv_id16 [OF assms(1)] by (simp_all add: client_inv_def)
  show ?thesis
    using assms(1) h sound_resumes [OF _ _ assms(3), where k = k]
    unfolding client_inv_def q resumed_def by simp
qed

lemma asks_good:
  assumes "sound_act l cr b Q p w" and "holds cr b w" and "asked p = Some d"
  shows "good_request w d"
proof -
  obtain k where "p = Exchange d k" using assms(3) by (cases p) (auto simp: asked_def)
  moreover have "later cr b w w" using assms(2) by simp
  ultimately show ?thesis using assms(1) by (blast elim: sound_ExchangeE)
qed

lemma client_asks:
  assumes "client_inv cr b up w p q" and "asked p = Some d \<or> asked q = Some d"
  shows "good_request w d"
  using assms unfolding client_inv_def by (blast intro: asks_good [where l = True])

section \<open>The connection\<close>

text \<open>The response a request may get, and the thread of the server between two requests.\<close>

definition response_for :: "bytes \<Rightarrow> bytes \<Rightarrow> bool" where
  "response_for q r \<longleftrightarrow> response_ok r \<and> response_shape q r"

definition awaiting :: "nat \<Rightarrow> whole \<Rightarrow> bool" where
  "awaiting j t \<longleftrightarrow> (\<exists>c. threads (srv t) ! j = (Awaiting, c))"

text \<open>Where a request is on a connection that stands: on its way, with the server, or answered.\<close>

definition under_way :: "nat \<Rightarrow> bytes \<Rightarrow> whole \<Rightarrow> bool" where
  "under_way j q t \<longleftrightarrow>
     to_server t = q \<and> to_client t = [] \<and> awaiting j t
   \<or> to_server t = [] \<and> to_client t = [] \<and> (\<exists>p c. threads (srv t) ! j = (Serving q p, c))
   \<or> to_server t = [] \<and> response_for q (to_client t) \<and> awaiting j t"

definition quiet :: "nat \<Rightarrow> whole \<Rightarrow> bool" where
  "quiet j t \<longleftrightarrow> to_client t = [] \<and> (linked t \<longrightarrow> to_server t = [] \<and> awaiting j t)"

text \<open>The bytes on the connection are those of one exchange, that of the owner of the mutex.\<close>

definition link_ok :: "nat \<Rightarrow> whole \<Rightarrow> bool" where
  "link_ok j t = (case conn_mutex t of
       Free \<Rightarrow> quiet j t
     | To_write x \<Rightarrow> (\<exists>q. asking x t = Some q \<and> length q < 23 + 2 ^ 32) \<and> quiet j t
     | To_read_header x \<Rightarrow> (\<exists>q. asking x t = Some q \<and> length q < 23 + 2 ^ 32
         \<and> (\<exists>r. response_for q r \<and> prefix (to_client t) r) \<and> (linked t \<longrightarrow> under_way j q t))
     | To_read_payload x h n \<Rightarrow> (\<exists>q r. asking x t = Some q \<and> length q < 23 + 2 ^ 32
         \<and> response_for q r \<and> h = take 7 r \<and> n = length r - 7 \<and> prefix (to_client t) (drop 7 r)
         \<and> (linked t \<longrightarrow> to_client t = drop 7 r \<and> to_server t = [] \<and> awaiting j t)))"

definition whole_inv :: "('sk, 'pk) crypto \<Rightarrow> bool \<Rightarrow> nat \<Rightarrow> whole \<Rightarrow> bool" where
  "whole_inv cr b j t \<longleftrightarrow> client_inv cr b (linked t) (cl_world t) (cl_main t) (cl_pull t)
     \<and> server_inv (srv t) \<and> j < length (threads (srv t)) \<and> link_ok j t"

lemma response_for_error: "response_for q error_bytes"
  by (simp add: response_for_def)

lemma response_for_size:
  assumes "response_for q r"
  shows "7 \<le> length r" and "getPayloadSize (take 7 r) = Inr (length r - 7)"
proof -
  obtain code p where r: "r = response_bytes code p" and p: "length p < 2 ^ 32"
    using assms by (auto simp: response_for_def response_ok_def)
  show "getPayloadSize (take 7 r) = Inr (length r - 7)"
    unfolding r announced_size [OF p] by (simp add: length_response)
  show "7 \<le> length r" by (simp add: r length_response)
qed

text \<open>The response of a thread of the server.\<close>

lemma server_response:
  assumes "server_inv s" and "i < length (threads s)" and "threads s ! i = (Serving q (Return (Inr r)), c)"
  shows "response_for q r"
  using server_invD(3) [OF assms(1,2)] by (auto simp: assms(3) phase_ok_def response_for_def)

section \<open>Every step keeps the invariant\<close>

lemma asking_simps [simp]:
  "asking x (t\<lparr>srv := s\<rparr>) = asking x t" "asking x (t\<lparr>conn_mutex := m\<rparr>) = asking x t" "asking x (t\<lparr>linked := u\<rparr>) = asking x t"
  "asking x (t\<lparr>to_server := o1\<rparr>) = asking x t" "asking x (t\<lparr>to_client := o2\<rparr>) = asking x t"
  by (simp_all add: asking_def split: who.split)

lemma link_ok_owner:
  assumes "link_ok j t" and "owner (conn_mutex t) = Some x"
  obtains q where "asking x t = Some q" and "length q < 23 + 2 ^ 32"
  using assms by (auto simp: link_ok_def owner_def split: mutex.splits)

lemma link_ok_cong:
  assumes "link_ok j t" and "conn_mutex u = conn_mutex t" "linked u = linked t" "to_server u = to_server t" "to_client u = to_client t"
    and "threads (srv u) ! j = threads (srv t) ! j" and "\<And>x. owner (conn_mutex t) = Some x \<Longrightarrow> asking x u = asking x t"
  shows "link_ok j u"
  using assms by (simp add: link_ok_def quiet_def under_way_def awaiting_def owner_def split: mutex.splits)

text \<open>After the loss nothing is known of the server's side, and less may have arrived.\<close>

lemma link_ok_lost:
  assumes "link_ok j t" and "\<not> linked u" "conn_mutex u = conn_mutex t" "prefix (to_client u) (to_client t)"
    and "\<And>x. asking x u = asking x t"
  shows "link_ok j u"
  using assms prefix_order.trans [OF assms(4)]
  by (fastforce simp: link_ok_def quiet_def split: mutex.splits)

lemma own_request:
  assumes "client_inv cr b up w p q" and "asked p = Some d \<or> asked q = Some d" and "length d < 23 + 2 ^ 32"
  shows "whole_request d"
  using good_request_whole(1) client_asks [OF assms(1,2)] assms(3) by blast

lemma asking_asked: "asking x t = Some q \<Longrightarrow> asked (cl_main t) = Some q \<or> asked (cl_pull t) = Some q"
  by (cases x) (simp_all add: asking_def)

text \<open>The owner goes on.\<close>

lemma client_resume:
  assumes "client_inv cr b up (cl_world t) (cl_main t) (cl_pull t)" and "asking x t = Some q"
    and "\<And>l. l \<or> up \<Longrightarrow> answers l q r"
  shows "client_inv cr b up (cl_world (resume x r t)) (cl_main (resume x r t)) (cl_pull (resume x r t))"
proof (cases x)
  case Main_thread
  with assms(2) have "asked (cl_main t) = Some q" by (simp add: asking_def)
  from client_main_resumed [OF assms(1) this assms(3)] show ?thesis by (simp add: Main_thread resume_def)
next
  case Pull_thread
  with assms(2) have "asked (cl_pull t) = Some q" by (simp add: asking_def)
  from client_pull_resumed [OF assms(1) this assms(3)] show ?thesis by (simp add: Pull_thread resume_def)
qed

lemma resume_fields [simp]:
  "cl_world (resume x r t) = cl_world t" "srv (resume x r t) = srv t" "conn_mutex (resume x r t) = Free"
  "linked (resume x r t) = linked t" "to_server (resume x r t) = to_server t" "to_client (resume x r t) = to_client t"
  by (cases x; simp add: resume_def)+

lemma awaiting_simps [simp]: "awaiting j (resume x r t) = awaiting j t" "awaiting j (t\<lparr>to_client := bs\<rparr>) = awaiting j t"
  "awaiting j (t\<lparr>conn_mutex := m\<rparr>) = awaiting j t" "awaiting j (t\<lparr>to_server := bs\<rparr>) = awaiting j t"
  by (simp_all add: awaiting_def)

lemma header_read:
  assumes "link_ok j t" and "conn_mutex t = To_read_header x" and "7 \<le> length (to_client t)"
  obtains q r where "asking x t = Some q" and "length q < 23 + 2 ^ 32" and "response_for q r" and "prefix (to_client t) r"
    and "linked t \<longrightarrow> r = to_client t \<and> to_server t = [] \<and> awaiting j t"
proof -
  obtain q r where q: "asking x t = Some q" "length q < 23 + 2 ^ 32" "response_for q r" "prefix (to_client t) r"
    and u: "linked t \<longrightarrow> under_way j q t"
    using assms(1,2) by (auto simp: link_ok_def)
  show thesis
  proof (cases "linked t")
    case True
    with u assms(3) have "to_server t = [] \<and> response_for q (to_client t) \<and> awaiting j t" by (auto simp: under_way_def)
    with that [of q "to_client t"] q show ?thesis by simp
  qed (use that q in blast)
qed

lemma payload_read:
  assumes "link_ok j t" and "conn_mutex t = To_read_payload x h n" and "n \<le> length (to_client t)"
  obtains q r where "asking x t = Some q" and "length q < 23 + 2 ^ 32" and "response_for q r" and "h @ take n (to_client t) = r"
    and "drop n (to_client t) = []" and "linked t \<longrightarrow> to_server t = [] \<and> awaiting j t"
proof -
  obtain q r where q: "asking x t = Some q" "length q < 23 + 2 ^ 32" "response_for q r" "h = take 7 r" "n = length r - 7"
      "prefix (to_client t) (drop 7 r)" "linked t \<longrightarrow> to_client t = drop 7 r \<and> to_server t = [] \<and> awaiting j t"
    using assms(1,2) by (auto simp: link_ok_def)
  obtain zs where zs: "drop 7 r = to_client t @ zs" using q(6) by (auto simp: prefix_def)
  have "length r - 7 = length (to_client t) + length zs" using arg_cong [OF zs, of length] by simp
  then have "length zs = 0" using q(5) assms(3) by linarith
  with zs have "to_client t = drop 7 r" by simp
  with q that show thesis by simp
qed

definition whole_grows :: "whole \<Rightarrow> whole \<Rightarrow> bool" where
  "whole_grows t u \<longleftrightarrow> client_grows (cl_world t) (cl_world u) \<and> file_grows (srv t) (srv u)"

lemma server_part_step:
  assumes "whole_step cr mv j t u" and "server_inv (srv t)" and "j < length (threads (srv t))"
  shows "server_inv (srv u)" and "file_grows (srv t) (srv u)" and "j < length (threads (srv u))"
proof -
  have run: "(\<lambda>s s'. \<exists>i. server_step mv i s s')\<^sup>*\<^sup>* (srv t) (srv u)"
    using whole_step_server [OF assms(1)] by auto
  show "server_inv (srv u)" by (rule srv.reach_inv [OF run assms(2)])
  show "file_grows (srv t) (srv u)" by (rule srv.reach_grows [OF run assms(2)])
  show "j < length (threads (srv u))"
    using assms(1)
  proof cases
    case (others i s)
    then show ?thesis using step_other assms(3) by auto
  qed (use assms(3) in simp_all)
qed

lemma whole_inv_client:
  assumes "whole_step cr mv j t u" and "whole_inv cr b j t"
  shows "client_inv cr b (linked u) (cl_world u) (cl_main u) (cl_pull u) \<and> client_grows (cl_world t) (cl_world u)"
proof -
  have c: "client_inv cr b (linked t) (cl_world t) (cl_main t) (cl_pull t)" and k: "link_ok j t"
    using assms(2) by (simp_all add: whole_inv_def)
  from assms(1) show ?thesis
  proof cases
    case (main_moves g p w)
    with client_main_moves [of cr b "linked t" "cl_world t" g "cl_pull t"] c show ?thesis by simp
  next
    case (pull_moves g p w)
    with client_pull_moves [of cr b "linked t" "cl_world t" "cl_main t" g] c show ?thesis by simp
  next
    case (main_again st)
    with client_again(1) c show ?thesis by (simp add: client_grows_refl)
  next
    case (pull_again r)
    with client_again(2) c show ?thesis by (simp add: client_grows_refl)
  next
    case (reads_payload x h n)
    obtain q r where q: "asking x t = Some q" "length q < 23 + 2 ^ 32" "response_for q r" "h @ take n (to_client t) = r"
      by (rule payload_read [OF k reads_payload(2,3)])
    have "answers l q (Inr r)" for l using q(2,3) by (simp add: answers_def response_for_def)
    from client_resume [of cr b "linked t" "t\<lparr>to_client := drop n (to_client t)\<rparr>" x q "Inr r", OF _ _ this] c q(1)
    show ?thesis by (simp add: reads_payload(1) q(4) client_grows_refl)
  next
    case (throws x msg)
    obtain q where q: "asking x t = Some q" "length q < 23 + 2 ^ 32" by (rule link_ok_owner [OF k throws(2)])
    have "answers l q (Inl (System_error msg))" if "l \<or> linked t" for l
      using that throws(3) q(2) by (simp add: answers_def)
    from client_resume [of cr b "linked t" "t\<lparr>to_client := []\<rparr>" x q "Inl (System_error msg)", OF _ _ this] c q(1)
    show ?thesis by (simp add: throws(1) client_grows_refl)
  next
    case (is_lost a' b')
    with client_inv_down c show ?thesis by (simp add: client_grows_refl)
  qed (use c in \<open>simp_all add: client_grows_refl\<close>)
qed

lemma whole_inv_link:
  assumes "whole_step cr mv j t u" and "whole_inv cr b j t"
  shows "link_ok j u"
proof -
  have c: "client_inv cr b (linked t) (cl_world t) (cl_main t) (cl_pull t)" and k: "link_ok j t"
    and si: "server_inv (srv t)" and j: "j < length (threads (srv t))"
    using assms(2) by (simp_all add: whole_inv_def)
  from assms(1) show ?thesis
  proof cases
    case (main_moves g p w)
    have "asking x u = asking x t" if "owner (conn_mutex t) = Some x" for x
      by (rule link_ok_owner [OF k that], cases x) (use main_moves in \<open>auto simp: asking_def asked_def\<close>)
    with main_moves show ?thesis by (intro link_ok_cong [OF k]) simp_all
  next
    case (main_again st)
    have "asking x u = asking x t" if "owner (conn_mutex t) = Some x" for x
      by (rule link_ok_owner [OF k that], cases x) (use main_again in \<open>auto simp: asking_def asked_def\<close>)
    with main_again show ?thesis by (intro link_ok_cong [OF k]) simp_all
  next
    case (pull_moves g p w)
    have "asking x u = asking x t" if "owner (conn_mutex t) = Some x" for x
      by (rule link_ok_owner [OF k that], cases x) (use pull_moves in \<open>auto simp: asking_def asked_def\<close>)
    with pull_moves show ?thesis by (intro link_ok_cong [OF k]) simp_all
  next
    case (pull_again r)
    have "asking x u = asking x t" if "owner (conn_mutex t) = Some x" for x
      by (rule link_ok_owner [OF k that], cases x) (use pull_again in \<open>auto simp: asking_def asked_def\<close>)
    with pull_again show ?thesis by (intro link_ok_cong [OF k]) simp_all
  next
    case (takes_mutex x q)
    then show ?thesis using k by (simp add: link_ok_def quiet_def)
  next
    case (writes x q)
    then show ?thesis
      using k response_for_error by (auto simp: link_ok_def quiet_def under_way_def)
  next
    case (reads_header x n)
    have len: "7 \<le> length (to_client t)" using reads_header(3) by simp
    obtain q r where q: "asking x t = Some q" "length q < 23 + 2 ^ 32" "response_for q r" "prefix (to_client t) r"
        "linked t \<longrightarrow> r = to_client t \<and> to_server t = [] \<and> awaiting j t"
      by (rule header_read [OF k reads_header(2) len])
    obtain zs where zs: "r = to_client t @ zs" using q(4) by (auto simp: prefix_def)
    have h: "take 7 (to_client t) = take 7 r" and d: "prefix (drop 7 (to_client t)) (drop 7 r)"
      using len by (simp_all add: zs)
    have "n = length r - 7" using reads_header(4) response_for_size(2) [OF q(3)] h by simp
    then have "\<exists>r. response_for q r \<and> take 7 (to_client t) = take 7 r \<and> n = length r - 7 \<and> prefix (drop 7 (to_client t)) (drop 7 r)
        \<and> (linked t \<longrightarrow> drop 7 (to_client t) = drop 7 r \<and> to_server t = [] \<and> awaiting j t)"
      using q(3,5) h d by (intro exI [of _ r]) simp
    with q(1,2) show ?thesis unfolding reads_header(1) link_ok_def by simp
  next
    case (reads_payload x h n)
    obtain q r where "drop n (to_client t) = []" "linked t \<longrightarrow> to_server t = [] \<and> awaiting j t"
      by (rule payload_read [OF k reads_payload(2,3)])
    then show ?thesis by (simp add: reads_payload(1) link_ok_def quiet_def)
  next
    case (throws x msg)
    then show ?thesis by (simp add: link_ok_def quiet_def)
  next
    case (is_lost a' b')
    then show ?thesis by (intro link_ok_lost [OF k]) (simp_all add: take_is_prefix)
  next
    case (others i s)
    have "threads s ! j = threads (srv t) ! j" using step_other [OF others(2) j] others(3) by simp
    then show ?thesis by (intro link_ok_cong [OF k]) (simp_all add: others(1))
  next
    case (server_reads c' n e)
    show ?thesis
    proof (cases "linked t")
      case False
      then show ?thesis by (intro link_ok_lost [OF k]) (simp_all add: server_reads(1))
    next
      case True
      have "to_server t \<noteq> []" using server_reads(4) by auto
      with True k obtain x q where m: "conn_mutex t = To_read_header x" "asking x t = Some q" "length q < 23 + 2 ^ 32"
        and q: "to_server t = q" "to_client t = []"
        by (auto simp: link_ok_def quiet_def under_way_def split: mutex.splits)
      have "whole_request q" by (rule own_request [OF c asking_asked [OF m(2)] m(3)])
      then have "n = length q" using server_reads(5) by (simp add: q(1) whole_request_def)
      then have "under_way j q u" using j q by (simp add: server_reads(1) under_way_def)
      moreover have "to_client u = []" "conn_mutex u = conn_mutex t" "asking x u = Some q"
        using q m(2) by (simp_all add: server_reads(1))
      ultimately show ?thesis using m response_for_error by (auto simp: link_ok_def)
    qed
  next
    case (server_runs q p c' p' st c'')
    show ?thesis
    proof (cases "linked t")
      case False
      then show ?thesis by (intro link_ok_lost [OF k]) (simp_all add: server_runs(1))
    next
      case True
      then show ?thesis
        using k j by (auto simp: server_runs link_ok_def quiet_def under_way_def awaiting_def split: mutex.splits)
    qed
  next
    case (server_sends q r c')
    show ?thesis
    proof (cases "linked t")
      case False
      then show ?thesis by (intro link_ok_lost [OF k]) (simp_all add: server_sends(1))
    next
      case True
      have "response_for q r" by (rule server_response [OF si j server_sends(3)])
      with True show ?thesis
        using k j by (auto simp: server_sends link_ok_def quiet_def under_way_def awaiting_def split: mutex.splits)
    qed
  next
    case (server_ends ph c')
    then show ?thesis by (intro link_ok_lost [OF k]) simp_all
  qed
qed

lemma whole_inv_step:
  assumes "whole_step cr mv j t u" and "whole_inv cr b j t"
  shows "whole_inv cr b j u" and "whole_grows t u"
  using whole_inv_client [OF assms] whole_inv_link [OF assms] server_part_step [OF assms(1)] assms(2)
  by (simp_all add: whole_inv_def whole_grows_def)

interpretation whole: machine "whole_step cr mv j" "whole_inv cr b j" whole_grows for cr mv j b
proof unfold_locales
  fix s t u
  show "whole_inv cr b j s \<Longrightarrow> whole_step cr mv j s t \<Longrightarrow> whole_inv cr b j t" by (rule whole_inv_step(1))
  show "whole_inv cr b j s \<Longrightarrow> whole_step cr mv j s t \<Longrightarrow> whole_grows s t" by (rule whole_inv_step(2))
  show "whole_grows s s" by (simp add: whole_grows_def client_grows_refl srv.grows_refl)
  show "whole_grows s t \<Longrightarrow> whole_grows t u \<Longrightarrow> whole_grows s u"
    unfolding whole_grows_def using client_grows_trans srv.grows_trans by blast
qed

end
