(* ===== verification/Whole_Progress.thy ===== *)
theory Whole_Progress
  imports Whole_Invariant
begin

text \<open>
  Runs of \<open>Whole_System\<close>: as long as the connection stands, whoever holds the mutex can be served
  by thread \<open>j\<close> of the server and released, and so can whoever waits for it.
\<close>

abbreviation whole_moves :: "('sk, 'pk) crypto \<Rightarrow> nat \<Rightarrow> nat \<Rightarrow> whole \<Rightarrow> whole \<Rightarrow> bool" where
  "whole_moves cr mv j \<equiv> (whole_step cr mv j)\<^sup>*\<^sup>*"

lemma runs_whole:
  assumes "runs j (srv t) s"
  shows "whole_moves cr mv j t (t\<lparr>srv := s\<rparr>)"
  using assms
proof (induction rule: rtranclp_induct)
  case base
  have "t\<lparr>srv := srv t\<rparr> = t" by simp
  then show ?case by simp
next
  case (step s s')
  from step.hyps(2) have "whole_step cr mv j (t\<lparr>srv := s\<rparr>) (t\<lparr>srv := s'\<rparr>)"
  proof cases
    case (1 q p c p' st c')
    then show ?thesis using server_runs [of j "t\<lparr>srv := s\<rparr>" q p c p' st c' cr mv] by simp
  qed
  with step.IH show ?case by (rule rtranclp.rtrancl_into_rtrancl)
qed

text \<open>What an exchange changes: the program of the thread that made it, and the server.\<close>

definition exchanged :: "who \<Rightarrow> bytes \<Rightarrow> bytes \<Rightarrow> whole \<Rightarrow> whole \<Rightarrow> bool" where
  "exchanged x q r t u \<longleftrightarrow> response_for q r \<and> cl_world u = cl_world t \<and> linked u \<and> conn_mutex u = Free
     \<and> (case x of Main_thread \<Rightarrow> cl_main u = resumed (Inr r) (cl_main t) \<and> cl_pull u = cl_pull t
         | Pull_thread \<Rightarrow> cl_pull u = resumed (Inr r) (cl_pull t) \<and> cl_main u = cl_main t)"

text \<open>The states in which the rest of an exchange is to be found.\<close>

definition same_client :: "whole \<Rightarrow> whole \<Rightarrow> bool" where
  "same_client t u \<longleftrightarrow> cl_world u = cl_world t \<and> cl_main u = cl_main t \<and> cl_pull u = cl_pull t \<and> linked u = linked t"

lemma exchanged_same: "same_client t u \<Longrightarrow> exchanged x q r u v \<Longrightarrow> exchanged x q r t v"
  by (cases x) (simp_all add: same_client_def exchanged_def)

lemma same_client_asking: "same_client t u \<Longrightarrow> asking x u = asking x t"
  by (simp add: same_client_def asking_def split: who.split)

definition can_exchange :: "('sk, 'pk) crypto \<Rightarrow> nat \<Rightarrow> nat \<Rightarrow> who \<Rightarrow> bytes \<Rightarrow> whole \<Rightarrow> bool" where
  "can_exchange cr mv j x q t \<longleftrightarrow> (\<exists>u r. whole_moves cr mv j t u \<and> exchanged x q r t u)"

lemma can_exchange_after:
  assumes "whole_moves cr mv j t u" and "can_exchange cr mv j x q u" and "same_client t u"
  shows "can_exchange cr mv j x q t"
  using assms exchanged_same [OF assms(3)] unfolding can_exchange_def by (meson rtranclp_trans)

lemma resume_exchanged:
  "response_for q r \<Longrightarrow> linked t \<Longrightarrow> exchanged x q r t (resume x (Inr r) (t\<lparr>to_client := bs\<rparr>))"
  by (cases x) (simp_all add: exchanged_def resume_def)

section \<open>From one place of \<^verbatim>\<open>sendAndReceive\<close> to the next\<close>

lemma finish_payload:
  assumes "conn_mutex t = To_read_payload x (take 7 r) n" and "n = length r - 7" and "to_client t = drop 7 r" and "linked t"
    and "response_for q r"
  shows "can_exchange cr mv j x q t"
proof -
  have "take 7 r @ take n (to_client t) = r" using assms(2,3) by simp
  moreover have "whole_step cr mv j t (resume x (Inr (take 7 r @ take n (to_client t))) (t\<lparr>to_client := drop n (to_client t)\<rparr>))"
    using assms(2,3) by (intro reads_payload [OF assms(1)]) simp
  ultimately show ?thesis
    using resume_exchanged [OF assms(5,4)] unfolding can_exchange_def by (metis r_into_rtranclp)
qed

lemma finish_header:
  assumes "conn_mutex t = To_read_header x" and "linked t" and "response_for q (to_client t)"
  shows "can_exchange cr mv j x q t"
proof -
  let ?u = "t\<lparr>to_client := drop 7 (to_client t), conn_mutex := To_read_payload x (take 7 (to_client t)) (length (to_client t) - 7)\<rparr>"
  have "whole_step cr mv j t ?u"
    using reads_header [OF assms(1), of "length (to_client t) - 7" cr mv j] response_for_size [OF assms(3)] by simp
  moreover have "can_exchange cr mv j x q ?u"
    by (rule finish_payload [where r = "to_client t"]) (use assms in simp_all)
  ultimately show ?thesis
    by (rule can_exchange_after [OF r_into_rtranclp]) (simp add: same_client_def)
qed

lemma finish_serving:
  assumes "conn_mutex t = To_read_header x" and "linked t" and "to_client t = []"
    and "server_inv (srv t)" and "j < length (threads (srv t))" and "threads (srv t) ! j = (Serving q p, c)"
  shows "can_exchange cr mv j x q t"
proof -
  obtain s r c' where s: "runs j (srv t) s" "threads s ! j = (Serving q (Return (Inr r)), c')"
      and r: "response_ok r" "response_shape q r"
    using serving_runs [OF assms(4-6)] by blast
  have j: "j < length (threads s)"
    using s(1) assms(5) by (induction rule: rtranclp_induct) (auto elim: own_statement.cases)
  let ?u = "t\<lparr>srv := s\<rparr>"
  let ?v = "?u\<lparr>to_client := r, srv := s\<lparr>threads := (threads s)[j := (Awaiting, c')]\<rparr>\<rparr>"
  have "whole_step cr mv j ?u ?v"
    using server_sends [of j ?u q r c' cr mv] j s(2) assms(2,3) by simp
  with runs_whole [OF s(1)] have "whole_moves cr mv j t ?v" by (rule rtranclp.rtrancl_into_rtrancl)
  moreover have "can_exchange cr mv j x q ?v"
    by (rule finish_header) (use assms r in \<open>simp_all add: response_for_def\<close>)
  ultimately show ?thesis by (rule can_exchange_after) (simp add: same_client_def)
qed

lemma finish_sent:
  assumes "conn_mutex t = To_read_header x" and "linked t" and "to_client t = []" and "to_server t = q" and "whole_request q"
    and "server_inv (srv t)" and "j < length (threads (srv t))" and "awaiting j t"
  shows "can_exchange cr mv j x q t"
proof -
  obtain c where c: "threads (srv t) ! j = (Awaiting, c)" using assms(8) by (auto simp: awaiting_def)
  define e :: srv_env where "e = \<lparr>now = [], token = replicate 16 0, stmt_ok = (\<lambda>_. True), max_vars = mv\<rparr>"
  have e: "env_ok e" "max_vars e = mv" by (simp_all add: e_def env_ok_def)
  let ?s = "(srv t)\<lparr>threads := (threads (srv t))[j := (Serving q (Request_handler_main e q), c)]\<rparr>"
  let ?u = "t\<lparr>to_server := [], srv := ?s\<rparr>"
  have "23 \<le> length q" "length q = 23 + get_payload_size (take 23 q)" using assms(5) by (simp_all add: whole_request_def)
  then have step: "whole_step cr mv j t ?u"
    using server_reads [OF assms(7) c, of "length q" e mv cr] assms(4) e by simp
  have "server_inv ?s" by (rule server_inv_step [OF assms(6) receive [OF assms(7) c e]])
  then have "can_exchange cr mv j x q ?u"
    using assms(1-3,7) by (intro finish_serving [where c = c]) simp_all
  with step show ?thesis by (rule can_exchange_after [OF r_into_rtranclp]) (simp add: same_client_def)
qed

lemma finish_to_write:
  assumes "whole_inv cr b j t" and "conn_mutex t = To_write x" and "linked t" and "asking x t = Some q"
  shows "can_exchange cr mv j x q t"
proof -
  let ?u = "t\<lparr>to_server := q, conn_mutex := To_read_header x\<rparr>"
  have l: "length q < 23 + 2 ^ 32" "to_server t = []" "to_client t = []" "awaiting j t"
    using assms by (auto simp: whole_inv_def link_ok_def quiet_def)
  have step: "whole_step cr mv j t ?u" using writes [OF assms(2,4), of cr mv j] assms(3) l(2) by simp
  have "whole_request q"
    by (rule own_request [OF conjunct1 [OF assms(1) [unfolded whole_inv_def]] asking_asked [OF assms(4)] l(1)])
  then have "can_exchange cr mv j x q ?u"
    using assms(1,3) l by (intro finish_sent) (simp_all add: whole_inv_def)
  with step show ?thesis by (rule can_exchange_after [OF r_into_rtranclp]) (simp add: same_client_def)
qed

text \<open>The owner of the mutex.\<close>

lemma owner_finishes:
  assumes "whole_inv cr b j t" and "linked t" and "owner (conn_mutex t) = Some x" and "asking x t = Some q"
  shows "can_exchange cr mv j x q t"
proof -
  have k: "link_ok j t" and si: "server_inv (srv t)" and j: "j < length (threads (srv t))"
    and c: "client_inv cr b (linked t) (cl_world t) (cl_main t) (cl_pull t)"
    using assms(1) by (simp_all add: whole_inv_def)
  show ?thesis
  proof (cases "conn_mutex t")
    case (To_write y)
    with assms show ?thesis by (intro finish_to_write) (simp_all add: owner_def)
  next
    case (To_read_header y)
    then have m: "conn_mutex t = To_read_header x" using assms(3) by (simp add: owner_def)
    then have q: "length q < 23 + 2 ^ 32" "under_way j q t" using k assms(2,4) by (auto simp: link_ok_def)
    have "whole_request q" by (rule own_request [OF c asking_asked [OF assms(4)] q(1)])
    with q(2) show ?thesis
        unfolding under_way_def
      using finish_sent [OF m assms(2) _ _ _ si j, where cr = cr and mv = mv]
        finish_serving [OF m assms(2) _ si j, where cr = cr and mv = mv] finish_header [OF m assms(2), where cr = cr and mv = mv and j = j]
      by blast
  next
    case (To_read_payload y h n)
    then obtain r where "conn_mutex t = To_read_payload x (take 7 r) n" "n = length r - 7" "to_client t = drop 7 r" "response_for q r"
      using k assms(2-4) by (auto simp: link_ok_def owner_def)
    with assms(2) show ?thesis by (intro finish_payload)
  qed (use assms(3) in \<open>simp add: owner_def\<close>)
qed

lemma free_finishes:
  assumes "whole_inv cr b j t" and "linked t" and "conn_mutex t = Free" and "asking x t = Some q" and "length q < 23 + 2 ^ 32"
  shows "can_exchange cr mv j x q t"
proof -
  let ?u = "t\<lparr>conn_mutex := To_write x\<rparr>"
  have step: "whole_step cr mv j t ?u" by (rule takes_mutex [OF assms(3-5)])
  have "can_exchange cr mv j x q ?u"
    by (rule finish_to_write [OF whole_inv_step(1) [OF step assms(1)]]) (use assms in simp_all)
  with step show ?thesis by (rule can_exchange_after [OF r_into_rtranclp]) (simp add: same_client_def)
qed

text \<open>Any thread that asks, the other one first if it holds the mutex.\<close>

definition answered :: "who \<Rightarrow> bytes \<Rightarrow> whole \<Rightarrow> whole \<Rightarrow> bool" where
  "answered x r t u \<longleftrightarrow> (case x of
       Main_thread \<Rightarrow> cl_main u = resumed (Inr r) (cl_main t)
     | Pull_thread \<Rightarrow> cl_pull u = resumed (Inr r) (cl_pull t))"

lemma exchanged_answered: "exchanged x q r t u \<Longrightarrow> answered x r t u"
  by (cases x) (simp_all add: exchanged_def answered_def)

lemma asker_finishes:
  assumes "whole_inv cr b j t" and "linked t" and "asking x t = Some q" and "length q < 23 + 2 ^ 32"
  shows "\<exists>u r. whole_moves cr mv j t u \<and> response_for q r \<and> answered x r t u \<and> cl_world u = cl_world t \<and> linked u"
proof (cases "owner (conn_mutex t) = None \<or> owner (conn_mutex t) = Some x")
  case True
  then have "can_exchange cr mv j x q t"
    using free_finishes [OF assms(1,2) _ assms(3,4), where mv = mv] owner_finishes [OF assms(1,2) _ assms(3), where mv = mv]
    by (auto simp: owner_def split: mutex.splits)
  then obtain u r where "whole_moves cr mv j t u" "exchanged x q r t u" unfolding can_exchange_def by blast
  with exchanged_answered [OF this(2)] show ?thesis unfolding exchanged_def by blast
next
  case False
  then obtain y where y: "owner (conn_mutex t) = Some y" "y \<noteq> x" by auto
  obtain d where d: "asking y t = Some d"
    by (rule link_ok_owner [OF _ y(1), of j]) (use assms(1) in \<open>simp_all add: whole_inv_def\<close>)
  obtain u r where u: "whole_moves cr mv j t u" "exchanged y d r t u"
    using owner_finishes [OF assms(1,2) y(1) d] unfolding can_exchange_def by blast
  have inv: "whole_inv cr b j u" by (rule whole.reach_inv [OF u(1) assms(1)])
  have a: "asking x u = Some q" "cl_world u = cl_world t" "linked u" "conn_mutex u = Free"
    and same: "answered x r' u v = answered x r' t v" for r' v
    using u(2) y(2) assms(3) by (cases x; cases y; simp add: exchanged_def asking_def answered_def)+
  obtain v r' where v: "whole_moves cr mv j u v" "exchanged x q r' u v"
    using free_finishes [OF inv a(3,4,1) assms(4), where mv = mv] unfolding can_exchange_def by blast
  with rtranclp_trans [OF u(1) v(1)] exchanged_answered [OF v(2)] a(2) show ?thesis
    unfolding same exchanged_def by metis
qed

end
