(* ===== verification/Whole_Pairing.thy ===== *)
theory Whole_Pairing
  imports Whole_Progress
begin

text \<open>
  Where the bytes on the connection of \<open>Whole_System\<close> come from: what a thread of the client reads while
  it holds the mutex is what the server computed, since the thread took it, for the request it wrote.
\<close>

lemma prefix_whole: "prefix xs ys \<Longrightarrow> length ys \<le> length xs \<Longrightarrow> xs = ys"
  by (auto simp: prefix_def)

section \<open>The history of a response\<close>

text \<open>A run during which \<open>x\<close> holds the mutex.\<close>

abbreviation held_moves :: "('sk, 'pk) crypto \<Rightarrow> nat \<Rightarrow> nat \<Rightarrow> who \<Rightarrow> whole \<Rightarrow> whole \<Rightarrow> bool" where
  "held_moves cr mv j x \<equiv> (\<lambda>t u. whole_step cr mv j t u \<and> owner (conn_mutex t) = Some x \<and> owner (conn_mutex u) = Some x)\<^sup>*\<^sup>*"

text \<open>After \<open>t0\<close>, with \<open>x\<close> waiting for the response to its request \<open>q\<close>, the handler of the server returned \<open>r\<close>
  for these bytes, and \<open>x\<close> has held the mutex ever since.\<close>

definition served :: "('sk, 'pk) crypto \<Rightarrow> nat \<Rightarrow> nat \<Rightarrow> whole \<Rightarrow> who \<Rightarrow> bytes \<Rightarrow> bytes \<Rightarrow> whole \<Rightarrow> bool" where
  "served cr mv j t0 x q r u \<longleftrightarrow> (\<exists>s c. whole_moves cr mv j t0 s \<and> conn_mutex s = To_read_header x \<and> asking x s = Some q
     \<and> threads (srv s) ! j = (Serving q (Return (Inr r)), c) \<and> held_moves cr mv j x s u)"

definition bytes_served :: "('sk, 'pk) crypto \<Rightarrow> nat \<Rightarrow> nat \<Rightarrow> whole \<Rightarrow> whole \<Rightarrow> bool" where
  "bytes_served cr mv j t0 u = (case conn_mutex u of
       To_read_header x \<Rightarrow> to_client u = []
         \<or> (\<exists>q r. asking x u = Some q \<and> served cr mv j t0 x q r u \<and> response_for q r \<and> prefix (to_client u) r)
     | To_read_payload x h n \<Rightarrow>
         (\<exists>q r. asking x u = Some q \<and> served cr mv j t0 x q r u \<and> response_for q r \<and> h = take 7 r \<and> n = length r - 7
            \<and> prefix (to_client u) (drop 7 r))
     | _ \<Rightarrow> True)"

text \<open>The owner of the mutex has the same request until it releases it.\<close>

lemma owner_asks:
  assumes "whole_step cr mv j t u" and "link_ok j t" and "owner (conn_mutex t) = Some x" and "owner (conn_mutex u) = Some x"
  shows "asking x u = asking x t"
proof -
  obtain q where q: "asking x t = Some q" by (rule link_ok_owner [OF assms(2,3)])
  from assms(1) show ?thesis
  proof cases
    case (reads_payload y h n)
    with assms(4) show ?thesis by (simp add: owner_def)
  next
    case (throws y msg)
    with assms(4) show ?thesis by (simp add: owner_def)
  qed (use q in \<open>cases x; simp add: asking_def asked_def\<close>)+
qed

lemma served_later:
  assumes "served cr mv j t0 x q r t" and "whole_step cr mv j t u" and "owner (conn_mutex t) = Some x" and "owner (conn_mutex u) = Some x"
  shows "served cr mv j t0 x q r u"
  using assms unfolding served_def by (blast intro: rtranclp.rtrancl_into_rtrancl)

lemma bytes_served_later:
  assumes "bytes_served cr mv j t0 t" and "whole_step cr mv j t u" and "link_ok j t"
    and "conn_mutex u = conn_mutex t" and "prefix (to_client u) (to_client t)"
  shows "bytes_served cr mv j t0 u"
proof (cases "owner (conn_mutex t)")
  case None
  then show ?thesis using assms(4) by (simp add: bytes_served_def owner_def split: mutex.splits)
next
  case (Some x)
  then have x: "owner (conn_mutex u) = Some x" using assms(4) by simp
  note a = owner_asks [OF assms(2,3) Some x] and s = served_later [OF _ assms(2) Some x, of t0]
  have p: "prefix (to_client u) c" if "prefix (to_client t) c" for c using prefix_order.trans [OF assms(5) that] .
  have e: "to_client u = []" if "to_client t = []" using assms(5) that by simp
  show ?thesis
  proof (cases "conn_mutex t")
    case (To_read_header y)
    with assms(1,4) Some a p e s show ?thesis by (simp add: bytes_served_def owner_def) blast
  next
    case (To_read_payload y h n)
    with assms(1,4) Some a p s show ?thesis by (simp add: bytes_served_def owner_def) blast
  qed (simp_all add: bytes_served_def assms(4))
qed

lemma bytes_served_step:
  assumes "whole_step cr mv j t u" and "whole_inv cr b j t" and "whole_moves cr mv j t0 t" and "bytes_served cr mv j t0 t"
  shows "bytes_served cr mv j t0 u"
proof -
  have k: "link_ok j t" and si: "server_inv (srv t)" and j: "j < length (threads (srv t))"
    using assms(2) by (simp_all add: whole_inv_def)
  from assms(1) show ?thesis
  proof cases
    case (writes x q)
    then show ?thesis using k by (simp add: bytes_served_def link_ok_def quiet_def)
  next
    case (reads_header x n)
    then obtain q r where q: "asking x t = Some q" "served cr mv j t0 x q r t" "response_for q r" "prefix (to_client t) r"
      using assms(4) by (auto simp: bytes_served_def)
    have h: "take 7 (to_client t) = take 7 r" "prefix (drop 7 (to_client t)) (drop 7 r)"
      using q(4) reads_header(3) by (auto simp: prefix_def)
    have o: "owner (conn_mutex t) = Some x" "owner (conn_mutex u) = Some x" using reads_header by (simp_all add: owner_def)
    have "asking x u = Some q" using q(1) by (simp add: reads_header(1))
    moreover have "n = length r - 7" using reads_header(4) response_for_size(2) [OF q(3)] h(1) by simp
    moreover note served_later [OF q(2) assms(1) o] q(3) h
    ultimately show ?thesis by (auto simp: reads_header(1) bytes_served_def)
  next
    case (server_sends q r c)
    show ?thesis
    proof (cases "linked t")
      case False
      then show ?thesis by (intro bytes_served_later [OF assms(4,1) k]) (simp_all add: server_sends(1))
    next
      case True
      then obtain x where x: "conn_mutex t = To_read_header x" "asking x t = Some q" "to_client t = []"
        using k server_sends(3) by (auto simp: link_ok_def quiet_def under_way_def awaiting_def split: mutex.splits)
      have o: "owner (conn_mutex t) = Some x" "owner (conn_mutex u) = Some x" by (simp_all add: server_sends(1) x(1) owner_def)
      have "served cr mv j t0 x q r t" unfolding served_def using assms(3) x(1,2) server_sends(3) by blast
      from served_later [OF this assms(1) o] server_response [OF si j server_sends(3)] x True show ?thesis
        by (simp add: bytes_served_def server_sends(1)) (meson prefix_order.refl)
    qed
  next
    case (is_lost a' b')
    show ?thesis by (rule bytes_served_later [OF assms(4,1) k]) (simp_all add: is_lost(1) take_is_prefix)
  next
    case (reads_payload x h n)
    then show ?thesis by (simp add: bytes_served_def)
  next
    case (throws x msg)
    then show ?thesis by (simp add: bytes_served_def)
  next
    case (takes_mutex x q)
    then show ?thesis by (simp add: bytes_served_def)
  qed (rule bytes_served_later [OF assms(4,1) k]; simp)+
qed

lemma bytes_served_reach:
  assumes "whole_moves cr mv j t0 u" and "whole_inv cr b j t0" and "owner (conn_mutex t0) = None"
  shows "bytes_served cr mv j t0 u"
  using assms(1)
proof (induction rule: rtranclp_induct)
  case base
  then show ?case using assms(3) by (simp add: bytes_served_def owner_def split: mutex.splits)
next
  case (step t u)
  show ?case by (rule bytes_served_step [OF step.hyps(2) whole.reach_inv [OF step.hyps(1) assms(2)] step.hyps(1) step.IH])
qed

end
