(* ===== verification/Whole_Rounds.thy ===== *)
theory Whole_Rounds
  imports Whole_Progress Coarse_Runs
begin

text \<open>
  A round of the pull thread in \<open>Whole_System\<close>: no step of its own waits for anything, so that it can
  end whenever its exchange can; what it may have to wait for is the mutex, in the hands of a main thread
  that is inside \<^verbatim>\<open>sendAndReceive\<close>.
\<close>

section \<open>The program of a round\<close>

text \<open>No step of the pull thread waits for anything, for any bytes of a response.\<close>

definition round_request :: "bytes \<Rightarrow> bool" where
  "round_request q \<longleftrightarrow> length q < 23 + 2 ^ 32"

abbreviation steady :: "('a \<Rightarrow> bool) \<Rightarrow> 'a client_act \<Rightarrow> bool" where
  "steady \<equiv> tame False id16 (\<lambda>v w. id16 w) round_request (\<lambda>q r. True)"

lemma steady_mild: "mild False round_request (\<lambda>q r. True) P p \<Longrightarrow> steady P p"
  by (erule tame_mono) (auto intro: id16_same)

lemma steady_ResponseRegister: "steady (\<lambda>_. True) (ResponseRegister cr data)"
proof (cases "readClientID data 7")
  case (Inr cid)
  then have "length cid = 16" using readClientID_Inr by blast
  then have cid: "id16 (upd_ctx (setClientID cid) w)" for w by (simp add: id16_def ctx_simps)
  have save: "steady (\<lambda>_. True) (unless_thrown (atom (saveMyInfo cr)) f)" if "\<And>a. steady (\<lambda>_. True) (f a)"
    for f :: "unit \<Rightarrow> (exn + unit) client_act"
    by (rule tame_unless_thrown [where P = "\<lambda>_. True"]) (auto intro: tame_atom that id16_same [OF same_ident_save])
  show ?thesis
    unfolding ResponseRegister_def Inr sum.case
    by (intro tame_change_then cid save steady_mild mild_rules) simp_all
qed (simp add: ResponseRegister_def tame_Done)

lemma steady_ResponseClientMain: "steady (\<lambda>_. True) (ResponseClientMain cr data)"
proof (cases "responseCode data = Code_RESPONSE_REGISTER")
  case True
  then show ?thesis by (simp add: ResponseClientMain_def tame_Done steady_ResponseRegister)
next
  case False
  then show ?thesis by (intro steady_mild mild_ResponseClientMain)
qed

lemma steady_Pull_round: "steady (\<lambda>_. True) (Pull_round cr)"
proof -
  have prints: "steady Q (andthen (Prints bs a) f)" if "steady Q (f a)" for Q bs and a :: unit and f :: "unit \<Rightarrow> (stage \<times> (exn + unit)) client_act"
    using that by (intro tame_andthen [where P = "\<lambda>_. True", OF steady_mild [OF mild_Prints]]) simp_all
  have "round_request (createBuffer (Message_no_payload (clientID (ctx w)) c))" if "id16 w" for w c
    using that by (simp add: round_request_def id16_def length_createBuffer Message_no_payload_def)
  then show ?thesis
    unfolding Pull_round_def
    by (auto intro!: tame_look_then tame_Done tame_Exchange prints tame_andthen [OF steady_ResponseClientMain] split: sum.split)
qed

lemma steady_StepE:
  assumes "steady P (Step g)" and "id16 w"
  obtains p v where "g w = Some (p, v)" and "id16 v" and "steady P p"
proof -
  have "g w \<noteq> None \<and> (\<forall>p v. g w = Some (p, v) \<longrightarrow> id16 v \<and> steady P p)"
    using assms(1) by cases (use assms(2) in blast)
  with that show thesis by auto
qed

lemma steady_ExchangeE:
  assumes "steady P (Exchange q k)"
  shows "round_request q \<and> steady P (k r)"
  using assms by cases auto

lemma steady_resumed: "steady P p \<Longrightarrow> steady P (resumed r p)"
  by (cases p) (auto simp: resumed_def dest: steady_ExchangeE)

lemma steady_step:
  assumes "whole_step cr mv j t u" and "steady (\<lambda>_. True) (cl_pull t)" and "id16 (cl_world t)"
  shows "steady (\<lambda>_. True) (cl_pull u)"
  using assms(1)
proof cases
  case (pull_moves g p w)
  then show ?thesis using assms(2,3) by (auto elim: steady_StepE)
next
  case (reads_payload x h n)
  then show ?thesis using assms(2) steady_resumed by (cases x) (auto simp: resume_def)
next
  case (throws x msg)
  then show ?thesis using assms(2) steady_resumed by (cases x) (auto simp: resume_def)
qed (use assms(2) steady_Pull_round in auto)

lemma whole_inv_id16: "whole_inv cr b j t \<Longrightarrow> id16 (cl_world t)"
  unfolding whole_inv_def using client_inv_id16 by blast

lemma steady_whole:
  assumes "whole_moves cr mv j t u" and "whole_inv cr b j t" and "steady (\<lambda>_. True) (cl_pull t)"
  shows "steady (\<lambda>_. True) (cl_pull u)"
  using assms(1)
proof (induction rule: rtranclp_induct)
  case (step u v)
  show ?case by (rule steady_step [OF step.hyps(2) step.IH whole_inv_id16 [OF whole.reach_inv [OF step.hyps(1) assms(2)]]])
qed (rule assms(3))

section \<open>A round can end\<close>

text \<open>What the main thread has to do for it: nothing, or to end the exchange it is in.\<close>

definition main_left :: "whole \<Rightarrow> whole \<Rightarrow> bool" where
  "main_left t u \<longleftrightarrow> cl_main u = cl_main t
     \<or> owner (conn_mutex t) = Some Main_thread \<and> (\<exists>r. cl_main u = resumed r (cl_main t))"

lemma main_left_free: "owner (conn_mutex t) \<noteq> Some Main_thread \<Longrightarrow> main_left t u \<longleftrightarrow> cl_main u = cl_main t"
  by (simp add: main_left_def)

text \<open>After the loss of the connection, the calls of the owner throw.\<close>

lemma free_throws:
  assumes "\<not> linked t" and "conn_mutex t = Free" and "cl_pull t = Exchange q k" and "length q < 23 + 2 ^ 32"
  shows "\<exists>u r. whole_moves cr mv j t u \<and> cl_pull u = k r \<and> conn_mutex u = Free \<and> cl_main u = cl_main t \<and> \<not> linked u"
proof -
  let ?u = "t\<lparr>conn_mutex := To_write Pull_thread\<rparr>"
  let ?v = "resume Pull_thread (Inl (System_error [])) (?u\<lparr>to_client := []\<rparr>)"
  have "whole_step cr mv j t ?u"
    by (rule takes_mutex [OF assms(2) _ assms(4)]) (simp add: asking_def asked_def assms(3))
  moreover have "whole_step cr mv j ?u ?v" by (rule throws) (simp_all add: owner_def assms(1))
  ultimately have "whole_moves cr mv j t ?v" by (meson r_into_rtranclp rtranclp.rtrancl_into_rtrancl)
  then show ?thesis
    by (intro exI [of _ ?v] exI [of _ "Inl (System_error [])"]) (simp add: resume_def resumed_def assms(1,3))
qed

lemma lost_ends:
  assumes "\<not> linked t" and "cl_pull t = Exchange q k" and "length q < 23 + 2 ^ 32"
  shows "\<exists>u r. whole_moves cr mv j t u \<and> cl_pull u = k r \<and> conn_mutex u = Free \<and> main_left t u"
proof (cases "owner (conn_mutex t)")
  case None
  then have "conn_mutex t = Free" by (simp add: owner_def split: mutex.splits)
  from free_throws [OF assms(1) this assms(2,3), of cr mv j] show ?thesis unfolding main_left_def by blast
next
  case (Some x)
  let ?e = "Inl (System_error []) :: exn + bytes"
  let ?u = "resume x ?e (t\<lparr>to_client := []\<rparr>)"
  have s: "whole_step cr mv j t ?u" by (rule throws [OF Some assms(1)])
  show ?thesis
  proof (cases x)
    case Pull_thread
    with s show ?thesis
      by (intro exI [of _ ?u] exI [of _ ?e]) (auto simp: resume_def resumed_def assms(2) main_left_def)
  next
    case Main_thread
    then have u: "cl_pull ?u = Exchange q k" "cl_main ?u = resumed ?e (cl_main t)" by (simp_all add: resume_def assms(2))
    obtain v r where "whole_moves cr mv j ?u v" "cl_pull v = k r" "conn_mutex v = Free" "cl_main v = cl_main ?u"
      using free_throws [of ?u, OF _ _ u(1) assms(3), where cr = cr and mv = mv and j = j] assms(1) by auto
    moreover from this(4) have "main_left t v" using Some Main_thread u(2) by (auto simp: main_left_def)
    ultimately show ?thesis using converse_rtranclp_into_rtranclp [of "whole_step cr mv j", OF s] by blast
  qed
qed

text \<open>While it stands, the exchanges are completed, first that of the main thread if it is in one.\<close>

lemma linked_ends:
  assumes "whole_inv cr b j t" and "linked t" and "cl_pull t = Exchange q k" and "length q < 23 + 2 ^ 32"
  shows "\<exists>u r. whole_moves cr mv j t u \<and> cl_pull u = k r \<and> conn_mutex u = Free \<and> main_left t u \<and> linked u"
proof -
  have now: "\<exists>u r. whole_moves cr mv j v u \<and> cl_pull u = k r \<and> conn_mutex u = Free \<and> cl_main u = cl_main v \<and> linked u"
    if v: "whole_inv cr b j v" "linked v" "cl_pull v = Exchange q k" "owner (conn_mutex v) \<noteq> Some Main_thread" for v
  proof -
    have a: "asking Pull_thread v = Some q" by (simp add: asking_def asked_def v(3))
    have "can_exchange cr mv j Pull_thread q v"
    proof (cases "conn_mutex v = Free")
      case True
      show ?thesis by (rule free_finishes [OF v(1,2) True a assms(4)])
    next
      case False
      then obtain x where x: "owner (conn_mutex v) = Some x" by (cases "conn_mutex v") (auto simp: owner_def)
      with v(4) have "owner (conn_mutex v) = Some Pull_thread" by (cases x) simp_all
      from owner_finishes [OF v(1,2) this a] show ?thesis .
    qed
    then obtain u r where "whole_moves cr mv j v u" "exchanged Pull_thread q r v u" unfolding can_exchange_def by blast
    then show ?thesis by (intro exI [of _ u] exI [of _ "Inr r"]) (simp add: exchanged_def resumed_def v(3))
  qed
  show ?thesis
  proof (cases "owner (conn_mutex t) = Some Main_thread")
    case False
    from now [OF assms(1-3) this] show ?thesis unfolding main_left_def by blast
  next
    case True
    obtain d where d: "asking Main_thread t = Some d"
      by (rule link_ok_owner [OF _ True, of j]) (use assms(1) in \<open>simp_all add: whole_inv_def\<close>)
    obtain v x where v: "whole_moves cr mv j t v" "exchanged Main_thread d x t v"
      using owner_finishes [OF assms(1,2) True d, of mv] unfolding can_exchange_def by blast
    then have f: "linked v" "cl_pull v = Exchange q k" "owner (conn_mutex v) \<noteq> Some Main_thread" "cl_main v = resumed (Inr x) (cl_main t)"
      by (simp_all add: exchanged_def owner_def assms(3))
    obtain u r where "whole_moves cr mv j v u" "cl_pull u = k r" "conn_mutex u = Free" "cl_main u = cl_main v" "linked u"
      using now [OF whole.reach_inv [OF v(1) assms(1)] f(1-3)] by blast
    moreover from this(4) have "main_left t u" using True f(4) by (auto simp: main_left_def)
    ultimately show ?thesis using rtranclp_trans [OF v(1)] by blast
  qed
qed

lemma round_can_end:
  assumes "steady P p" and "cl_pull t = p" and "whole_inv cr b j t"
  shows "\<exists>u a. whole_moves cr mv j t u \<and> cl_pull u = Done a \<and> main_left t u \<and> (linked t \<longrightarrow> linked u)"
  using assms
proof (induction arbitrary: t rule: tame.induct)
  case (tame_Done a)
  then show ?case by (intro exI [of _ t]) (simp add: main_left_def)
next
  case (tame_Step g)
  have id: "id16 (cl_world t)" by (rule whole_inv_id16 [OF tame_Step.prems(2)])
  have "g (cl_world t) \<noteq> None" using tame_Step.hyps(3) [OF id] by blast
  then obtain p w where g: "g (cl_world t) = Some (p, w)" by auto
  let ?t = "t\<lparr>cl_world := w, cl_pull := p\<rparr>"
  have s: "whole_step cr mv j t ?t" by (rule pull_moves [OF tame_Step.prems(1) g])
  obtain u a where "whole_moves cr mv j ?t u" "cl_pull u = Done a" "main_left ?t u" "linked ?t \<longrightarrow> linked u"
    using tame_Step.IH [OF id g _ whole_inv_step(1) [OF s tame_Step.prems(2)]] by auto
  with converse_rtranclp_into_rtranclp [of "whole_step cr mv j", OF s] show ?case
    by (intro exI [of _ u] exI [of _ a]) (simp add: main_left_def)
next
  case (tame_Exchange q k)
  have len: "length q < 23 + 2 ^ 32" using tame_Exchange.hyps by (simp add: round_request_def)
  obtain v r where v: "whole_moves cr mv j t v" "cl_pull v = k r" "conn_mutex v = Free" "main_left t v" "linked t \<longrightarrow> linked v"
    using linked_ends [OF tame_Exchange.prems(2) _ tame_Exchange.prems(1) len, where mv = mv]
      lost_ends [OF _ tame_Exchange.prems(1) len, where cr = cr and mv = mv and j = j] by (cases "linked t") blast+
  obtain u a where "whole_moves cr mv j v u" "cl_pull u = Done a" "main_left v u" "linked v \<longrightarrow> linked u"
    using tame_Exchange.IH [OF TrueI v(2) whole.reach_inv [OF v(1) tame_Exchange.prems(2)]] by blast
  moreover from this(3) have "cl_main u = cl_main v" by (simp add: main_left_def v(3) owner_def)
  then have "main_left t u" using v(4) by (simp add: main_left_def)
  ultimately show ?case using rtranclp_trans [OF v(1)] v(5) by blast
qed

end
