(* ===== verification/Whole_Properties.thy ===== *)
theory Whole_Properties
  imports Whole_Pairing Whole_Rounds Server_Thread_Properties
begin

text \<open>
  The properties of a client and the server together, with the connection between them: what every
  interleaving keeps, that a response goes to the thread that asked, that every exchange can be
  completed, and what the loss of the connection costs.
\<close>

section \<open>Starts and runs\<close>

text \<open>Both threads of the client at the start of a turn and of a round, thread \<open>j\<close> of the server waiting for
  a request, nothing on the connection. The server may be in any state it reaches.\<close>

definition whole_start :: "nat \<Rightarrow> whole \<Rightarrow> bool" where
  "whole_start j t \<longleftrightarrow> cl_main t = Done (Acting, Again) \<and> cl_pull t = Done (Acting, Inr ()) \<and> world_wf (cl_world t)
     \<and> j < length (threads (srv t)) \<and> awaiting j t \<and> conn_mutex t = Free \<and> linked t \<and> to_server t = [] \<and> to_client t = []"

lemma whole_start_inv:
  assumes "whole_start j t" and "server_inv (srv t)" and "b \<Longrightarrow> crypto_ok cr \<and> key_and_path cr (cl_world t)"
  shows "whole_inv cr b j t"
proof -
  have h: "holds cr b (cl_world t)" using assms(1,3) by (auto simp: whole_start_def holds_def key_and_path_def)
  then have "client_inv cr b (linked t) (cl_world t) (cl_main t) (cl_pull t)"
    using assms(1,3) by (auto simp: whole_start_def client_inv_def turn_ends_def round_ends_def intro: sound_done sound_Done)
  with assms(1,2) show ?thesis by (simp add: whole_start_def whole_inv_def link_ok_def quiet_def)
qed

lemma whole_reach:
  assumes "db_ok d" and "server_moves mv (server_on d n) (srv t)" and "whole_start j t" and "whole_moves cr mv j t u"
    and "b \<Longrightarrow> crypto_ok cr \<and> key_and_path cr (cl_world t)"
  shows "whole_inv cr b j u" and "whole_grows t u"
proof -
  note i = whole_start_inv [OF assms(3) server_inv_reach [OF assms(1,2)] assms(5)]
  show "whole_inv cr b j u" by (rule whole.reach_inv [OF assms(4) i])
  show "whole_grows t u" by (rule whole.reach_grows [OF assms(4) i])
qed

lemma client_inv_done:
  assumes "client_inv cr b up w p q" and "l \<or> up"
  shows "p = Done x \<Longrightarrow> turn_ends l b x w" and "q = Done y \<Longrightarrow> round_ends l b y w"
proof -
  have s: "sound_act l cr b (turn_ends l b) p w" "sound_act l cr b (round_ends l b) q w"
    using assms unfolding client_inv_def by blast+
  have now: "later cr b w w" using assms(1) by (simp add: client_inv_def)
  show "p = Done x \<Longrightarrow> turn_ends l b x w" using s now by (auto elim: sound_DoneE)
  show "q = Done y \<Longrightarrow> round_ends l b y w" using s now by (auto elim: sound_DoneE)
qed

text \<open>Steps of one program as steps of the system.\<close>

lemma main_steps:
  "own_step\<^sup>*\<^sup>* (p, w) (p', w') \<Longrightarrow> whole_moves cr mv j (t\<lparr>cl_world := w, cl_main := p\<rparr>) (t\<lparr>cl_world := w', cl_main := p'\<rparr>)"
proof (induction "(p', w')" arbitrary: p' w' rule: rtranclp_induct)
  case (step y)
  obtain r u where y: "y = (r, u)" by fastforce
  have "whole_step cr mv j (t\<lparr>cl_world := u, cl_main := r\<rparr>) (t\<lparr>cl_world := w', cl_main := p'\<rparr>)"
    using step.hyps(2) unfolding y
    by (cases rule: own_step.cases) (use main_moves [of "t\<lparr>cl_world := u, cl_main := r\<rparr>" _ p' w' cr mv j] in simp)
  with step.hyps(3) [OF y] show ?case by (rule rtranclp.rtrancl_into_rtrancl)
qed simp

lemma pull_steps:
  "own_step\<^sup>*\<^sup>* (p, w) (p', w') \<Longrightarrow> whole_moves cr mv j (t\<lparr>cl_world := w, cl_pull := p\<rparr>) (t\<lparr>cl_world := w', cl_pull := p'\<rparr>)"
proof (induction "(p', w')" arbitrary: p' w' rule: rtranclp_induct)
  case (step y)
  obtain r u where y: "y = (r, u)" by fastforce
  have "whole_step cr mv j (t\<lparr>cl_world := u, cl_pull := r\<rparr>) (t\<lparr>cl_world := w', cl_pull := p'\<rparr>)"
    using step.hyps(2) unfolding y
    by (cases rule: own_step.cases) (use pull_moves [of "t\<lparr>cl_world := u, cl_pull := r\<rparr>" _ p' w' cr mv j] in simp)
  with step.hyps(3) [OF y] show ?case by (rule rtranclp.rtrancl_into_rtrancl)
qed simp

text \<open>A round up to its exchange.\<close>

abbreviation pull_data :: "client_world \<Rightarrow> bytes" where
  "pull_data w \<equiv> createBuffer (Message_no_payload (clientID (ctx w)) Code_REQUEST_WAITING_MESSAGES)"

lemma round_asks:
  assumes "cl_pull t = Done y" and "hasClientID (ctx (cl_world t))"
  shows "whole_moves cr mv j t (t\<lparr>cl_pull := Exchange (pull_data (cl_world t)) (Pull_rest cr)\<rparr>)"
proof -
  have "whole_step cr mv j t (t\<lparr>cl_pull := Pull_round cr\<rparr>)" by (rule pull_again [OF assms(1)])
  moreover have "whole_moves cr mv j (t\<lparr>cl_pull := Pull_round cr\<rparr>) (t\<lparr>cl_pull := Exchange (pull_data (cl_world t)) (Pull_rest cr)\<rparr>)"
    using pull_steps [OF Pull_round_asks [OF assms(2), of cr], of cr mv j t] by simp
  ultimately show ?thesis by (rule converse_rtranclp_into_rtranclp)
qed

lemma pull_data_size: "world_wf w \<Longrightarrow> length (pull_data w) < 23 + 2 ^ 32"
  using world_wf_id [of w] by (simp add: length_createBuffer Message_no_payload_def)

text \<open>A whole round: the exchange, and the handling of whatever the server answered.\<close>

lemma pull_round_run:
  assumes "whole_inv cr b j t" and "linked t" and "cl_pull t = Done y" and "hasClientID (ctx (cl_world t))"
  shows "\<exists>u x. whole_moves cr mv j t u \<and> cl_pull u = Done (Handling, x)"
proof -
  let ?q = "pull_data (cl_world t)" and ?k = "Pull_rest cr :: exn + bytes \<Rightarrow> (stage \<times> (exn + unit)) client_act"
  let ?t = "t\<lparr>cl_pull := Exchange ?q ?k\<rparr>"
  have t: "whole_moves cr mv j t ?t" by (rule round_asks [OF assms(3,4)])
  have "world_wf (cl_world t)" using assms(1) by (simp add: whole_inv_def client_inv_def holds_def)
  from pull_data_size [OF this] obtain u r where u: "whole_moves cr mv j ?t u" "answered Pull_thread r ?t u"
    using asker_finishes [OF whole.reach_inv [OF t assms(1)], where x = Pull_thread and q = ?q and mv = mv] assms(2)
    by (auto simp: asking_def asked_def)
  then have p: "cl_pull u = Pull_rest cr (Inr r)" by (simp add: answered_def resumed_def)
  let ?head = "lit ''Pulling waiting messages automatically:'' @ nl"
  obtain x w where x: "responseClientMain cr r (say ?head (cl_world u)) = (x, w)" by fastforce
  have "own_step\<^sup>*\<^sup>* (Pull_rest cr (Inr r), cl_world u)
      (andthen (ResponseClientMain cr r) (\<lambda>r. Done (Handling, r)), say ?head (cl_world u))"
    unfolding Pull_rest_def sum.case
    by (rule steps_alone [where n = 0 and p = "Prints [?head] ()" and f = "\<lambda>_. andthen (ResponseClientMain cr r) (\<lambda>r. Done (Handling, r))"])
       (simp add: alone_simps)
  moreover have "own_step\<^sup>*\<^sup>* (andthen (ResponseClientMain cr r) (\<lambda>r. Done (Handling, r)), say ?head (cl_world u)) (Done (Handling, x), w)"
    by (rule steps_alone [where n = 0]) (simp add: alone_simps x)
  ultimately have "own_step\<^sup>*\<^sup>* (cl_pull u, cl_world u) (Done (Handling, x), w)" unfolding p by (rule rtranclp_trans)
  from pull_steps [OF this, of cr mv j u] have "whole_moves cr mv j u (u\<lparr>cl_world := w, cl_pull := Done (Handling, x)\<rparr>)" by simp
  with rtranclp_trans [OF t u(1)] show ?thesis
    by (intro exI [of _ "u\<lparr>cl_world := w, cl_pull := Done (Handling, x)\<rparr>"] exI [of _ x]) (simp add: rtranclp_trans)
qed

section \<open>The loss of the connection\<close>

lemma stays_lost:
  assumes "whole_moves cr mv j u v" and "\<not> linked u" and "to_client u = []"
  shows "\<not> linked v \<and> to_client v = []"
  using assms(1)
proof (induction rule: rtranclp_induct)
  case (step v v')
  from step.hyps(2) show ?case by cases (use step.IH in simp_all)
qed (use assms in simp)

text \<open>Ids are not reused: a message that is gone does not come back.\<close>

lemma gone_for_good:
  assumes "file_grows s s'" and "m \<notin> set (messages (committed (dbfile s)))" and "m_id m \<le> seq (committed (dbfile s))"
  shows "m \<notin> set (messages (committed (dbfile s')))"
  using assms by (auto simp: file_grows_def evolves_def)

text \<open>A fetch that is not interleaved, up to where its response would be sent.\<close>

lemma fetch_served:
  assumes "j < length (threads (srv t))" and "threads (srv t) ! j = (Awaiting, Auto)" and "\<not> busy (srv t) j"
    and "to_server t = q" and "whole_request q" and "env_ok e" and "max_vars e = mv"
  obtains s where "whole_moves cr mv j t (t\<lparr>to_server := [], srv := s\<rparr>)"
    and "committed (dbfile s) = snd (request_handler_main (all_succeed e) q (committed (dbfile (srv t))))"
proof -
  let ?p = "Request_handler_main e q" and ?f = "dbfile (srv t)"
  let ?s = "(srv t)\<lparr>threads := (threads (srv t))[j := (Serving q ?p, Auto)]\<rparr>"
  let ?t = "t\<lparr>to_server := [], srv := ?s\<rparr>"
  have "23 \<le> length q" "length q = 23 + get_payload_size (take 23 q)" using assms(5) by (simp_all add: whole_request_def)
  then have reads: "whole_step cr mv j t ?t"
    using server_reads [OF assms(1,2), of "length q" e mv cr] assms(4,6,7) by simp
  obtain r st c where run: "run_alone ?p False ?f Auto = (r, st, c)" by (cases "run_alone ?p False ?f Auto")
  have b: "busy ?s j = False" using assms(3) by (simp add: busy_upd)
  let ?u = "?s\<lparr>dbfile := st, threads := (threads ?s)[j := (Serving q (Return r), c)]\<rparr>"
  have "runs j ?s ?u"
    using assms(1) run b by (intro run_alone_runs [where p = ?p]) simp_all
  from runs_whole [where t = ?t, of j ?u cr mv] this have "whole_moves cr mv j ?t (?t\<lparr>srv := ?u\<rparr>)" by simp
  from converse_rtranclp_into_rtranclp [OF reads this] request_alone(1) [OF clean_Auto run] show ?thesis
    by (intro that [of ?u]) simp_all
qed

section \<open>A start of the sample\<close>

definition whole_of :: "client_world \<Rightarrow> db \<Rightarrow> whole" where
  "whole_of w d = \<lparr>cl_world = w, cl_main = Done (Acting, Again), cl_pull = Done (Acting, Inr ()), srv = one_thread d,
     conn_mutex = Free, linked = True, to_server = [], to_client = []\<rparr>"

lemma whole_of_start: "world_wf w \<Longrightarrow> whole_start 0 (whole_of w d)"
  and whole_of_fields: "cl_world (whole_of w d) = w" "srv (whole_of w d) = one_thread d" "linked (whole_of w d)"
    "cl_main (whole_of w d) = Done (Acting, Again)" "cl_pull (whole_of w d) = Done (Acting, Inr ())"
  by (simp_all add: whole_start_def whole_of_def awaiting_def one_thread_def)

lemma whole_of_reached: "server_moves mv (server_on d 0) (srv (whole_of w d))"
  unfolding whole_of_fields one_thread_def by (rule steps_trans [OF first_connection rtranclp.rtrancl_refl])

lemma alice_round:
  "\<exists>u x. whole_moves toy 7 0 (whole_of (alice_world []) sample_db) u \<and> cl_pull u = Done (Handling, x)"
proof (rule pull_round_run)
  have "server_inv (srv (whole_of (alice_world []) sample_db))"
    by (rule server_inv_reach [OF db_ok_sample whole_of_reached])
  then show "whole_inv toy False 0 (whole_of (alice_world []) sample_db)"
    by (intro whole_start_inv whole_of_start world_wf_sample) simp_all
qed (simp_all add: whole_of_fields sample_worlds sample_registered)

section \<open>The properties\<close>

text \<open>C6: in every state that a client and the server reach together, however the calls of the client's two
  threads, the SQL statements of all threads of the server and the socket calls between them are
  interleaved, and wherever the connection is lost: the client's state keeps its types, no cached client
  is lost and none loses a key, the committed tables are well-formed, and no exchange fails as long as
  the connection stands.\<close>

lemma whole_system_invariant:
  assumes "db_ok d" and "server_moves mv (server_on d n) (srv t)" and "whole_start j t" and "whole_moves cr mv j t u"
  shows "world_wf (cl_world u) \<and> keeps_friends (ctx (cl_world t)) (ctx (cl_world u)) \<and> db_ok (committed (dbfile (srv u)))
    \<and> (linked u \<longrightarrow> cl_main u \<noteq> Done (Exchanging, x) \<and> cl_pull u \<noteq> Done (Exchanging, y))"
proof -
  have inv: "whole_inv cr False j u" and g: "whole_grows t u" by (rule whole_reach [OF assms]; simp)+
  then have c: "client_inv cr False (linked u) (cl_world u) (cl_main u) (cl_pull u)" by (simp add: whole_inv_def)
  have "cl_main u \<noteq> Done (Exchanging, x) \<and> cl_pull u \<noteq> Done (Exchanging, y)" if "linked u"
    using client_inv_done [OF c, of False] that by (auto simp: turn_ends_def round_ends_def)
  moreover have "world_wf (cl_world u)" using c by (simp add: client_inv_def holds_def)
  moreover have "db_ok (committed (dbfile (srv u)))" using inv server_invD(1) by (simp add: whole_inv_def)
  ultimately show ?thesis using g by (simp add: whole_grows_def client_grows_def keeps_def)
qed

lemma whole_system_invariant_witness:
  "\<exists>(u :: whole) x. cl_pull u = Done (Handling, x) \<and> keeps_friends alice_ctx (ctx (cl_world u)) \<and> db_ok (committed (dbfile (srv u)))"
proof -
  obtain u x where u: "whole_moves toy 7 0 (whole_of (alice_world []) sample_db) u" "cl_pull u = Done (Handling, x)"
    using alice_round by blast
  from whole_system_invariant [OF db_ok_sample whole_of_reached whole_of_start [OF world_wf_sample(1)] u(1)] u(2)
  show ?thesis by (auto simp: whole_of_fields sample_worlds)
qed

text \<open>C7: no response ends a thread of the client with an exception, in any such interleaving, when the
  private key loads and the path of the executable is known at the start: whatever statements of other
  clients come between those of its request, the server answers it with one of the shapes the client's
  handlers accept, and the client a confirmed message went to is still in the cache.\<close>

lemma whole_responses_never_raise:
  assumes "db_ok d" and "server_moves mv (server_on d n) (srv t)" and "whole_start j t" and "whole_moves cr mv j t u"
    and "crypto_ok cr" and "key_and_path cr (cl_world t)"
  shows "cl_main u \<noteq> Done (Handling, Throw e) \<and> cl_pull u \<noteq> Done (Handling, Inl e)"
proof -
  have "whole_inv cr True j u" by (rule whole_reach [OF assms(1-4)]) (use assms(5,6) in simp)
  then have c: "client_inv cr True (linked u) (cl_world u) (cl_main u) (cl_pull u)" by (simp add: whole_inv_def)
  show ?thesis using client_inv_done [OF c, of True] by (auto simp: turn_ends_def round_ends_def)
qed

lemma whole_responses_never_raise_witness:
  "\<exists>u x. whole_moves toy 7 0 (whole_of (alice_world []) sample_db) u \<and> cl_pull u = Done (Handling, x) \<and> (\<forall>e. x \<noteq> Inl e)"
proof -
  obtain u x where u: "whole_moves toy 7 0 (whole_of (alice_world []) sample_db) u" "cl_pull u = Done (Handling, x)"
    using alice_round by blast
  have key: "key_and_path toy (cl_world (whole_of (alice_world []) sample_db))"
    by (simp add: key_and_path_def whole_of_fields sample_worlds sample_friends sample_paths RSAPrivateWrapper_load_def toy_facts)
  have "x \<noteq> Inl e" for e
    using whole_responses_never_raise [OF db_ok_sample whole_of_reached whole_of_start [OF world_wf_sample(1)] u(1) crypto_ok_toy key, of e] u(2)
    by auto
  with u show ?thesis by blast
qed

text \<open>C8: once the client has an id, its id, name and private key never change again, in any such interleaving
  and after any loss of the connection: the server gives an id only for a registration, a registration
  is only sent while there is no id, and the pull thread writes none of the three. These are the fields
  that the code reads and writes without the mutex of the context.\<close>

lemma whole_identity_fixed:
  assumes "db_ok d" and "server_moves mv (server_on d n) (srv t)" and "whole_start j t" and "whole_moves cr mv j t u"
    and "whole_moves cr mv j u v" and "hasClientID (ctx (cl_world u))"
  shows "clientID (ctx (cl_world v)) = clientID (ctx (cl_world u)) \<and> userName (ctx (cl_world v)) = userName (ctx (cl_world u))
    \<and> privateKey (ctx (cl_world v)) = privateKey (ctx (cl_world u))"
proof -
  have "whole_inv cr False j u" by (rule whole_reach [OF assms(1-4)]) simp
  from whole.reach_grows [OF assms(5) this] assms(6) show ?thesis
    by (simp add: whole_grows_def client_grows_def same_ident_def ident_def)
qed

lemma whole_identity_fixed_witness:
  "\<exists>(u :: whole) x. cl_pull u = Done (Handling, x) \<and> clientID (ctx (cl_world u)) = alice \<and> privateKey (ctx (cl_world u)) = [65]"
proof -
  obtain u x where u: "whole_moves toy 7 0 (whole_of (alice_world []) sample_db) u" "cl_pull u = Done (Handling, x)"
    using alice_round by blast
  from whole_identity_fixed [OF db_ok_sample whole_of_reached whole_of_start [OF world_wf_sample(1)] rtranclp.rtrancl_refl u(1)] u(2)
  show ?thesis by (auto simp: whole_of_fields sample_worlds sample_registered sample_friends)
qed

text \<open>C9: the two threads of the client share one connection, and each gets the response to its own request:
  the bytes a thread leaves \<^verbatim>\<open>sendAndReceive\<close> with are, whole and unchanged, what the handler of the server
  returned for the very bytes of this thread's request, at a moment since which this thread has held the
  mutex without a break - so not the response to the other thread, nor that to an earlier request -, also
  when the connection is lost before the payload is read; it has the form that belongs to the code of that
  request or is the error response; and nothing of it is left for the next exchange.\<close>

lemma shared_connection_pairs:
  assumes "db_ok d" and "server_moves mv (server_on d n) (srv t)" and "whole_start j t" and "whole_moves cr mv j t u"
    and "conn_mutex u = To_read_payload x h k" and "k \<le> length (to_client u)"
  shows "\<exists>q r s c v. asking x u = Some q
    \<and> whole_moves cr mv j t s \<and> threads (srv s) ! j = (Serving q (Return (Inr r)), c)
    \<and> conn_mutex s = To_read_header x \<and> asking x s = Some q \<and> held_moves cr mv j x s u
    \<and> response_ok r \<and> response_shape q r
    \<and> whole_step cr mv j u v \<and> answered x r u v \<and> conn_mutex v = Free \<and> to_client v = []"
proof -
  have inv: "whole_inv cr False j t" by (rule whole_start_inv [OF assms(3) server_inv_reach [OF assms(1,2)]]) simp
  have "owner (conn_mutex t) = None" using assms(3) by (simp add: whole_start_def owner_def)
  from bytes_served_reach [OF assms(4) inv this] assms(5) obtain q r
    where q: "asking x u = Some q" "served cr mv j t x q r u" "response_for q r"
      and h: "h = take 7 r" "k = length r - 7" "prefix (to_client u) (drop 7 r)"
    by (auto simp: bytes_served_def)
  have "to_client u = drop 7 r" by (rule prefix_whole [OF h(3)]) (use assms(6) h(2) in simp)
  then have r: "h @ take k (to_client u) = r" "drop k (to_client u) = []" using h(1,2) by simp_all
  let ?v = "resume x (Inr (h @ take k (to_client u))) (u\<lparr>to_client := drop k (to_client u)\<rparr>)"
  have "whole_step cr mv j u ?v" by (rule reads_payload [OF assms(5,6)])
  moreover have "answered x r u ?v" by (cases x) (simp_all add: answered_def resume_def r)
  moreover have "conn_mutex ?v = Free" "to_client ?v = []" using r(2) by simp_all
  moreover from q(2) obtain s c where "whole_moves cr mv j t s" "conn_mutex s = To_read_header x" "asking x s = Some q"
      "threads (srv s) ! j = (Serving q (Return (Inr r)), c)" "held_moves cr mv j x s u"
    unfolding served_def by blast
  ultimately show ?thesis using q(1,3) unfolding response_for_def by blast
qed

text \<open>C10: as long as the connection stands, every thread of the client that has a request can get its
  response, whatever the other thread and all threads of the server have done and hold at the moment:
  the mutex and the write lock of the database never leave it without a next step.\<close>

lemma exchange_can_complete:
  assumes "db_ok d" and "server_moves mv (server_on d n) (srv t)" and "whole_start j t" and "whole_moves cr mv j t u"
    and "linked u" and "asking x u = Some q" and "length q < 23 + 2 ^ 32"
  shows "\<exists>v r. whole_moves cr mv j u v \<and> response_ok r \<and> response_shape q r \<and> answered x r u v
    \<and> cl_world v = cl_world u \<and> linked v"
proof -
  have "whole_inv cr False j u" by (rule whole_reach [OF assms(1-4)]) simp
  from asker_finishes [OF this assms(5-7), where mv = mv] show ?thesis unfolding response_for_def by blast
qed

text \<open>C11: what holds up the pull thread: in every reachable state, also while the main thread sits in a
  prompt or in the middle of a response, the pull thread can end its round without a step of the main
  thread, except when the main thread is inside \<^verbatim>\<open>sendAndReceive\<close> and holds the mutex: then it has to end
  that exchange, with a response or, once the connection is lost, with an exception, and nothing more. If
  the connection stands it need not be lost for that, and the round does not end for a failed exchange.\<close>

lemma round_always_ends:
  assumes "db_ok d" and "server_moves mv (server_on d n) (srv t)" and "whole_start j t" and "whole_moves cr mv j t u"
  shows "\<exists>v st r. whole_moves cr mv j u v \<and> cl_pull v = Done (st, r) \<and> (linked u \<longrightarrow> linked v \<and> st \<noteq> Exchanging)
    \<and> (cl_main v = cl_main u
       \<or> owner (conn_mutex u) = Some Main_thread \<and> (\<exists>x. cl_main v = resumed x (cl_main u)))"
proof -
  have inv: "whole_inv cr False j t" by (rule whole_start_inv [OF assms(3) server_inv_reach [OF assms(1,2)]]) simp
  have "steady (\<lambda>_. True) (cl_pull t)" using assms(3) by (simp add: whole_start_def tame_Done)
  from steady_whole [OF assms(4) inv this] whole.reach_inv [OF assms(4) inv]
  obtain v a where v: "whole_moves cr mv j u v" "cl_pull v = Done a" "main_left u v" "linked u \<longrightarrow> linked v"
    using round_can_end [where mv = mv] by blast
  obtain st r where a: "a = (st, r)" by fastforce
  have "whole_inv cr False j v" by (rule whole.reach_inv [OF v(1) whole.reach_inv [OF assms(4) inv]])
  then have c: "client_inv cr False (linked v) (cl_world v) (cl_main v) (cl_pull v)" by (simp add: whole_inv_def)
  have "st \<noteq> Exchanging" if "linked v"
    using client_inv_done(2) [OF c, of False] that v(2) by (auto simp: a round_ends_def)
  with v show ?thesis unfolding a main_left_def by blast
qed

text \<open>The mail of the sample: Bob registered, with a message waiting.\<close>

definition bob_asks :: whole where
  "bob_asks = (whole_of bob_world letter_db)\<lparr>cl_pull := Exchange (pull_data bob_world) (Pull_rest toy)\<rparr>"

lemma bob_registered: "hasClientID (ctx bob_world)" "clientID (ctx bob_world) = bob"
  by (simp_all add: sample_worlds bob_ctx_def hasClientID_def list_ex_iff bob_def)

lemma bob_asks_run: "whole_moves toy mv 0 (whole_of bob_world letter_db) bob_asks"
  using round_asks [of "whole_of bob_world letter_db" "(Acting, Inr ())" toy mv 0] bob_registered(1)
  by (simp add: bob_asks_def whole_of_fields)

lemma bob_served:
  obtains v r where "whole_moves toy 7 0 bob_asks v" and "response_shape (pull_data bob_world) r" and "cl_pull v = Pull_rest toy (Inr r)"
    and "linked v"
proof -
  have "whole_inv toy False 0 bob_asks"
    by (rule whole_reach [OF db_ok_letter whole_of_reached whole_of_start [OF world_wf_sample(2)] bob_asks_run [of 7]]) simp
  moreover have "linked bob_asks" "asking Pull_thread bob_asks = Some (pull_data bob_world)"
    by (simp_all add: bob_asks_def whole_of_fields asking_def asked_def)
  ultimately obtain v r where "whole_moves toy 7 0 bob_asks v" "response_for (pull_data bob_world) r" "answered Pull_thread r bob_asks v" "linked v"
    using asker_finishes [OF _ _ _ pull_data_size [OF world_wf_sample(2)]] by blast
  then show thesis by (intro that) (simp_all add: answered_def bob_asks_def resumed_def response_for_def)
qed

text \<open>The state in which Bob's pull thread has the payload before it.\<close>

lemma bob_reads:
  obtains u h k where "whole_moves toy 7 0 (whole_of bob_world letter_db) u" and "conn_mutex u = To_read_payload Pull_thread h k"
    and "k \<le> length (to_client u)"
proof -
  obtain v r where v: "whole_moves toy 7 0 bob_asks v" "cl_pull v = Pull_rest toy (Inr r)" "linked v" by (rule bob_served)
  let ?P = "\<lambda>t. cl_pull t = Exchange (pull_data bob_world) (Pull_rest toy) \<or> \<not> linked t"
  have "Pull_rest toy (Inr r) \<noteq> Exchange q k" for q k
    by (simp add: Pull_rest_def Prints.simps change_def atom_def)
  then have p: "?P bob_asks" "\<not> ?P v" using v(2,3) by (simp_all add: bob_asks_def)
  obtain u w where u: "whole_moves toy 7 0 bob_asks u" "whole_step toy 7 0 u w" "?P u" "\<not> ?P w"
    by (rule losing_step [OF v(1), where P = ?P, OF p])
  have "\<exists>h k. conn_mutex u = To_read_payload Pull_thread h k \<and> k \<le> length (to_client u)"
    using u(2)
  proof cases
    case (reads_payload x h k)
    then show ?thesis using u(3,4) by (cases x) (auto simp: resume_def)
  next
    case (throws x msg)
    then show ?thesis using u(4) by simp
  qed (use u(3,4) in auto)
  with rtranclp_trans [OF bob_asks_run u(1)] that show thesis by blast
qed

lemma shared_connection_pairs_witness:
  "\<exists>u q r s c v. asking Pull_thread u = Some q \<and> threads (srv s) ! 0 = (Serving q (Return (Inr r)), c)
    \<and> held_moves toy 7 0 Pull_thread s u \<and> response_shape q r \<and> whole_step toy 7 0 u v \<and> answered Pull_thread r u v"
proof -
  obtain u h k where "whole_moves toy 7 0 (whole_of bob_world letter_db) u" "conn_mutex u = To_read_payload Pull_thread h k"
      "k \<le> length (to_client u)"
    by (rule bob_reads)
  from shared_connection_pairs [OF db_ok_letter whole_of_reached whole_of_start [OF world_wf_sample(2)] this] show ?thesis by blast
qed

lemma exchange_can_complete_witness:
  "\<exists>v r. whole_moves toy 7 0 (whole_of bob_world letter_db) v \<and> response_shape (pull_data bob_world) r
    \<and> cl_pull v = Pull_rest toy (Inr r)"
proof -
  have asks: "linked bob_asks" "asking Pull_thread bob_asks = Some (pull_data bob_world)"
    by (simp_all add: bob_asks_def whole_of_fields asking_def asked_def)
  obtain v r where v: "whole_moves toy 7 0 bob_asks v" "response_shape (pull_data bob_world) r" "answered Pull_thread r bob_asks v"
    using exchange_can_complete [OF db_ok_letter whole_of_reached whole_of_start [OF world_wf_sample(2)] bob_asks_run asks
        pull_data_size [OF world_wf_sample(2)]] by blast
  then have "cl_pull v = Pull_rest toy (Inr r)" by (simp add: answered_def bob_asks_def resumed_def)
  with v(2) rtranclp_trans [OF bob_asks_run v(1)] show ?thesis by blast
qed

text \<open>Alice's pull thread has a request, but her main thread, which lists the clients, has taken the mutex.\<close>

lemma alice_waits:
  obtains u where "whole_moves toy 7 0 (whole_of (alice_world [lit ''120'']) sample_db) u"
    and "owner (conn_mutex u) = Some Main_thread" and "asking Pull_thread u \<noteq> None" and "linked u"
proof -
  let ?w = "alice_world [lit ''120'']" and ?q = "request_bytes alice 701 []"
  let ?t = "whole_of ?w sample_db" and ?k = "Pull_rest toy :: exn + bytes \<Rightarrow> (stage \<times> (exn + unit)) client_act"
  let ?t1 = "?t\<lparr>cl_pull := Exchange (pull_data ?w) ?k\<rparr>"
  have reg: "hasClientID (ctx ?w)" by (simp add: sample_worlds sample_registered)
  have t1: "whole_moves toy 7 0 ?t ?t1"
    using round_asks [of ?t _ toy 7 0] reg by (simp add: whole_of_fields)
  obtain v where v: "clientMenuMain ?w = Some (120, v)" "same_but_console ?w v"
    using menu.run_accept [of ?w "lit ''120''" "[]"] option_120 by (auto simp: sample_worlds)
  have "ctx v = alice_ctx" using same_but_console_fields(1) [OF v(2)] by (simp add: sample_worlds)
  then have act: "handleMenuChoice toy 120 v = Some (Inr ?q, v)"
    by (simp add: handleMenuChoice_def handleClientList_def empty_request sample_friends)
  have ne: "?q \<noteq> []" "length ?q < 23 + 2 ^ 32" by (simp_all add: request_bytes_def length_le_bytes sample_ids)
  let ?f = "\<lambda>input. if input = Code_EXIT then Prints [lit ''Exiting client...'' @ nl] (Acting, Exit)
     else andthen (HandleMenuChoice toy input) (Act_rest toy)"
  have turn: "Main_turn toy = andthen (partial clientMenuMain) ?f"
    unfolding Main_turn_def Act_rest_def [abs_def] Main_rest_def [abs_def] ..
  have "own_step\<^sup>*\<^sup>* (Main_turn toy, ?w) (?f 120, v)"
    unfolding turn by (rule steps_alone [where n = 0]) (simp add: v(1))
  moreover have "own_step\<^sup>*\<^sup>* (andthen (HandleMenuChoice toy 120) (Act_rest toy), v) (Act_rest toy (Inr ?q), v)"
    by (rule steps_alone [where n = 0]) (simp add: alone_simps act)
  ultimately have "own_step\<^sup>*\<^sup>* (Main_turn toy, ?w) (Exchange ?q (Main_rest toy), v)"
    using ne(1) by (simp add: Act_rest_def)
  from main_steps [OF this, of toy 7 0 ?t1]
  have run: "whole_moves toy 7 0 (?t1\<lparr>cl_main := Main_turn toy\<rparr>) (?t1\<lparr>cl_world := v, cl_main := Exchange ?q (Main_rest toy)\<rparr>)"
    by (simp add: whole_of_def)
  let ?t2 = "?t1\<lparr>cl_world := v, cl_main := Exchange ?q (Main_rest toy)\<rparr>"
  have again: "whole_step toy 7 0 ?t1 (?t1\<lparr>cl_main := Main_turn toy\<rparr>)"
    by (rule main_again [where st = Acting]) (simp add: whole_of_fields)
  have takes: "whole_step toy 7 0 ?t2 (?t2\<lparr>conn_mutex := To_write Main_thread\<rparr>)"
    by (rule takes_mutex [OF _ _ ne(2)]) (simp_all add: asking_def asked_def whole_of_def)
  have "whole_moves toy 7 0 ?t (?t2\<lparr>conn_mutex := To_write Main_thread\<rparr>)"
    using t1 again run takes by (meson rtranclp.rtrancl_into_rtrancl rtranclp_trans)
  then show thesis by (rule that) (simp_all add: owner_def asking_def asked_def whole_of_fields)
qed

lemma round_always_ends_witness:
  "\<exists>u v st r. owner (conn_mutex u) = Some Main_thread \<and> asking Pull_thread u \<noteq> None \<and> whole_moves toy 7 0 u v
    \<and> cl_pull v = Done (st, r) \<and> linked v \<and> st \<noteq> Exchanging"
proof -
  obtain u where u: "whole_moves toy 7 0 (whole_of (alice_world [lit ''120'']) sample_db) u"
    "owner (conn_mutex u) = Some Main_thread" "asking Pull_thread u \<noteq> None" "linked u"
    by (rule alice_waits)
  from round_always_ends [OF db_ok_sample whole_of_reached whole_of_start [OF world_wf_sample(1)] u(1)] u(2-4)
  show ?thesis by blast
qed

section \<open>Messages lost with the connection\<close>

text \<open>C14: the server deletes messages when they are fetched, not when they have arrived: from any start of a
  registered client that no other thread disturbs there is a run in which the connection is lost after a
  round of the pull thread was served, so that all messages waiting for the client are gone from the
  tables for good, none of them has reached the client, and no byte ever will.\<close>

lemma fetched_messages_lost:
  assumes "db_ok d" and "server_moves mv (server_on d n) (srv t)" and "whole_start j t"
    and "threads (srv t) ! j = (Awaiting, Auto)" and "\<not> busy (srv t) j"
    and "hasClientID (ctx (cl_world t))" and "clientID (ctx (cl_world t)) = me" and "committed (dbfile (srv t)) = d0"
    and "me \<in> c_id ` set (clients d0)" and "fits (fetch_rows d0 me)" and "length (fetch_rows d0 me) \<le> mv"
  shows "\<exists>u. whole_moves cr mv j t u \<and> cl_world u = cl_world t
    \<and> (\<forall>v. whole_moves cr mv j u v \<longrightarrow> \<not> linked v \<and> to_client v = []
         \<and> (\<forall>m\<in>set (messages d0). m_to m = me \<longrightarrow> m \<notin> set (messages (committed (dbfile (srv v))))))"
proof -
  let ?w = "cl_world t" and ?k = "Pull_rest cr :: exn + bytes \<Rightarrow> (stage \<times> (exn + unit)) client_act"
  have start: "cl_pull t = Done (Acting, Inr ())" "world_wf ?w" "j < length (threads (srv t))" "conn_mutex t = Free" "linked t"
      "to_server t = []" "to_client t = []"
    using assms(3) by (simp_all add: whole_start_def)
  have me: "length me = 16" using world_wf_id [OF start(2)] assms(7) by simp
  define q where "q = request_bytes me 704 []"
  have q: "pull_data ?w = q" using empty_request [OF me, of 704] by (simp add: q_def assms(7))
  let ?t1 = "t\<lparr>cl_pull := Exchange q ?k\<rparr>"
  let ?t2 = "?t1\<lparr>conn_mutex := To_write Pull_thread\<rparr>"
  let ?t3 = "t\<lparr>cl_pull := Exchange q ?k, to_server := q, conn_mutex := To_read_header Pull_thread\<rparr>"
  have "whole_moves cr mv j t ?t1" using round_asks [OF start(1) assms(6), of cr mv j] by (simp add: q)
  moreover have "whole_step cr mv j ?t1 ?t2"
    using takes_mutex [of ?t1 Pull_thread q cr mv j] pull_data_size [OF start(2)] start(4) by (simp add: q asking_def asked_def)
  moreover have "whole_step cr mv j ?t2 ?t3"
    using writes [of ?t2 Pull_thread q cr mv j] start(5,6) by (simp add: asking_def asked_def)
  ultimately have t3: "whole_moves cr mv j t ?t3" by (meson rtranclp.rtrancl_into_rtrancl)
  define e :: srv_env where "e = \<lparr>now = [], token = replicate 16 0, stmt_ok = (\<lambda>_. True), max_vars = mv\<rparr>"
  have e: "env_ok e" "max_vars e = mv" "db_ready (all_succeed e)" "max_vars (all_succeed e) = mv"
    by (simp_all add: e_def env_ok_def db_ready_def all_succeed_def)
  have whole: "whole_request q" using me by (simp add: q_def whole_request_bytes)
  obtain s where s: "whole_moves cr mv j ?t3 (?t3\<lparr>to_server := [], srv := s\<rparr>)"
      "committed (dbfile s) = snd (request_handler_main (all_succeed e) q d0)"
    by (rule fetch_served [of j ?t3 q e mv cr]) (use start(3) assms(4,5,8) whole e(1,2) in simp_all)
  let ?t4 = "?t3\<lparr>to_server := [], srv := s\<rparr>"
  let ?u = "?t4\<lparr>linked := False, to_server := take 0 (to_server ?t4), to_client := take 0 (to_client ?t4)\<rparr>"
  have "whole_step cr mv j ?t4 ?u" by (rule is_lost) (simp add: start(5))
  with rtranclp_trans [OF t3 s(1)] have u: "whole_moves cr mv j t ?u" by (rule rtranclp.rtrancl_into_rtrancl)
  have inv: "whole_inv cr False j ?u" and grown: "whole_grows t ?u" by (rule whole_reach [OF assms(1-3) u]; simp)+
  have db: "db_ok d0" using server_invD(1) [OF server_inv_reach [OF assms(1,2)]] assms(8) by simp
  have left: "messages (committed (dbfile s)) = filter (\<lambda>m. m_id m \<notin> set (map fst (fetch_rows d0 me))) (messages d0)"
    unfolding s(2) q_def waiting_run [OF me e(3) assms(9,10), unfolded e(4), OF assms(11)]
    by (simp add: drop_rows_alt touched_keeps)
  have gone: "m \<notin> set (messages (committed (dbfile s)))" if "m \<in> set (messages d0)" "m_to m = me" for m
    using that by (force simp: left fetch_rows_alt [OF db_ok_ids_ok [OF db]])
  have "\<not> linked v \<and> to_client v = [] \<and> (\<forall>m\<in>set (messages d0). m_to m = me \<longrightarrow> m \<notin> set (messages (committed (dbfile (srv v)))))"
    if v: "whole_moves cr mv j ?u v" for v
  proof (intro conjI ballI impI)
    show "\<not> linked v" "to_client v = []" using stays_lost [OF v] by simp_all
    fix m assume m: "m \<in> set (messages d0)" "m_to m = me"
    have "m_id m \<le> seq d0" by (rule db_okD(5) [OF db m(1)])
    also have "seq d0 \<le> seq (committed (dbfile s))"
      using grown assms(8) by (simp add: whole_grows_def file_grows_def evolves_def)
    finally have "m_id m \<le> seq (committed (dbfile s))" .
    moreover have "file_grows s (srv v)" using whole.reach_grows [OF v inv] by (simp add: whole_grows_def)
    ultimately show "m \<notin> set (messages (committed (dbfile (srv v))))" using gone_for_good gone [OF m] by blast
  qed
  moreover have "cl_world ?u = cl_world t" by simp
  ultimately show ?thesis using u by blast
qed

lemma fetched_messages_lost_witness:
  "\<exists>u. whole_moves toy 7 0 (whole_of bob_world letter_db) u \<and> \<not> linked u \<and> letter \<notin> set (messages (committed (dbfile (srv u))))"
proof -
  have f: "fits (fetch_rows letter_db bob)" "length (fetch_rows letter_db bob) \<le> 7"
    by (simp_all add: letter_fetched fits_def row_ok_def length_encode_row)
  have b: "bob \<in> c_id ` set (clients letter_db)" by (simp add: letter_db_def sample_clients)
  have start: "threads (srv (whole_of bob_world letter_db)) ! 0 = (Awaiting, Auto)" "\<not> busy (srv (whole_of bob_world letter_db)) 0"
      "hasClientID (ctx (cl_world (whole_of bob_world letter_db)))" "clientID (ctx (cl_world (whole_of bob_world letter_db))) = bob"
      "committed (dbfile (srv (whole_of bob_world letter_db))) = letter_db"
    by (simp_all add: whole_of_fields one_thread_free(2-4) bob_registered)
  have "letter \<in> set (messages letter_db)" "m_to letter = bob" by (simp_all add: letter_db_def letter_def)
  then show ?thesis
    using fetched_messages_lost [OF db_ok_letter whole_of_reached whole_of_start [OF world_wf_sample(2)] start b f, of toy] by blast
qed

end
