(* ===== verification/Spec2Isabelle.thy ===== *)
theory Spec2Isabelle
  imports Server_Properties Server_Tables Server_Thread_Properties Client_Properties Client_Contracts Context_Contract
    Action_Contract Response_Contract File_Contract
    Process_Properties Handshake Crossed_Keys Name_Race Whole_Properties
begin

text \<open>
  MessageU: verification of the client (C++, \<^verbatim>\<open>src/src/Client\<close>) and the server (Python,
  \<^verbatim>\<open>src/src/Server\<close>).

  \<^bold>\<open>The program.\<close> A client registers under a name and gets an id of 16 bytes; it asks the server
  for the other clients and their public keys, exchanges symmetric keys with them and sends them
  encrypted texts. The server stores ids, names, public keys and undelivered messages in two
  SQLite tables; it never sees a key or a text in the clear. A request is a header of 23 bytes
  (id, version, code, payload size) and a payload, a response a header of 7 bytes and a payload.
  The client has a main thread (menu, action, exchange, response) and a thread that fetches
  waiting messages every minute; both share the context and the connection. The server has one
  thread per connection.

  \<^bold>\<open>Theories.\<close>
  \<^item> \<open>MU_Prelude\<close>: byte types, exceptions as values, character classes, slices, the collections
    \<open>wire_simps\<close>, \<open>ctx_simps\<close> and \<open>db_simps\<close>. \<open>Protocol_Constants\<close>: the constants of both programs.
    \<open>Machine\<close>: invariants and growth of a step relation in general. \<open>Act_Logic\<close>: programs of atomic steps
    on a shared state, and what a program keeps when other threads run between its steps.
  \<^item> Client: \<open>Client_Utilities\<close> (\<^verbatim>\<open>Utilities.cpp\<close>), \<open>Std_Map\<close> (the \<^verbatim>\<open>std::map\<close> of the cache),
    \<open>Client_Context\<close> (\<^verbatim>\<open>ClientContext\<close>), \<open>Crypto_Wrappers\<close> (\<^verbatim>\<open>AESWrapper\<close>, \<^verbatim>\<open>RSAWrapper\<close>,
    \<^verbatim>\<open>Base64Wrapper\<close>), \<open>Client_World\<close> (what a client process can reach: context, console, random
    source, files), \<open>Client_Message\<close> (\<^verbatim>\<open>Message.cpp\<close>), \<open>Client_Files\<close> (\<^verbatim>\<open>FileManager.cpp\<close>),
    \<open>Client_Menu\<close> (\<^verbatim>\<open>ClientMenu.cpp\<close>), \<open>Client_Actions\<close> (\<^verbatim>\<open>ClientActions.cpp\<close>), \<open>Client_Response\<close>
    (\<^verbatim>\<open>ResponseClient.cpp\<close>), \<open>Client_Connection\<close> (\<^verbatim>\<open>ClientConnection.cpp\<close>), \<open>Client_Main\<close> (\<^verbatim>\<open>Main.cpp\<close>,
    \<^verbatim>\<open>PullRequests.cpp\<close> and the interleaving of the two threads), \<open>Client_Process\<close> (the same as one
    process, from its start over the stop flag and the join to the exit code).
  \<^item> Client, call by call: \<open>Client_Atoms\<close> has the actions, the responses, a turn of the main thread and a
    round of the pull thread as programs whose steps are single calls of the context, insertions into
    \<^verbatim>\<open>std::cout\<close>, prompts and exchanges; a program carries the name of the function with a capital.
    \<open>Client_Alone\<close> shows that a program nobody interrupts is the function; \<open>Client_Interleaving\<close> has all
    interleavings of the two threads with each other and with other clients (\<open>fine_step\<close>; a thread holds
    \<^verbatim>\<open>_connMutex\<close> while it exchanges, what happens on the socket meanwhile is one step), what the
    threads promise each other (\<open>later\<close>: types kept, no cached client and no key lost) and the proof that
    every program keeps it; \<open>Client_Identity\<close> shows who writes id, name and private key; \<open>Coarse_Runs\<close>
    simulates \<open>sys_step\<close> by \<open>fine_step\<close>; \<open>Name_Race\<close> is a run in which two calls that belong together are separated.
  \<^item> Contracts of the client: \<open>Context_Contract\<close> (\<^verbatim>\<open>ClientContext.h\<close>), \<open>Client_Contracts\<close> (\<^verbatim>\<open>Utilities.h\<close>,
    \<^verbatim>\<open>Message.h\<close>, \<^verbatim>\<open>ClientMenu.h\<close>, \<^verbatim>\<open>ClientConnection.h\<close>), \<open>Action_Contract\<close> (\<^verbatim>\<open>ClientActions\<close>),
    \<open>Response_Contract\<close> (\<^verbatim>\<open>ResponseClient\<close>) and \<open>File_Contract\<close> (\<^verbatim>\<open>FileManager\<close>) state what the comments
    of these files promise, on an abstract state (identity and a map of contacts), with mathematical
    numbers, grammars and the readers of \<open>Wire_Format\<close> in place of scans, and prove that the code
    implements it. Their definitions are called \<open>doc_\<dots>\<close> after the function.
  \<^item> Server, one request after the other: \<open>Py_Bytes\<close> (Python's integer and ASCII codecs), \<open>Server_Db\<close>
    and \<open>Server_Tables\<close> (\<^verbatim>\<open>database.py\<close>), \<open>Server_Requests\<close> (\<^verbatim>\<open>request_handler.py\<close>), \<open>Server_Main\<close>
    (\<^verbatim>\<open>connection.py\<close>, \<^verbatim>\<open>main.py\<close>), \<open>Server_Port\<close> (\<^verbatim>\<open>get_port.py\<close>); \<open>Server_Lemmas\<close>, \<open>Server_Effects\<close> and
    \<open>Server_Shape\<close> hold what the handlers compute: payloads as concatenations of records, the effect of
    each request code, the shape of the response to each request (\<open>response_shape\<close>).
  \<^item> Server, statement by statement: \<open>Server_Sql\<close> has the methods of the database and the handlers as
    programs of SQL statements on a connection with its transaction, over a WAL file with one
    writer; \<open>Server_Threads\<close> is the accept loop and any number of client threads whose statements
    interleave, with the invariant of the whole server. \<open>Server_Alone\<close> relates a program that runs
    alone to the functions of \<open>Server_Requests\<close>, \<open>Server_Safe\<close> has what every statement keeps,
    \<open>Server_Starve\<close> and \<open>Server_Incidents\<close> the runs in which a lock or a stale snapshot starves a thread.
  \<^item> Both: \<open>Wire_Format\<close> specifies the two repeated payloads by readers of one record; \<open>System\<close> puts
    client and server together and defines \<open>sys_step\<close>, any interleaving of a client's two threads
    with each other and with the requests of all other clients; \<open>Flows\<close> has each menu action in
    closed form; \<open>Handshake\<close> and \<open>Crossed_Keys\<close> compose whole turns of two clients; \<open>Crypto_Instance\<close> and \<open>Sample\<close> are the
    concrete instance at which properties are evaluated.
  \<^item> Both, at the finest grain: \<open>Whole_System\<close> joins the programs of \<open>Client_Atoms\<close> and the threads of
    \<open>Server_Threads\<close> by a connection whose socket calls (\<^verbatim>\<open>sendAndReceive\<close> under \<^verbatim>\<open>_connMutex\<close>, the loop of
    \<^verbatim>\<open>handle_client\<close>) are steps of their own and which may be lost at any moment; \<open>Whole_Invariant\<close> says what
    the bytes on the connection are in every state, \<open>Whole_Pairing\<close> where they come from (which request the
    server answered with them, and since when), \<open>Whole_Progress\<close> brings an exchange to its end from any
    state, \<open>Whole_Rounds\<close> a round of the pull thread. A request has to be shorter than \<open>23 + 2 ^ 32\<close> bytes, the bound of its size field.
  \<^item> Properties stand in this theory, in \<open>Client_Properties\<close>, \<open>Server_Properties\<close>, \<open>Server_Thread_Properties\<close>,
    \<open>Process_Properties\<close>, \<open>Whole_Properties\<close>, at the end of the five contract theories, of \<open>Handshake\<close>,
    \<open>Crossed_Keys\<close> and \<open>Name_Race\<close>.

  \<^bold>\<open>How the code is read.\<close> A function of the C++ code that may throw returns \<open>exn + 'a\<close> and the world
  it leaves, which after an exception holds what was done before it; a Python handler returns
  \<open>py_exn + bytes\<close> and the tables. \<^verbatim>\<open>uint8_t\<close>, \<^verbatim>\<open>uint16_t\<close> and \<^verbatim>\<open>uint32_t\<close> are words and wrap; a
  \<^verbatim>\<open>size_t\<close> is a natural number. Where the code adds to an offset that its caller chose (\<^verbatim>\<open>readUint32LE\<close>,
  \<^verbatim>\<open>readClientID\<close>) the sum is taken modulo \<open>2 ^ 64\<close> (\<open>size_add\<close>), and a read past the end of the buffer that the
  wrapped check lets through is \<open>Undefined\<close>; all other sums are of sizes of buffers and of fields of 32 bits
  and stay below \<open>2 ^ 33\<close>. The prompts repeat for ever on an exhausted
  input: they are partial functions into an option, \<open>None\<close> meaning that they do not return, and the
  property C35 and \<open>Client_Properties.menu_returns\<close> say exactly when they do. All other loops terminate and are total functions;
  no fuel is used except in \<open>decode_all\<close>, whose fuel is the length of its input (each step consumes a
  byte, \<open>stream_codec.decode_all_fuel\<close>).

  \<^bold>\<open>Transactions.\<close> \<^verbatim>\<open>sqlite3\<close> begins a transaction before an INSERT, UPDATE or DELETE and only \<^verbatim>\<open>commit\<close> or
  \<^verbatim>\<open>close\<close> end it. A connection is \<open>Auto\<close> (none), \<open>Begun\<close> (the lock was not granted), \<open>Reading\<close> (a snapshot
  with the number of commits it saw) or \<open>Writing\<close> (the lock, with its own tables). A write fails when
  another connection writes past the timeout or the snapshot is out of date; a violated constraint
  undoes the statement and keeps the transaction. These are the rules of SQLite's WAL mode, which
  \<open>prog_step\<close> writes down.

  \<^bold>\<open>Interfaces.\<close> Locales state what one part needs of another: \<open>ordered_map\<close> (the cache's map),
  \<open>key_cache\<close> (storing a key of another client, for public and symmetric keys), \<open>implementation\<close> (calls
  against their contract), \<open>prompt_loop\<close> (menu and username prompt), \<open>stream_codec\<close> (the server's encoders
  against the readers of \<open>Wire_Format\<close>), \<open>message_store\<close> (the messages table), \<open>machine\<close> (the system, the
  interleaving of the client's threads, the server's threads, and both together), \<open>rely_guarantee\<close> (what a thread
  relies on while another runs and what it guarantees, for any two such relations) and its instance
  \<open>interference\<close>, where both threads promise the same. Each is interpreted on the model.

  \<^bold>\<open>Parameters.\<close> Crypto++ and \<^verbatim>\<open>_rdrand32_step\<close> are the record \<open>crypto\<close> with the documented behaviour
  \<open>crypto_ok\<close> (of RSA keys only those that were generated: what a loaded key does is open); Boost.Asio is the record \<open>asio\<close> with \<open>asio_ok\<close> and, for the destructor, \<open>socket_ops\<close>;
  which exchanges never return, since the reads of \<^verbatim>\<open>ClientConnection.cpp\<close> have no timeout, is the argument
  \<open>hangs\<close> of \<open>process_step\<close>; the
  clock, the random token, the success of each SQL statement and SQLite's limit on variables are the
  record \<open>srv_env\<close>. In the statement-level model the success of a statement is not a parameter.

  \<^bold>\<open>What the properties show.\<close> C1 to C5: text messages, the documented key exchange, registrations, client
  lists and public keys end to end, between the client's and the server's code. C6 to C11: a
  client and the server with everything they do interleaved, calls of the client's threads, socket calls and
  SQL statements of all connections, on a connection that may be lost: invariants, no exception from a
  response, a fixed identity after the registration, every response for the thread that asked, exchanges
  that can be completed and rounds that end. C12 to C14: three incidents, a listed name that the other
  thread erases, keys that cross, and messages that are lost with the connection. C15 to C20: the server's
  threads statement by statement: the tables stay well-formed, every thread can answer in a shape the
  client accepts, a message is only removed by a fetch of its recipient, a request that is not interleaved
  is the function of \<open>Server_Requests\<close>, and the two ways in which a thread can lock out the others or
  itself. C21 to C24: the client process, from its start to its exit code, and when its shutdown ends.
  C25 to C31: the contracts of the headers and of the handlers' comments. C32 to C34: what a fetch
  returns and deletes, the server's connections and its port. C35 to C37: the client's prompts and its
  files. Lemmas that are not numbered relate the models to each other: \<open>uninterrupted_turn\<close> (single calls and
  whole functions), \<open>stands_runs\<close> (single calls and whole actions).

  \<^bold>\<open>Not modelled.\<close> The log lines the server prints, binding and listening, the sleeping time of the
  threads. A commit or a statement is one atomic step. The identity fields of the context, which the
  code reads and writes without the lock, are read and written atomically here; by C8 they are only
  written while there is no id, so the race is confined to the registration. \<open>thread_step\<close> and
  \<open>process_step\<close> take an action of the main thread up to its request as one step. In \<open>fine_step\<close> and
  \<open>whole_step\<close> a whole prompt, the saving of \<^verbatim>\<open>my.info.txt\<close> and the printing of an id in hexadecimal are one step each, the
  format flags of \<^verbatim>\<open>std::cout\<close> are not shared, and the stop flag and the waiting of the pull thread are
  left out: a round may begin whenever the last one is over, so every run of the code is among the runs.
\<close>

section \<open>Messages from one client to another\<close>

text \<open>C1: a text message typed at one client is shown by the other, unchanged and under the
  sender's name, when both hold the same symmetric key: the action, the server's storing and
  confirming, the confirmation at the sender, the recipient's fetch and the output all
  succeed, and nothing waits for the recipient afterwards.\<close>

lemma text_message_delivered:
  assumes "crypto_ok cr" and "world_wf wa" and "world_wf wb" and "clientID (ctx wa) = a" and "clientID (ctx wb) = b"
    and "cin wa = nm # lines @ [] # rest" and "isValidUsername nm" and "nm \<noteq> lit ''0''"
    and "lines \<noteq> []" and "[] \<notin> set lines" and "msg = concat (map (\<lambda>l. l @ nl) lines)"
    and "tryGetFriendIdByName (ctx wa) nm = Some b" and "tryGetFriendCopy (ctx wa) b = Some f" and "symmetricKey f = Some k"
    and "tryGetFriendCopy (ctx wb) a = Some g" and "symmetricKey g = Some k"
    and "RSAPrivateWrapper_load cr (privateKey (ctx wb)) = Inr sk"
    and "db_ok d" and "db_ready e1" and "db_ready e2" and "a \<in> c_id ` set (clients d)" and "b \<in> c_id ` set (clients d)"
    and "fetch_rows d b = []" and "Suc (seq d) < 2 ^ 32" and "1 \<le> max_vars e2"
    and "length msg < 2 ^ 32" and "25 + length (aes_encrypt cr k msg) < 2 ^ 32"
  shows "\<exists>q wa1 r1 d1 wa2 r2 d2 wb1. handleMenuChoice cr 150 wa = Some (Inr q, wa1)
    \<and> request_handler_main e1 q d = (Inr r1, d1) \<and> responseClientMain cr r1 wa1 = (Inr (), wa2)
    \<and> request_handler_main e2 (handleWaitingMessages wb) d1 = (Inr r2, d2) \<and> responseClientMain cr r2 wb = (Inr (), wb1)
    \<and> cout wb1 = cout wb @ lit ''From: '' @ displayName (ctx wb) a @ nl @ lit ''Content:'' @ nl @ msg @ nl
        @ lit ''-----<EOM>-----'' @ nl @ nl
    \<and> fetch_rows d2 b = []"
proof -
  let ?c = "aes_encrypt cr k msg" and ?row = "(Suc (seq d), a, unat (3 :: byte), aes_encrypt cr k msg)"
  have la: "length a = 16" and lb: "length b = 16"
    using world_wf_id [OF assms(2)] world_wf_id [OF assms(3)] assms(4,5) by simp_all
  have "friend_wf (b, f)"
    using ctx_wfD(3) [of "ctx wa" b f] assms(2,13) by (simp add: world_wf_def tryGetFriendCopy_def)
  then have k: "length k = 16" using assms(14) by (simp add: friend_wf_def)
  have ne: "?c \<noteq> []" and c21: "21 + length ?c < 2 ^ 32" and c25: "25 + length ?c < 2 ^ 32"
    using crypto_okD(2) [OF assms(1) k] assms(27) by simp_all
  obtain wa1 where act: "handleAllMessages cr 150 wa = Some (Inr (request_bytes a 703 (send_payload b 3 ?c)), wa1)" "ctx wa1 = ctx wa"
    using send_text_run [OF assms(6-10,12) lb assms(13,14) k assms(11,26) ne c21] assms(4) by blast
  obtain d1 d2 where srv: "request_handler_main e1 (request_bytes a 703 (send_payload b 3 ?c)) d =
       (Inr (response_bytes 2103 (b @ le_bytes 4 (Suc (seq d)))), d1)"
    "request_handler_main e2 (request_bytes b 704 []) d1 = (Inr (response_bytes 2104 (encode_row ?row)), d2)"
    "fetch_rows d2 b = []" "fits [?row]"
    by (rule send_then_fetch [where ty = 3 and c = ?c, OF assms(18-22) _ _ c25 assms(24,23,25)]) simp_all
  obtain wa2 where conf: "responseClientMain cr (response_bytes 2103 (b @ le_bytes 4 (Suc (seq d)))) wa1 = (Inr (), wa2)"
    using client_confirms [OF lb _ assms(24), of wa1 f cr] act(2) assms(13) by simp
  have "responseClientMain cr (response_bytes 2104 (encode_row ?row)) wb = (Inr (), showAll cr sk [row_view ?row] wb)"
    using client_shows_rows [OF srv(4) _ assms(17)] by simp
  moreover have "showAll cr sk [row_view ?row] wb = showRecord cr sk a 3 ?c wb"
    by (simp add: showAll_def row_view_def)
  moreover have "handleWaitingMessages wb = request_bytes b 704 []"
    using lb assms(5) by (simp add: handleWaitingMessages_def empty_request)
  moreover have "handleMenuChoice cr 150 wa = Some (Inr (request_bytes a 703 (send_payload b 3 ?c)), wa1)"
    using act(1) by (simp add: handleMenuChoice_def)
  ultimately show ?thesis
    using srv conf show_text [OF assms(15,16) k crypto_okD(1) [OF assms(1) k]] by auto
qed

lemmas sample_facts = sample_names db_ok_sample sample_env_facts sample_friends sample_fetch sample_worlds
  world_wf_sample crypto_ok_toy toy_facts sample_clients sample_registered sample_paths

lemma text_message_delivered_witness:
  "\<exists>q wa1 r1 d1 wa2 r2 d2 wb1. handleMenuChoice toy 150 (alice_world [bob_name, lit ''hi'', []]) = Some (Inr q, wa1)
    \<and> request_handler_main sample_env q sample_db = (Inr r1, d1) \<and> responseClientMain toy r1 wa1 = (Inr (), wa2)
    \<and> request_handler_main sample_env (handleWaitingMessages bob_world) d1 = (Inr r2, d2)
    \<and> responseClientMain toy r2 bob_world = (Inr (), wb1)
    \<and> cout wb1 = cout bob_world @ lit ''From: '' @ displayName (ctx bob_world) alice @ nl @ lit ''Content:'' @ nl
        @ (lit ''hi'' @ nl) @ nl @ lit ''-----<EOM>-----'' @ nl @ nl
    \<and> fetch_rows d2 bob = []"
  by (rule text_message_delivered [where nm = bob_name and lines = "[lit ''hi'']" and rest = "[]" and k = shared_key and sk = 66
        and d = sample_db])
     (simp_all add: sample_facts RSAPrivateWrapper_load_def lit_Cons nl_def, simp_all add: bob_name_def lit_Cons)

text \<open>After one client sent a symmetric key and the other fetched it, both hold the same key of
  16 bytes for each other, the one the sender drew; it travels encrypted under the
  recipient's public key.\<close>

lemma key_exchange_agrees:
  assumes "crypto_ok cr" and "world_wf wa" and "world_wf wb" and "clientID (ctx wa) = a" and "clientID (ctx wb) = b"
    and "cin wa = nm # rest" and "isValidUsername nm" and "nm \<noteq> lit ''0''"
    and "tryGetFriendIdByName (ctx wa) nm = Some b" and "tryGetFriendCopy (ctx wa) b = Some f"
    and "publicKey f = Some (rsa_save_public cr (rsa_public_of cr (rsa_generate cr j)))"
    and "privateKey (ctx wb) = rsa_save_private cr (rsa_generate cr j)"
    and "\<forall>n m c. length m = 16 \<longrightarrow> oaep_encrypt cr n (rsa_public_of cr (rsa_generate cr j)) m = Inr c \<longrightarrow> 25 + length c < 2 ^ 32"
    and "db_ok d" and "db_ready e1" and "db_ready e2" and "a \<in> c_id ` set (clients d)" and "b \<in> c_id ` set (clients d)"
    and "fetch_rows d b = []" and "Suc (seq d) < 2 ^ 32" and "1 \<le> max_vars e2"
  shows "\<exists>q wa1 r1 d1 wa2 r2 d2 wb1 k. handleMenuChoice cr 152 wa = Some (Inr q, wa1)
    \<and> request_handler_main e1 q d = (Inr r1, d1) \<and> responseClientMain cr r1 wa1 = (Inr (), wa2)
    \<and> request_handler_main e2 (handleWaitingMessages wb) d1 = (Inr r2, d2) \<and> responseClientMain cr r2 wb = (Inr (), wb1)
    \<and> k = AESWrapper_random cr (rng wa) (replicate 16 0) \<and> length k = 16
    \<and> Option.bind (tryGetFriendCopy (ctx wa2) b) symmetricKey = Some k
    \<and> Option.bind (tryGetFriendCopy (ctx wb1) a) symmetricKey = Some k"
proof -
  let ?sk = "rsa_generate cr j" and ?k = "AESWrapper_random cr (rng wa) (replicate 16 0)"
  have la: "length a = 16" and lb: "length b = 16"
    using world_wf_id [OF assms(2)] world_wf_id [OF assms(3)] assms(4,5) by simp_all
  have k: "length ?k = 16" by (simp add: length_AESWrapper_random)
  obtain c where c: "oaep_encrypt cr (rng wa + 4) (rsa_public_of cr ?sk) ?k = Inr c" "c \<noteq> []" "oaep_decrypt cr ?sk c = Inr ?k"
    using crypto_okD(3) [OF assms(1) k] by blast
  have c25: "25 + length c < 2 ^ 32" using assms(13) c(1) k by blast
  then have c21: "21 + length c < 2 ^ 32" by simp
  let ?row = "(Suc (seq d), a, unat (2 :: byte), c)"
  obtain wa1 where act: "handleAllMessages cr 152 wa = Some (Inr (request_bytes a 703 (send_payload b 2 c)), wa1)"
      "ctx wa1 = setFriendSymmetricKey b ?k (ctx wa)"
    using send_key_run [OF assms(6-9) lb assms(10,11) crypto_okD(7) [OF assms(1)] crypto_okD(6) [OF assms(1)] refl c(1,2) c21]
      assms(4) by blast
  obtain d1 d2 where srv: "request_handler_main e1 (request_bytes a 703 (send_payload b 2 c)) d =
       (Inr (response_bytes 2103 (b @ le_bytes 4 (Suc (seq d)))), d1)"
    "request_handler_main e2 (request_bytes b 704 []) d1 = (Inr (response_bytes 2104 (encode_row ?row)), d2)"
    "fits [?row]"
    by (rule send_then_fetch [where ty = 2 and c = c, OF assms(14-18) _ _ c25 assms(20,19,21)]) simp_all
  have known: "tryGetFriendCopy (ctx wa1) b = Some (f\<lparr>symmetricKey := Some ?k\<rparr>)"
    using act(2) assms(10) by (simp add: ctx_simps)
  obtain wa2 where conf: "responseClientMain cr (response_bytes 2103 (b @ le_bytes 4 (Suc (seq d)))) wa1 = (Inr (), wa2)"
      "ctx wa2 = ctx wa1"
    using client_confirms [OF lb known assms(20), of cr] by simp
  have load: "RSAPrivateWrapper_load cr (privateKey (ctx wb)) = Inr ?sk"
    using crypto_okD(4) [OF assms(1)] assms(12) by (simp add: RSAPrivateWrapper_load_def)
  let ?wb1 = "showRecord cr ?sk a 2 c wb"
  have show_it: "responseClientMain cr (response_bytes 2104 (encode_row ?row)) wb = (Inr (), ?wb1)"
    using client_shows_rows [OF srv(3) _ load] by (simp add: showAll_def row_view_def)
  have "\<exists>g. tryGetFriendCopy (ctx ?wb1) a = Some g \<and> symmetricKey g = Some ?k"
    using sk.store_key(1) [OF show_key [OF c(3) k]] by blast
  then have recv: "Option.bind (tryGetFriendCopy (ctx ?wb1) a) symmetricKey = Some ?k" by auto
  have "handleWaitingMessages wb = request_bytes b 704 []"
    using lb assms(5) by (simp add: handleWaitingMessages_def empty_request)
  moreover have "handleMenuChoice cr 152 wa = Some (Inr (request_bytes a 703 (send_payload b 2 c)), wa1)"
    using act(1) by (simp add: handleMenuChoice_def)
  ultimately show ?thesis
    using srv(1,2) conf show_it recv known k by (intro exI conjI) (assumption | simp)+
qed

lemma key_exchange_agrees_witness:
  "\<exists>q wa1 r1 d1 wa2 r2 d2 wb1 k. handleMenuChoice toy 152 (alice_world [bob_name]) = Some (Inr q, wa1)
    \<and> request_handler_main sample_env q sample_db = (Inr r1, d1) \<and> responseClientMain toy r1 wa1 = (Inr (), wa2)
    \<and> request_handler_main sample_env (handleWaitingMessages bob_world) d1 = (Inr r2, d2)
    \<and> responseClientMain toy r2 bob_world = (Inr (), wb1)
    \<and> k = AESWrapper_random toy (rng (alice_world [bob_name])) (replicate 16 0) \<and> length k = 16
    \<and> Option.bind (tryGetFriendCopy (ctx wa2) bob) symmetricKey = Some k
    \<and> Option.bind (tryGetFriendCopy (ctx wb1) alice) symmetricKey = Some k"
  by (rule key_exchange_agrees [where nm = bob_name and rest = "[]" and j = 33 and d = sample_db])
     (simp_all add: sample_facts toy_keys, simp_all add: bob_pub_def)

section \<open>What a client learns from the server\<close>

text \<open>C3: a registration under a free name leaves client and server in agreement: the client has
  the id the server drew, the table has exactly one new row with this id, the typed name and
  the public key that belongs to the private key the client holds, and \<^verbatim>\<open>my.info.txt\<close> holds
  the client's data.\<close>

lemma registration_agrees:
  assumes "crypto_ok cr" and "world_wf w" and "\<not> hasClientID (ctx w)" and "cin w = nm # rest" and "client_name nm"
    and "env_ok e" and "stmt_ok e 0" and "token e \<notin> c_id ` set (clients d)" and "nm \<notin> c_name ` set (clients d)"
    and "getExecutableDirectory w = Inr ()" and "my_info_open_ok w" and "my_info_short_write w = None"
    and "list_ex (\<lambda>b. b \<noteq> 0) (token e)"
  shows "\<exists>q w1 r d' w2 row sk. handleMenuChoice cr 110 w = Some (Inr q, w1)
    \<and> request_handler_main e q d = (Inr r, d') \<and> responseClientMain cr r w1 = (Inr (), w2)
    \<and> clientID (ctx w2) = token e \<and> userName (ctx w2) = nm
    \<and> clients d' = clients d @ [row] \<and> c_id row = token e \<and> c_name row = nm
    \<and> rsa_load_private cr (privateKey (ctx w2)) = Inr sk \<and> rsa_load_public cr (c_pubkey row) = Inr (rsa_public_of cr sk)
    \<and> my_info w2 = Some (my_info_text cr (ctx w2))"
proof -
  let ?sk = "rsa_generate cr (rng w)"
  let ?pk = "rsa_save_public cr (rsa_public_of cr ?sk)"
  have nm: "name_ok nm" "isValidUsername nm" using assms(5) client_name_ok by (auto simp: client_name_def)
  have id: "length (clientID (ctx w)) = 16" using assms(2) by (rule world_wf_id)
  note pk = crypto_okD(7) [OF assms(1), of "rng w"]
  obtain w1 where act: "handleRegister cr w = Some (Inr (request_bytes (clientID (ctx w)) 700 (padded_name nm @ ?pk)), w1)"
      "ctx w1 = setPrivateKey (rsa_save_private cr ?sk) (setName nm (ctx w))" "exe_path_len w1 = exe_path_len w"
      "my_info_open_ok w1 = my_info_open_ok w" "my_info_short_write w1 = my_info_short_write w"
    using handleRegister_run [OF assms(2,3,4) nm(2) pk] by blast
  note srv = register_run [OF id nm(1) pk assms(7,8,9,6)]
  let ?w = "upd_ctx (setClientID (token e)) w1"
  have "nm \<noteq> []" using nm(1) by (simp add: name_ok_def)
  then have c: "hasClientID (ctx ?w)" "userName (ctx ?w) = nm" "privateKey (ctx ?w) = rsa_save_private cr ?sk" "userName (ctx ?w) \<noteq> []"
    using assms(13) by (simp_all add: act(2) ctx_simps hasClientID_def)
  have dir: "getExecutableDirectory ?w = Inr ()"
    using assms(10) act(3) by (simp add: getExecutableDirectory_def split: if_splits)
  have "saveMyInfo cr ?w = (Inr (), ?w\<lparr>my_info := Some (my_info_text cr (ctx ?w))\<rparr>)"
    using c dir crypto_okD(5) [OF assms(1)] act(4,5) assms(11,12) by (simp add: saveMyInfo_def)
  moreover have "readClientID (response_bytes 2100 (token e)) 7 = Inr (token e)"
    using assms(6) by (simp add: readClientID_def length_response bslice_response env_ok_def)
  ultimately obtain w2 where resp: "responseClientMain cr (response_bytes 2100 (token e)) w1 = (Inr (), w2)"
      "ctx w2 = ctx ?w" "my_info w2 = Some (my_info_text cr (ctx ?w))"
    by (simp add: responseClientMain_def responseCode_bytes length_response responseRegister_def)
  have "handleMenuChoice cr 110 w = Some (Inr (request_bytes (clientID (ctx w)) 700 (padded_name nm @ ?pk)), w1)"
    using act(1) by (simp add: handleMenuChoice_def)
  then show ?thesis
    using srv resp c crypto_okD(4,6) [OF assms(1)]
    by (intro exI [of _ "request_bytes (clientID (ctx w)) 700 (padded_name nm @ ?pk)"] exI [of _ w1] exI [of _ "response_bytes 2100 (token e)"]
        exI [of _ "d\<lparr>clients := clients d @ [\<lparr>c_id = token e, c_name = nm, c_pubkey = ?pk, c_last_seen = now e\<rparr>]\<rparr>"] exI [of _ w2]
        exI [of _ "\<lparr>c_id = token e, c_name = nm, c_pubkey = ?pk, c_last_seen = now e\<rparr>"] exI [of _ ?sk]) (simp add: ctx_simps)
qed

lemma registration_agrees_witness:
  "\<exists>q w1 r d' w2 row sk. handleMenuChoice toy 110 (new_world [lit ''Carol'']) = Some (Inr q, w1)
    \<and> request_handler_main sample_env q sample_db = (Inr r, d') \<and> responseClientMain toy r w1 = (Inr (), w2)
    \<and> clientID (ctx w2) = token sample_env \<and> userName (ctx w2) = lit ''Carol''
    \<and> clients d' = clients sample_db @ [row] \<and> c_id row = token sample_env \<and> c_name row = lit ''Carol''
    \<and> rsa_load_private toy (privateKey (ctx w2)) = Inr sk \<and> rsa_load_public toy (c_pubkey row) = Inr (rsa_public_of toy sk)
    \<and> my_info w2 = Some (my_info_text toy (ctx w2))"
  by (rule registration_agrees [where rest = "[]"])
     (simp_all add: sample_facts, simp_all add: client_name_def isValidUsername_def lit_Cons alice_def bob_def alice_name_def
        bob_name_def list_ex_iff new_world_def init_world_def)

text \<open>C4: after a request for the clients list, the cache has every other registered client under
  its registered name (cut to 254 characters), keeps the keys it had for them, and is
  unchanged for every other id.\<close>

lemma clients_list_learned:
  assumes "world_wf w" and "clientID (ctx w) = me" and "me \<in> c_id ` set (clients d)" and "db_ok d" and "db_ready e"
    and "271 * length (other_clients me d) < 2 ^ 32"
  shows "\<exists>q r d' w'. handleMenuChoice cr 120 w = Some (Inr q, w) \<and> request_handler_main e q d = (Inr r, d')
    \<and> responseClientMain cr r w = (Inr (), w')
    \<and> (\<forall>row\<in>set (clients d). c_id row \<noteq> me \<longrightarrow>
         (\<exists>f. tryGetFriendCopy (ctx w') (c_id row) = Some f \<and> friendName f = take 254 (c_name row)
            \<and> keys_of (Some f) = keys_of (tryGetFriendCopy (ctx w) (c_id row))))
    \<and> (\<forall>k. k = me \<or> k \<notin> c_id ` set (clients d) \<longrightarrow> tryGetFriendCopy (ctx w') k = tryGetFriendCopy (ctx w) k)"
proof -
  let ?es = "other_clients me d" and ?v = "map entry_view (other_clients me d)"
  have me: "length me = 16" using world_wf_id [OF assms(1)] assms(2) by simp
  have ids: "map fst ?v = filter (\<lambda>i. i \<noteq> me) (map c_id (clients d))"
    by (simp add: other_clients_def entry_view_def filter_map comp_def)
  then have dist: "distinct (map fst ?v)" using db_okD(1) [OF assms(4)] by simp
  let ?w = "fold learn ?v w"
  have ctx: "ctx ?w = fold (\<lambda>e. setFriendBase (fst e) (snd e)) ?v (ctx w)" by (rule fold_learn_ctx)
  have "handleMenuChoice cr 120 w = Some (Inr (request_bytes me 701 []), w)"
    using me assms(2) by (simp add: handleMenuChoice_def handleClientList_def empty_request)
  moreover note clients_list_run [OF me assms(5,3,6,4)]
  moreover have "responseClientMain cr (response_bytes 2101 (concat (map client_list_entry ?es))) w = (Inr (), ?w)"
    by (rule client_learns_entries) (use entry_ok_other [OF assms(4)] in blast)
  moreover have "\<exists>f. tryGetFriendCopy (ctx ?w) (c_id row) = Some f \<and> friendName f = take 254 (c_name row)
            \<and> keys_of (Some f) = keys_of (tryGetFriendCopy (ctx w) (c_id row))"
    if "row \<in> set (clients d)" "c_id row \<noteq> me" for row
  proof -
    have "(c_id row, take 254 (c_name row)) \<in> set ?v"
      using that by (force simp: other_clients_def entry_view_def)
    from fold_setFriendBase_in [OF dist this, of "ctx w"] show ?thesis unfolding ctx by blast
  qed
  moreover have "tryGetFriendCopy (ctx ?w) k = tryGetFriendCopy (ctx w) k" if "k = me \<or> k \<notin> c_id ` set (clients d)" for k
  proof -
    have "fst ` set ?v = set (map fst ?v)" by (simp only: set_map)
    then have "k \<notin> fst ` set ?v" unfolding ids using that by auto
    from fold_setFriendBase_other [OF this, of "ctx w"] show ?thesis unfolding ctx .
  qed
  ultimately show ?thesis by blast
qed

lemma clients_list_learned_witness:
  "\<exists>r d' w' f. request_handler_main sample_env (request_bytes alice 701 []) sample_db = (Inr r, d')
     \<and> responseClientMain toy r (alice_world []) = (Inr (), w') \<and> tryGetFriendCopy (ctx w') bob = Some f \<and> friendName f = bob_name"
proof -
  have "other_clients alice sample_db = [(bob, bob_name)]" by (simp add: other_clients_def sample_clients)
  then have small: "271 * length (other_clients alice sample_db) < 2 ^ 32" by simp
  have "handleMenuChoice toy 120 (alice_world []) = Some (Inr (request_bytes alice 701 []), alice_world [])"
    by (simp add: handleMenuChoice_def handleClientList_def empty_request sample_facts)
  moreover have "take 254 bob_name = bob_name" by (simp add: bob_name_def)
  ultimately show ?thesis
    using clients_list_learned [OF world_wf_sample(1) _ _ db_ok_sample sample_env_facts(2) small, of "[]" toy]
    by (auto simp: sample_facts)
qed

text \<open>C5: after a request for the public key of a cached client, the cache holds the key of that
  client's row in the server's table, under its known name.\<close>

lemma public_key_learned:
  assumes "world_wf w" and "clientID (ctx w) = me" and "me \<in> c_id ` set (clients d)" and "db_ok d" and "db_ready e"
    and "cin w = nm # rest" and "isValidUsername nm" and "nm \<noteq> lit ''0''" and "tryGetFriendIdByName (ctx w) nm = Some (c_id row)"
    and "row \<in> set (clients d)"
  shows "\<exists>q w1 r d' w2 f. handleMenuChoice cr 130 w = Some (Inr q, w1) \<and> request_handler_main e q d = (Inr r, d')
    \<and> responseClientMain cr r w1 = (Inr (), w2) \<and> tryGetFriendCopy (ctx w2) (c_id row) = Some f
    \<and> publicKey f = Some (c_pubkey row) \<and> friendName f = nm"
proof -
  have me: "length me = 16" using world_wf_id [OF assms(1)] assms(2) by simp
  have row: "length (c_id row) = 16" "length (c_pubkey row) = 160"
    using db_okD(3) [OF assms(4,10)] by (simp_all add: client_row_ok_def)
  obtain v where v: "getValidUsername target_prompt w = Some (nm, v)" "ctx v = ctx w"
    by (rule target_first [OF assms(6-9)])
  let ?q = "request_bytes me 702 (c_id row)"
  have act: "handleMenuChoice cr 130 w = Some (Inr ?q, v)"
    using v assms(2,8,9) row(1) by (simp add: handleMenuChoice_def handlePublicKey_def payload_request)
  obtain f where f: "tryGetFriendCopy (ctx w) (c_id row) = Some f" "friendName f = nm"
    using tryGetFriendIdByName_Some [of "ctx w" nm "c_id row"] assms(1,9) by (auto simp: world_wf_def)
  obtain w2 where w2: "responseClientMain cr (response_bytes 2102 (c_id row @ c_pubkey row)) v = (Inr (), w2)"
      "ctx w2 = setFriendPublicKey (c_id row) (c_pubkey row) (if tryGetFriendCopy (ctx v) (c_id row) = None then setFriendBase (c_id row) [] (ctx v) else ctx v)"
    using client_stores_key [OF row] by blast
  have "\<exists>g. tryGetFriendCopy (ctx w2) (c_id row) = Some g \<and> publicKey g = Some (c_pubkey row) \<and> friendName g = nm"
    using pk.store_key(1) [OF w2(2)] v(2) f by simp
  with act public_key_run [OF me assms(5,3,4,10)] w2(1) show ?thesis by blast
qed

lemma public_key_learned_witness:
  "\<exists>q w1 r d' w2 f. handleMenuChoice toy 130 (alice_world [bob_name]) = Some (Inr q, w1)
    \<and> request_handler_main sample_env q sample_db = (Inr r, d') \<and> responseClientMain toy r w1 = (Inr (), w2)
    \<and> tryGetFriendCopy (ctx w2) (c_id \<lparr>c_id = bob, c_name = bob_name, c_pubkey = bob_pub, c_last_seen = ''''\<rparr>) = Some f
    \<and> publicKey f = Some (c_pubkey \<lparr>c_id = bob, c_name = bob_name, c_pubkey = bob_pub, c_last_seen = ''''\<rparr>) \<and> friendName f = bob_name"
  by (rule public_key_learned [where me = alice and rest = "[]"]) (simp_all add: sample_facts)

section \<open>Both threads of a client, the server and the other clients\<close>

text \<open>In every state reached by any interleaving of the main thread, the pull thread and the
  requests of other clients, the client's state keeps its types, the server's tables are
  well-formed, and no byte of a response is left unread between exchanges.\<close>

lemma system_keeps_invariants:
  assumes "(sys_step cr envs)\<^sup>*\<^sup>* t u" and "\<forall>n. env_ok (envs n)" and "sys_start t"
  shows "world_wf (world u) \<and> db_ok (sdb (network u)) \<and> inbox (network u) = []"
  using sys_reach(1) [OF assms] by (simp add: sys_inv_alt)

lemma system_keeps_invariants_witness:
  "\<exists>(u :: srv_net threads) r. main_pending u = Response r \<and> world_wf (world u) \<and> db_ok (sdb (network u)) \<and> inbox (network u) = []"
  using sample_run system_keeps_invariants [OF _ sample_envs sample_start, of toy] by blast

text \<open>The handling of the response the main thread received never ends in an exception, however
  the pull thread and other clients ran in between, when the private key loads and the path
  of the executable is known: in particular the client a message was confirmed for is in the
  cache.\<close>

lemma responses_never_raise:
  assumes "(sys_step cr envs)\<^sup>*\<^sup>* t u" and "\<forall>n. env_ok (envs n)" and "sys_start t" and "main_pending u = Response r"
    and "RSAPrivateWrapper_load cr (privateKey (ctx (world u))) = Inr sk" and "getExecutableDirectory (world u) = Inr ()"
  shows "\<exists>w'. responseClientMain cr r (world u) = (Inr (), w')"
proof -
  obtain q where q: "good_request (world u) q" "length q < 23 + 2 ^ 32" "response_shape q r"
    using sys_reach(1) [OF assms(1-3)] assms(4) by (auto simp: sys_inv_alt pending_ok_def)
  show ?thesis
    by (rule client_accepts_shape [OF q(3) assms(5,6) good_request_whole(2) [OF q(1,2)]])
qed

lemma responses_never_raise_witness:
  "\<exists>(u :: srv_net threads) r w'. main_pending u = Response r \<and> responseClientMain toy r (world u) = (Inr (), w')"
proof -
  obtain u r where u: "(sys_step toy (\<lambda>n. sample_env))\<^sup>*\<^sup>* sample_threads u" "main_pending u = Response r"
    "same_but_console (alice_world [lit ''120'']) (world u)"
    using sample_run by blast
  note same = same_but_console_fields [OF u(3)]
  have "RSAPrivateWrapper_load toy (privateKey (ctx (world u))) = Inr 65" "getExecutableDirectory (world u) = Inr ()"
    by (simp_all add: RSAPrivateWrapper_load_def getExecutableDirectory_def same sample_facts)
       (simp add: alice_world_def init_world_def)
  from responses_never_raise [OF u(1) sample_envs sample_start u(2) this] u(2) show ?thesis by blast
qed

text \<open>A cached client stays in the cache and keeps having its keys in every later state of the
  system.\<close>

lemma cached_clients_persist:
  assumes "(sys_step cr envs)\<^sup>*\<^sup>* t u" and "\<forall>n. env_ok (envs n)" and "sys_start t" and "tryGetFriendCopy (ctx (world t)) k = Some f"
  shows "\<exists>g. tryGetFriendCopy (ctx (world u)) k = Some g \<and> (publicKey f \<noteq> None \<longrightarrow> publicKey g \<noteq> None)
    \<and> (symmetricKey f \<noteq> None \<longrightarrow> symmetricKey g \<noteq> None)"
  using sys_reach(2) [OF assms(1-3)] assms(4) unfolding keeps_def keeps_friends_def by blast

lemma cached_clients_persist_witness:
  "\<exists>(u :: srv_net threads) r g. main_pending u = Response r \<and> tryGetFriendCopy (ctx (world u)) bob = Some g"
proof -
  obtain u r where u: "(sys_step toy (\<lambda>n. sample_env))\<^sup>*\<^sup>* sample_threads u" "main_pending u = Response r"
    using sample_run by blast
  have "\<exists>f. tryGetFriendCopy (ctx (world sample_threads)) bob = Some f"
    by (simp add: sample_threads_def sample_facts)
  then obtain f where f: "tryGetFriendCopy (ctx (world sample_threads)) bob = Some f" by blast
  from cached_clients_persist [OF u(1) sample_envs sample_start f] u(2) show ?thesis by blast
qed

end
